(* ===== verification/Prelude.thy ===== *)
theory Prelude
  imports Complex_Main "HOL-Library.Word" "HOL-Library.AList" "HOL-Library.Monad_Syntax"
begin

text \<open>
  Shared vocabulary of the development: names for the machine types of the program, the
  model of its hash maps, the reading monad of the packet parsers, and the generic lemmas
  on lists, options and words that the components share.

  \<^item> \<open>u8\<close>, \<open>u16\<close>, \<open>u32\<close>, \<open>u64\<close> are the program's \<open>uint8_t\<close>, \dots; their arithmetic wraps.
  \<^item> \<open>ns\<close> is a \<open>steady_clock\<close> time point or a difference of two: a count of nanoseconds. The
    difference of two readings of one clock cannot overflow 64 bits, so it is an \<open>int\<close>.
  \<^item> \<open>umap\<close> is a \<open>std::unordered_map\<close>: an association list, in the order in which the
    container's iteration visits its elements (any order: nothing depends on which).
  \<^item> \<open>returns P m\<close> says that a computation in the option monad does not fail (\<open>None\<close> is a read
    outside a buffer) and that its result satisfies \<open>P\<close>.
\<close>

section \<open>Machine types\<close>

type_synonym u8 = "8 word"
type_synonym u16 = "16 word"
type_synonym u32 = "32 word"
type_synonym u64 = "64 word"
type_synonym ns = int

text \<open>Collections: rules that step through a parser, and facts on table operations.\<close>

named_theorems returns_intros \<open>introduction rules for reading computations\<close>
named_theorems umap_simps \<open>rewriting of table look-ups and sizes\<close>

section \<open>Hash maps\<close>

type_synonym ('k, 'v) umap = "('k \<times> 'v) list"

definition umap_find :: "('k, 'v) umap \<Rightarrow> 'k \<Rightarrow> 'v option" where
  "umap_find m k = map_of m k"

definition umap_put :: "'k \<Rightarrow> 'v \<Rightarrow> ('k, 'v) umap \<Rightarrow> ('k, 'v) umap" where
  "umap_put k v m = AList.update k v m"

definition umap_erase_if :: "('k \<Rightarrow> 'v \<Rightarrow> bool) \<Rightarrow> ('k, 'v) umap \<Rightarrow> ('k, 'v) umap" where
  "umap_erase_if P m = filter (\<lambda>(k, v). \<not> P k v) m"

definition umap_size :: "('k, 'v) umap \<Rightarrow> nat" where
  "umap_size m = length m"

definition umap_wf :: "('k, 'v) umap \<Rightarrow> bool" where
  "umap_wf m = distinct (map fst m)"

text \<open>
  The interface of a table that the components rely on: what a look-up returns after an
  insertion and after an eviction, and what the size is. The clients' lemmas are proved here
  once.
\<close>

locale table =
  fixes find :: "'m \<Rightarrow> 'k \<Rightarrow> 'v option"
    and put :: "'k \<Rightarrow> 'v \<Rightarrow> 'm \<Rightarrow> 'm"
    and erase_if :: "('k \<Rightarrow> 'v \<Rightarrow> bool) \<Rightarrow> 'm \<Rightarrow> 'm"
    and size_of :: "'m \<Rightarrow> nat"
    and wf :: "'m \<Rightarrow> bool"
  assumes find_put: "find (put k v m) k' = (if k' = k then Some v else find m k')"
    and find_erase: "wf m \<Longrightarrow> find (erase_if P m) k =
          (case find m k of None \<Rightarrow> None | Some v \<Rightarrow> if P k v then None else Some v)"
    and size_put: "wf m \<Longrightarrow> size_of (put k v m) =
          (if find m k = None then Suc (size_of m) else size_of m)"
    and size_erase: "size_of (erase_if P m) \<le> size_of m"
    and wf_put: "wf m \<Longrightarrow> wf (put k v m)"
    and wf_erase: "wf m \<Longrightarrow> wf (erase_if P m)"
begin

lemma find_put_same: "find (put k v m) k = Some v"
  by (simp add: find_put)

lemma find_put_other: "k' \<noteq> k \<Longrightarrow> find (put k v m) k' = find m k'"
  by (simp add: find_put)

lemma size_put_existing: "wf m \<Longrightarrow> find m k = Some w \<Longrightarrow> size_of (put k v m) = size_of m"
  by (simp add: size_put)

lemma size_put_new: "wf m \<Longrightarrow> find m k = None \<Longrightarrow> size_of (put k v m) = Suc (size_of m)"
  by (simp add: size_put)

lemma size_put_le: "wf m \<Longrightarrow> size_of (put k v m) \<le> Suc (size_of m)"
  by (simp add: size_put)

lemma erase_keeps: "wf m \<Longrightarrow> find m k = Some v \<Longrightarrow> \<not> P k v \<Longrightarrow> find (erase_if P m) k = Some v"
  by (simp add: find_erase)

lemma erase_removes: "wf m \<Longrightarrow> find (erase_if P m) k = Some v \<Longrightarrow> find m k = Some v \<and> \<not> P k v"
  by (auto simp: find_erase split: option.splits if_splits)

end

lemma map_of_filter_pairs:
  "distinct (map fst m) \<Longrightarrow>
   map_of (filter (\<lambda>(k, v). \<not> P k v) m) k =
     (case map_of m k of None \<Rightarrow> None | Some v \<Rightarrow> if P k v then None else Some v)"
proof (induction m)
  case Nil
  then show ?case by simp
next
  case (Cons a m)
  obtain k' v' where a: "a = (k', v')" by (cases a) auto
  from Cons.prems a have notin: "k' \<notin> set (map fst m)" and d: "distinct (map fst m)" by auto
  from notin have "map_of m k' = None" by (simp add: map_of_eq_None_iff)
  with Cons.IH [OF d] a show ?case by (auto split: option.splits)
qed

lemma length_alist_update:
  "length (AList.update k v m) = (if k \<in> set (map fst m) then length m else Suc (length m))"
  by (induction m) auto

interpretation um: table umap_find umap_put umap_erase_if umap_size umap_wf
proof unfold_locales
  fix m :: "('k, 'v) umap" and k k' v and P :: "'k \<Rightarrow> 'v \<Rightarrow> bool"
  show "umap_find (umap_put k v m) k' = (if k' = k then Some v else umap_find m k')"
    by (simp add: umap_find_def umap_put_def update_conv)
  show "umap_size (umap_erase_if P m) \<le> umap_size m"
    by (simp add: umap_size_def umap_erase_if_def)
  assume wf: "umap_wf m"
  then show "umap_find (umap_erase_if P m) k =
      (case umap_find m k of None \<Rightarrow> None | Some v \<Rightarrow> if P k v then None else Some v)"
    by (simp add: umap_find_def umap_erase_if_def umap_wf_def map_of_filter_pairs)
  from wf show "umap_size (umap_put k v m) =
      (if umap_find m k = None then Suc (umap_size m) else umap_size m)"
    by (auto simp: umap_size_def umap_find_def umap_put_def length_alist_update map_of_eq_None_iff)
  from wf show "umap_wf (umap_put k v m)"
    by (simp add: umap_wf_def umap_put_def distinct_update)
  from wf show "umap_wf (umap_erase_if P m)"
    unfolding umap_wf_def umap_erase_if_def by (induction m) auto
qed

lemma umap_find_empty [simp, umap_simps]: "umap_find [] k = None"
  by (simp add: umap_find_def)

lemma umap_wf_empty [simp]: "umap_wf []"
  by (simp add: umap_wf_def)

lemma umap_size_empty [simp]: "umap_size [] = 0"
  by (simp add: umap_size_def)

declare um.find_put [umap_simps] um.wf_put [simp, intro] um.wf_erase [simp, intro]

section \<open>Runs of a state machine\<close>

text \<open>
  A component that the program drives by a sequence of calls: \<open>step\<close> is one call, \<open>inv\<close> what every
  call keeps. The invariant then holds after every sequence of calls.
\<close>

locale preserving =
  fixes step :: "'e \<Rightarrow> 's \<Rightarrow> 's"
    and inv :: "'s \<Rightarrow> bool"
  assumes step_inv: "inv s \<Longrightarrow> inv (step e s)"
begin

lemma run_inv: "inv s \<Longrightarrow> inv (fold step es s)"
  by (induction es arbitrary: s) (simp_all add: step_inv)

end

section \<open>The reading monad\<close>

definition returns :: "('a \<Rightarrow> bool) \<Rightarrow> 'a option \<Rightarrow> bool" where
  "returns P m = (case m of None \<Rightarrow> False | Some x \<Rightarrow> P x)"

lemma returns_Some [returns_intros]: "P x \<Longrightarrow> returns P (Some x)"
  by (simp add: returns_def)

lemma returns_bind:
  "returns Q m \<Longrightarrow> (\<And>x. Q x \<Longrightarrow> returns P (f x)) \<Longrightarrow> returns P (m \<bind> f)"
  by (cases m) (simp_all add: returns_def)

lemma returns_if [returns_intros]:
  "(b \<Longrightarrow> returns P x) \<Longrightarrow> (\<not> b \<Longrightarrow> returns P y) \<Longrightarrow> returns P (if b then x else y)"
  by simp

lemma returns_iff: "returns P m \<longleftrightarrow> (\<exists>x. m = Some x \<and> P x)"
  by (auto simp: returns_def split: option.splits)

lemma returns_mono: "returns P m \<Longrightarrow> (\<And>x. P x \<Longrightarrow> Q x) \<Longrightarrow> returns Q m"
  by (auto simp: returns_def split: option.splits)

lemma returns_let [returns_intros]: "returns P (f x) \<Longrightarrow> returns P (Let x f)"
  by simp

section \<open>Reading a buffer\<close>

text \<open>
  \<open>byte_at p i\<close> is the C++ expression \<open>p[i]\<close>: it fails when the byte is outside the
  allocation. Multi-byte fields are big-endian on the wire (\<open>ntohs\<close> and \<open>ntohl\<close> in the code,
  or the shift-and-or written out). \<open>bytes_at p i n\<close> is a copy of \<open>n\<close> bytes.
\<close>

definition byte_at :: "u8 list \<Rightarrow> nat \<Rightarrow> u8 option" where
  "byte_at p i = (if i < length p then Some (p ! i) else None)"

definition be16_of :: "u8 \<Rightarrow> u8 \<Rightarrow> u16" where
  "be16_of a b = word_cat a b"

definition be16_at :: "u8 list \<Rightarrow> nat \<Rightarrow> u16 option" where
  "be16_at p i = do { a \<leftarrow> byte_at p i; b \<leftarrow> byte_at p (i + 1); Some (be16_of a b) }"

definition be32_at :: "u8 list \<Rightarrow> nat \<Rightarrow> u32 option" where
  "be32_at p i = do { a \<leftarrow> be16_at p i; b \<leftarrow> be16_at p (i + 2); Some (word_cat a b) }"

definition bytes_at :: "u8 list \<Rightarrow> nat \<Rightarrow> nat \<Rightarrow> u8 list option" where
  "bytes_at p i n = (if i + n \<le> length p then Some (take n (drop i p)) else None)"

definition chars_of :: "u8 list \<Rightarrow> string" where
  "chars_of bs = map (\<lambda>b. char_of (unat b)) bs"

text \<open>
  The rules for a read in front of a continuation: the bound is the proof obligation, and the
  continuation goes on with the byte that is there.
\<close>

lemma returns_byte_at [returns_intros]:
  "i < length p \<Longrightarrow> returns P (f (p ! i)) \<Longrightarrow> returns P (byte_at p i \<bind> f)"
  by (simp add: returns_def byte_at_def)

lemma returns_be16_at [returns_intros]:
  "i + 1 < length p \<Longrightarrow> returns P (f (be16_of (p ! i) (p ! (i + 1)))) \<Longrightarrow>
   returns P (be16_at p i \<bind> f)"
  by (simp add: returns_def be16_at_def byte_at_def)

lemma returns_be32_at [returns_intros]:
  "i + 3 < length p \<Longrightarrow>
   returns P (f (word_cat (be16_of (p ! i) (p ! (i + 1))) (be16_of (p ! (i + 2)) (p ! (i + 3))))) \<Longrightarrow>
   returns P (be32_at p i \<bind> f)"
  by (simp add: returns_def be32_at_def be16_at_def byte_at_def numeral_eq_Suc)

lemma returns_bytes_at [returns_intros]:
  "i + n \<le> length p \<Longrightarrow> returns P (f (take n (drop i p))) \<Longrightarrow> returns P (bytes_at p i n \<bind> f)"
  by (simp add: returns_def bytes_at_def)

lemma length_chars_of [simp]: "length (chars_of bs) = length bs"
  by (simp add: chars_of_def)

lemma chars_of_append [simp]: "chars_of (xs @ ys) = chars_of xs @ chars_of ys"
  by (simp add: chars_of_def)

lemma chars_of_Nil [simp]: "chars_of [] = []"
  by (simp add: chars_of_def)

end
