(* ===== verification/Traces.thy ===== *)
theory Traces
  imports Prelude
begin

text \<open>
  Runs of a system of threads, given by a step relation with labels: traces from a start state,
  invariants of the reachable states (locale \<open>guarded\<close>), refinement of a model with atomic operations
  (locale \<open>simulation\<close>), and the end of one thread by its own steps (locale \<open>ending\<close>). The ring buffer,
  the delivery queue and the flow table interpret them.
\<close>

inductive trace :: "('l \<Rightarrow> 's \<Rightarrow> 's \<Rightarrow> bool) \<Rightarrow> 's \<Rightarrow> 'l list \<Rightarrow> 's \<Rightarrow> bool" for step start where
  start: "trace step start [] start"
| snoc: "trace step start ls s \<Longrightarrow> step l s s' \<Longrightarrow> trace step start (ls @ [l]) s'"

text \<open>A schedule written out, with the states it passes.\<close>

fun path :: "('l \<Rightarrow> 's \<Rightarrow> 's \<Rightarrow> bool) \<Rightarrow> 's \<Rightarrow> ('l \<times> 's) list \<Rightarrow> bool" where
  "path step s [] \<longleftrightarrow> True"
| "path step s ((l, s') # ps) \<longleftrightarrow> step l s s' \<and> path step s' ps"

lemma trace_append_path:
  "trace step start ls s \<Longrightarrow> path step s ps \<Longrightarrow> trace step start (ls @ map fst ps) (last (s # map snd ps))"
proof (induction step s ps arbitrary: ls rule: path.induct)
  case (2 step s l s' ps)
  have "trace step start (ls @ [l]) s'" using 2(2,3) by (auto intro: trace.snoc)
  from 2(1) [OF this] 2(3) show ?case by simp
qed simp

lemma path_trace: "path step s ps \<Longrightarrow> trace step s (map fst ps) (last (s # map snd ps))"
  using trace_append_path [OF trace.start, of step s ps] by simp

lemma trace_single: "step l s s' \<Longrightarrow> trace step s [l] s'"
  using path_trace [of step s "[(l, s')]"] by simp

section \<open>Invariants and refinement\<close>

locale guarded =
  fixes step :: "'l \<Rightarrow> 's \<Rightarrow> 's \<Rightarrow> bool"
    and start :: 's
    and inv :: "'s \<Rightarrow> bool"
  assumes inv_start: "inv start"
    and inv_step: "step l s s' \<Longrightarrow> inv s \<Longrightarrow> inv s'"
begin

lemma trace_inv: "trace step start ls s \<Longrightarrow> inv s"
  by (induction rule: trace.induct) (use inv_start inv_step in blast)+

end

text \<open>Every step is a stutter or some operations of the atomic model, as \<open>event\<close> says.\<close>

locale simulation = guarded step start inv
  for step :: "'l \<Rightarrow> 's \<Rightarrow> 's \<Rightarrow> bool" and start :: 's and inv :: "'s \<Rightarrow> bool" +
  fixes astep :: "'e \<Rightarrow> 'a \<Rightarrow> 'a"
    and event :: "'l \<Rightarrow> 'e list"
    and abs :: "'s \<Rightarrow> 'a"
  assumes step_refines: "step l s s' \<Longrightarrow> inv s \<Longrightarrow> abs s' = fold astep (event l) (abs s)"
begin

lemma trace_refines: "trace step start ls s \<Longrightarrow> abs s = fold astep (concat (map event ls)) (abs start)"
proof (induction rule: trace.induct)
  case (snoc ls s l s')
  then show ?case using step_refines [OF snoc(2) trace_inv [OF snoc(1)]] by simp
qed simp

end

section \<open>The end of a thread\<close>

text \<open>\<open>own_steps own step n\<close> are \<open>n\<close> steps of the labels \<open>own\<close>.\<close>

inductive own_steps :: "('l \<Rightarrow> bool) \<Rightarrow> ('l \<Rightarrow> 's \<Rightarrow> 's \<Rightarrow> bool) \<Rightarrow> nat \<Rightarrow> 's \<Rightarrow> 's \<Rightarrow> bool" for own step where
  none: "own_steps own step 0 s s"
| more: "own l \<Longrightarrow> step l s s' \<Longrightarrow> own_steps own step n s' s'' \<Longrightarrow> own_steps own step (Suc n) s s''"

lemma enabledI: "step l s s' \<Longrightarrow> own l \<Longrightarrow> free s' \<Longrightarrow> \<exists>l s'. own l \<and> step l s s' \<and> free s'"
  by blast

text \<open>
  A thread that has been told to stop: each of its steps uses up work, and unless it has ended or
  cannot run it has a step, behind which it can run again.
\<close>

locale ending =
  fixes own :: "'l \<Rightarrow> bool"
    and step :: "'l \<Rightarrow> 's \<Rightarrow> 's \<Rightarrow> bool"
    and stopped :: "'s \<Rightarrow> bool"
    and work :: "'s \<Rightarrow> nat"
    and can_run :: "'s \<Rightarrow> bool"
    and ended :: "'s \<Rightarrow> bool"
  assumes decreases: "step l s s' \<Longrightarrow> own l \<Longrightarrow> stopped s \<Longrightarrow> work s' < work s \<and> stopped s'"
    and enabled: "stopped s \<Longrightarrow> can_run s \<Longrightarrow> \<not> ended s \<Longrightarrow> \<exists>l s'. own l \<and> step l s s' \<and> can_run s'"
begin

lemma steps_bounded: "own_steps own step n s s' \<Longrightarrow> stopped s \<Longrightarrow> n + work s' \<le> work s"
proof (induction rule: own_steps.induct)
  case (more l s s' n s'')
  then show ?case using decreases [OF more(2,1)] by fastforce
qed simp

lemma stays_stopped: "own_steps own step n s s' \<Longrightarrow> stopped s \<Longrightarrow> stopped s'"
  by (induction rule: own_steps.induct) (use decreases in blast)+

lemma reaches_end: "stopped s \<Longrightarrow> can_run s \<Longrightarrow> \<exists>n s'. own_steps own step n s s' \<and> ended s'"
proof (induction "work s" arbitrary: s rule: less_induct)
  case less
  show ?case
  proof (cases "ended s")
    case True
    then show ?thesis using own_steps.none [of own step s] by blast
  next
    case False
    obtain l s' where s': "own l" "step l s s'" "can_run s'" using enabled [OF less(2,3) False] by blast
    obtain n s'' where "own_steps own step n s' s''" "ended s''"
      using decreases [OF s'(2,1) less(2)] less(1) s'(3) by blast
    then show ?thesis using own_steps.more [of own l step s s' n s''] s' by blast
  qed
qed

lemma stops:
  assumes "stopped s" "can_run s" "work s \<le> b"
  shows "(\<forall>n s'. own_steps own step n s s' \<longrightarrow> n \<le> b) \<and> (\<exists>n s'. own_steps own step n s s' \<and> ended s')"
  using steps_bounded [OF _ assms(1)] reaches_end [OF assms(1,2)] assms(3) by fastforce

end

end
