(* ===== verification/Doubles.thy ===== *)
theory Doubles
  imports Prelude "HOL-Library.Log_Nat"
begin

text \<open>
  The program's \<open>double\<close>: IEEE 754 binary64 with rounding to nearest, ties to even. A double
  is the real number it denotes; every operation of the code is the exact operation followed by
  one \<open>rnd\<close>. The significand has 53 bits and the smallest exponent is that of the subnormal
  numbers. Overflow to infinity and NaN are not modelled: every quotient of the code has a
  positive denominator under a well-formed configuration, and the values stay far below the
  overflow threshold.

  The locale \<open>rounding\<close> is the contract the detectors use (monotone, odd, idempotent, exact on
  small integers, relative error); the last section interprets it on \<open>rnd\<close>.
\<close>

section \<open>The rounding function\<close>

text \<open>The exponent of the leading bit: \<open>binade x = \<lfloor>log 2 x\<rfloor>\<close> for positive \<open>x\<close>, executable.\<close>

definition binade :: "real \<Rightarrow> int" where
  "binade x = (if 1 \<le> x then bitlen \<lfloor>x\<rfloor> - 1 else - bitlen (\<lceil>1 / x\<rceil> - 1))"

definition ulp_exp :: "real \<Rightarrow> int" where
  "ulp_exp x = max (binade \<bar>x\<bar> - 52) (- 1074)"

definition rne :: "real \<Rightarrow> int" where
  "rne x = (let f = \<lfloor>x\<rfloor>; d = x - of_int f in
     if d < 1 / 2 \<or> (d = 1 / 2 \<and> even f) then f else f + 1)"

definition rnd :: "real \<Rightarrow> real" where
  "rnd x = (if x = 0 then 0
     else let u = 2 powi ulp_exp x in of_int (rne (x / u)) * u)"

text \<open>The smallest normal number and the unit roundoff.\<close>

definition min_normal :: real where "min_normal = 2 powi (- 1022)"
definition unit_roundoff :: real where "unit_roundoff = 2 powi (- 53)"

section \<open>Its properties\<close>

lemma bitlen_cases:
  assumes "1 \<le> n"
  obtains k :: nat where "bitlen n = int k + 1" "2 ^ k \<le> n" "n < 2 ^ (k + 1)"
proof -
  have ge: "1 \<le> bitlen n" using assms by (simp add: bitlen_alt_def)
  define k where "k = nat (bitlen n - 1)"
  have k: "bitlen n = int k + 1" using ge by (simp add: k_def)
  have "2 ^ nat (bitlen n - 1) \<le> n" "n < 2 ^ nat (bitlen n)"
    using bitlen_bounds [of n] assms by auto
  then have "2 ^ k \<le> n" "n < 2 ^ (k + 1)" using k by (auto simp: nat_add_distrib)
  with k that show thesis by blast
qed

lemma binade_bounds:
  assumes "0 < x"
  shows "2 powi binade x \<le> x \<and> x < 2 powi (binade x + 1)"
proof (cases "1 \<le> x")
  case True
  define n where "n = \<lfloor>x\<rfloor>"
  have n: "1 \<le> n" "of_int n \<le> x" "x < of_int n + 1" using True by (auto simp: n_def)
  obtain k where k: "bitlen n = int k + 1" "2 ^ k \<le> n" "n < 2 ^ (k + 1)"
    using bitlen_cases [OF n(1)] by blast
  have "real_of_int (2 ^ k) \<le> of_int n" using k(2) by (simp only: of_int_le_iff)
  then have 1: "2 ^ k \<le> x" using n(2) unfolding of_int_power of_int_numeral by linarith
  have "n + 1 \<le> 2 ^ (k + 1)" using k(3) by simp
  then have "real_of_int (n + 1) \<le> of_int (2 ^ (k + 1))" by (simp only: of_int_le_iff)
  then have 2: "x < 2 ^ (k + 1)" using n by simp
  have e: "binade x = int k" using True k by (simp add: binade_def n_def)
  have e1: "binade x + 1 = int (k + 1)" by (simp add: e)
  show ?thesis using 1 2 unfolding e1 unfolding e by (simp only: power_int_of_nat)
next
  case False
  define y where "y = 1 / x"
  define n where "n = \<lceil>y\<rceil> - 1"
  have y: "1 < y" using False assms by (simp add: y_def)
  have n2: "of_int n < y" "y \<le> of_int n + 1" by (simp_all add: n_def) linarith
  then have "0 < n" using y by linarith
  then have n: "1 \<le> n" by simp
  obtain k where k: "bitlen n = int k + 1" "2 ^ k \<le> n" "n < 2 ^ (k + 1)"
    using bitlen_cases [OF n] by blast
  have "real_of_int (2 ^ k) \<le> of_int n" using k(2) by (simp only: of_int_le_iff)
  then have 1: "2 ^ k < y" using n2(1) unfolding of_int_power of_int_numeral by linarith
  have "n + 1 \<le> 2 ^ (k + 1)" using k(3) by simp
  then have "real_of_int (n + 1) \<le> of_int (2 ^ (k + 1))" by (simp only: of_int_le_iff)
  then have 2: "y \<le> 2 ^ (k + 1)" using n2 by simp
  have e: "binade x = - int (k + 1)" using False k by (simp add: binade_def n_def y_def)
  have e1: "binade x + 1 = - int k" by (simp add: e)
  have x: "x = inverse y" using assms by (simp add: y_def)
  have "inverse (2 ^ (k + 1)) \<le> x" "x < inverse (2 ^ k)"
    unfolding x using le_imp_inverse_le [OF 2] less_imp_inverse_less [OF 1] y by auto
  then show ?thesis unfolding e1 unfolding e
    by (simp only: power_int_minus power_int_of_nat)
qed

lemma powi_le_iff: "(2::real) powi a \<le> 2 powi b \<longleftrightarrow> a \<le> b"
  using power_int_increasing [of a b "2::real"] power_int_strict_increasing [of b a "2::real"]
  by linarith

lemma powi_less_iff: "(2::real) powi a < 2 powi b \<longleftrightarrow> a < b"
  using powi_le_iff [of b a] by linarith

lemma powi_pos [simp]: "0 < (2::real) powi a"
  by simp

lemma powi_split: "(2::real) powi (a + b) = 2 powi a * 2 powi b"
  by (simp add: power_int_add)

lemma binade_unique: "0 < x \<Longrightarrow> 2 powi k \<le> x \<Longrightarrow> x < 2 powi (k + 1) \<Longrightarrow> binade x = k"
  using binade_bounds [of x] powi_less_iff [of k "binade x + 1"] powi_less_iff [of "binade x" "k + 1"]
  by linarith

lemma binade_mono: "0 < x \<Longrightarrow> x \<le> y \<Longrightarrow> binade x \<le> binade y"
  using binade_bounds [of x] binade_bounds [of y] powi_less_iff [of "binade x" "binade y + 1"]
  by linarith

lemma binade_less: "0 < x \<Longrightarrow> x < 2 powi k \<Longrightarrow> binade x < k"
  using binade_bounds [of x] powi_less_iff [of "binade x" k] by linarith

lemma rne_of_int [simp]: "rne (of_int n) = n"
  by (simp add: rne_def)

lemma rne_bounds: "\<lfloor>x\<rfloor> \<le> rne x \<and> rne x \<le> \<lfloor>x\<rfloor> + 1"
  by (simp add: rne_def Let_def)

lemma rne_mono: "x \<le> y \<Longrightarrow> rne x \<le> rne y"
proof -
  assume le: "x \<le> y"
  then have "\<lfloor>x\<rfloor> \<le> \<lfloor>y\<rfloor>" by (rule floor_mono)
  then consider "\<lfloor>x\<rfloor> = \<lfloor>y\<rfloor>" | "\<lfloor>x\<rfloor> + 1 \<le> \<lfloor>y\<rfloor>" by linarith
  then show ?thesis
  proof cases
    case 1
    then show ?thesis using le by (auto simp: rne_def Let_def)
  next
    case 2
    then show ?thesis using rne_bounds [of x] rne_bounds [of y] by linarith
  qed
qed

lemma rne_minus: "rne (- x) = - rne x"
proof (cases "x = of_int \<lfloor>x\<rfloor>")
  case True
  then have "- x = of_int (- \<lfloor>x\<rfloor>)" by linarith
  then show ?thesis using True by (metis rne_of_int)
next
  case False
  then have f: "\<lfloor>- x\<rfloor> = - \<lfloor>x\<rfloor> - 1" by linarith
  show ?thesis unfolding rne_def Let_def f by auto
qed

lemma rne_error: "\<bar>of_int (rne x) - x\<bar> \<le> 1 / 2"
  by (auto simp: rne_def Let_def abs_le_iff)

lemma ulp_exp_minus [simp]: "ulp_exp (- x) = ulp_exp x"
  by (simp add: ulp_exp_def)

lemma rnd_zero [simp]: "rnd 0 = 0"
  by (simp add: rnd_def)

lemma rnd_minus: "rnd (- x) = - rnd x"
  by (simp add: rnd_def Let_def rne_minus)

text \<open>A number with a 53-bit significand and a large enough exponent is exact.\<close>

lemma rnd_exact_lt:
  assumes m: "\<bar>m\<bar> < 2 ^ 53" and e: "- 1074 \<le> e"
  shows "rnd (of_int m * 2 powi e) = of_int m * 2 powi e"
proof (cases "m = 0")
  case False
  define x where "x = real_of_int m * 2 powi e"
  have ax: "\<bar>x\<bar> = of_int \<bar>m\<bar> * 2 powi e" by (simp add: x_def abs_mult)
  have pos: "0 < \<bar>x\<bar>" using False by (simp add: x_def)
  have "real_of_int \<bar>m\<bar> < 2 ^ 53" using m by (metis of_int_less_iff of_int_numeral of_int_power)
  also have "(2::real) ^ 53 = 2 powi 53" by simp
  finally have "\<bar>x\<bar> < 2 powi (53 + e)" unfolding ax powi_split by simp
  then have "binade \<bar>x\<bar> < 53 + e" by (rule binade_less [OF pos])
  then have u: "ulp_exp x \<le> e" using e by (simp add: ulp_exp_def)
  define d where "d = nat (e - ulp_exp x)"
  have d: "e = ulp_exp x + int d" using u by (simp add: d_def)
  have xe: "x = of_int (m * 2 ^ d) * 2 powi ulp_exp x"
    using x_def [unfolded d powi_split] by (simp add: mult.commute mult.left_commute)
  from xe have q: "x / 2 powi ulp_exp x = of_int (m * 2 ^ d)" by (simp add: divide_eq_eq)
  have "rnd x = of_int (m * 2 ^ d) * 2 powi ulp_exp x"
    using pos unfolding rnd_def Let_def q rne_of_int by simp
  then have "rnd x = x" by (rule trans [OF _ sym [OF xe]])
  then show ?thesis unfolding x_def .
qed simp

lemma rnd_exact:
  assumes m: "\<bar>m\<bar> \<le> 2 ^ 53" and e: "- 1074 \<le> e"
  shows "rnd (of_int m * 2 powi e) = of_int m * 2 powi e"
proof (cases "\<bar>m\<bar> < 2 ^ 53")
  case False
  then have "m = 2 ^ 53 \<or> m = - (2 ^ 53)" using m by linarith
  then have "m = (m div 2) * 2" "\<bar>m div 2\<bar> < 2 ^ 53" by auto
  have "of_int m = real_of_int (m div 2) * 2"
    using arg_cong [OF \<open>m = (m div 2) * 2\<close>, of real_of_int] by simp
  then have "of_int m * (2::real) powi e = of_int (m div 2) * 2 powi (e + 1)"
    by (simp add: powi_split)
  then show ?thesis using rnd_exact_lt [of "m div 2" "e + 1"] \<open>\<bar>m div 2\<bar> < 2 ^ 53\<close> e by simp
qed (use assms rnd_exact_lt in blast)

lemma rnd_of_int: "\<bar>m\<bar> \<le> 2 ^ 53 \<Longrightarrow> rnd (of_int m) = of_int m"
  using rnd_exact [of m 0] by simp

lemma rnd_of_nat: "n \<le> 2 ^ 53 \<Longrightarrow> rnd (of_nat n) = of_nat n"
proof -
  assume "n \<le> 2 ^ 53"
  then have "\<bar>int n\<bar> \<le> 2 ^ 53" by (metis abs_of_nat of_nat_le_iff of_nat_numeral of_nat_power)
  from rnd_of_int [OF this] show ?thesis by simp
qed

lemma ulp_exp_mono: "0 < x \<Longrightarrow> x \<le> y \<Longrightarrow> ulp_exp x \<le> ulp_exp y"
  using binade_mono [of x y] by (simp add: ulp_exp_def)

lemma scaled_lt: "0 < x \<Longrightarrow> x / 2 powi ulp_exp x < 2 ^ 53"
proof -
  assume x: "0 < x"
  have "binade x + 1 \<le> ulp_exp x + 53" using x by (simp add: ulp_exp_def)
  then have "2 powi (binade x + 1) \<le> (2::real) powi (ulp_exp x + 53)" by (simp only: powi_le_iff)
  then have "x < 2 powi (ulp_exp x + 53)" using binade_bounds [OF x] by linarith
  also have "\<dots> = 2 ^ 53 * 2 powi ulp_exp x" by (simp add: powi_split)
  finally show ?thesis by (simp add: divide_less_eq)
qed

lemma scaled_ge: "0 < x \<Longrightarrow> - 1074 < ulp_exp x \<Longrightarrow> 2 ^ 52 \<le> x / 2 powi ulp_exp x"
proof -
  assume x: "0 < x" and "- 1074 < ulp_exp x"
  then have "ulp_exp x + 52 = binade x" by (auto simp: ulp_exp_def)
  then have "2 powi (ulp_exp x + 52) \<le> x" using binade_bounds [OF x] by simp
  then show ?thesis by (simp add: powi_split le_divide_eq)
qed

lemma rne_le_numeral_power: "x \<le> of_int n \<Longrightarrow> rne x \<le> n"
  using rne_mono [of x "of_int n"] by simp

lemma rne_ge_numeral_power: "of_int n \<le> x \<Longrightarrow> n \<le> rne x"
  using rne_mono [of "of_int n" x] by simp

lemma rnd_mono_pos:
  assumes x: "0 < x" and le: "x \<le> y"
  shows "rnd x \<le> rnd y"
proof -
  define e1 e2 where "e1 = ulp_exp x" and "e2 = ulp_exp y"
  have y: "0 < y" using assms by simp
  have rx: "rnd x = of_int (rne (x / 2 powi e1)) * 2 powi e1"
    and ry: "rnd y = of_int (rne (y / 2 powi e2)) * 2 powi e2"
    using x y by (simp_all add: rnd_def Let_def e1_def e2_def)
  have "e1 \<le> e2" unfolding e1_def e2_def by (rule ulp_exp_mono [OF x le])
  then consider "e1 = e2" | "e1 + 1 \<le> e2" by linarith
  then show ?thesis
  proof cases
    case 1
    have "rne (x / 2 powi e1) \<le> rne (y / 2 powi e2)"
      unfolding 1 by (rule rne_mono) (use le in \<open>simp add: divide_right_mono\<close>)
    then show ?thesis unfolding rx ry 1 by (simp add: mult_right_mono)
  next
    case 2
    have "- 1074 \<le> e1" by (simp add: e1_def ulp_exp_def)
    then have "2 ^ 52 \<le> y / 2 powi e2" using scaled_ge [OF y] 2 by (simp add: e2_def)
    then have "2 ^ 52 \<le> rne (y / 2 powi e2)" by (intro rne_ge_numeral_power) simp
    then have "real_of_int (2 ^ 52) \<le> of_int (rne (y / 2 powi e2))" by (simp only: of_int_le_iff)
    then have hi: "2 powi (52 + e2) \<le> rnd y" unfolding ry powi_split by (simp add: mult_right_mono)
    have "x / 2 powi e1 \<le> 2 ^ 53" using scaled_lt [OF x] by (simp add: e1_def)
    then have "rne (x / 2 powi e1) \<le> 2 ^ 53" by (intro rne_le_numeral_power) simp
    then have "of_int (rne (x / 2 powi e1)) \<le> real_of_int (2 ^ 53)" by (simp only: of_int_le_iff)
    then have lo: "rnd x \<le> 2 powi (53 + e1)" unfolding rx powi_split by (simp add: mult_right_mono)
    have "(2::real) powi (53 + e1) \<le> 2 powi (52 + e2)" using 2 by (simp only: powi_le_iff)
    with hi lo show ?thesis by linarith
  qed
qed

lemma rnd_pos: "0 < x \<Longrightarrow> 0 \<le> rnd x"
proof -
  assume x: "0 < x"
  then have "0 \<le> rne (x / 2 powi ulp_exp x)" by (intro rne_ge_numeral_power) simp
  then show ?thesis using x by (simp add: rnd_def Let_def)
qed

lemma rnd_mono: "x \<le> y \<Longrightarrow> rnd x \<le> rnd y"
proof -
  assume le: "x \<le> y"
  consider "0 < x" | "x \<le> 0" "0 \<le> y" | "y < 0" using le by linarith
  then show ?thesis
  proof cases
    case 1
    then show ?thesis using le by (rule rnd_mono_pos)
  next
    case 2
    have "rnd x \<le> 0" using 2 rnd_pos [of "- x"] rnd_minus [of x] by (cases "x = 0") auto
    moreover have "0 \<le> rnd y" using 2 rnd_pos [of y] by (cases "y = 0") auto
    ultimately show ?thesis by simp
  next
    case 3
    then show ?thesis using rnd_mono_pos [of "- y" "- x"] le by (simp add: rnd_minus)
  qed
qed

lemma rnd_form: "\<exists>m e. rnd x = of_int m * 2 powi e \<and> \<bar>m\<bar> \<le> 2 ^ 53 \<and> - 1074 \<le> e"
proof -
  have pos: "\<exists>m e. rnd z = of_int m * 2 powi e \<and> \<bar>m\<bar> \<le> 2 ^ 53 \<and> - 1074 \<le> e" if z: "0 < z" for z
  proof -
    have "rne (z / 2 powi ulp_exp z) \<le> 2 ^ 53"
      using scaled_lt [OF z] by (intro rne_le_numeral_power) simp
    moreover have "0 \<le> rne (z / 2 powi ulp_exp z)"
      using z by (intro rne_ge_numeral_power) simp
    moreover have "- 1074 \<le> ulp_exp z" by (simp add: ulp_exp_def)
    ultimately show ?thesis using z by (fastforce simp: rnd_def Let_def)
  qed
  consider "0 < x" | "x = 0" | "0 < - x" by linarith
  then show ?thesis
  proof cases
    case 2
    then show ?thesis by (intro exI [of _ 0] exI [of _ 0]) simp
  next
    case 3
    from pos [OF this] obtain m e
      where "rnd (- x) = of_int m * 2 powi e" "\<bar>m\<bar> \<le> 2 ^ 53" "- 1074 \<le> e" by blast
    then show ?thesis by (intro exI [of _ "- m"] exI [of _ e]) (simp add: rnd_minus)
  qed (rule pos)
qed

lemma rnd_idem: "rnd (rnd x) = rnd x"
  using rnd_form [of x] rnd_exact by metis

lemma rnd_rel_error:
  assumes "min_normal \<le> \<bar>x\<bar>"
  shows "\<bar>rnd x - x\<bar> \<le> \<bar>x\<bar> * unit_roundoff"
proof -
  have x: "2 powi (- 1022) \<le> \<bar>x\<bar>" using assms by (simp only: min_normal_def)
  have ax: "0 < \<bar>x\<bar>" using x powi_pos [of "- 1022"] by linarith
  have "- 1022 \<le> binade \<bar>x\<bar>"
    using x binade_bounds [OF ax] powi_less_iff [of "- 1022" "binade \<bar>x\<bar> + 1"] by linarith
  then have e: "ulp_exp x = binade \<bar>x\<bar> - 52" by (simp add: ulp_exp_def)
  define u where "u = (2::real) powi ulp_exp x"
  have u: "0 < u" by (simp add: u_def)
  have "rnd x - x = (of_int (rne (x / u)) - x / u) * u"
    using ax u by (auto simp: rnd_def Let_def u_def left_diff_distrib)
  then have "\<bar>rnd x - x\<bar> = \<bar>of_int (rne (x / u)) - x / u\<bar> * u" using u by (simp add: abs_mult)
  also have "\<dots> \<le> 1 / 2 * u" by (rule mult_right_mono [OF rne_error]) (use u in simp)
  also have "1 / 2 * u = 2 powi (binade \<bar>x\<bar>) * 2 powi (- 53)"
    unfolding u_def e powi_split [symmetric] using powi_split [of "-1" "binade \<bar>x\<bar> - 52"]
    by (simp add: field_simps)
  also have "\<dots> \<le> \<bar>x\<bar> * 2 powi (- 53)"
    using binade_bounds [OF ax] by (intro mult_right_mono) auto
  finally show ?thesis unfolding unit_roundoff_def .
qed

section \<open>The contract of a rounding\<close>

lemma min_normal_pos: "min_normal \<le> x \<Longrightarrow> 0 < x"
  using powi_pos [of "- 1022"] unfolding min_normal_def by linarith

lemma min_normal_le: "1 / 1000000000 \<le> x \<Longrightarrow> min_normal \<le> x"
proof -
  assume x: "1 / 1000000000 \<le> x"
  have "min_normal \<le> 2 powi (- 30)" unfolding min_normal_def by (simp only: powi_le_iff)
  also have "(2::real) powi (- 30) \<le> 1 / 1000000000"
    unfolding power_int_minus power_int_numeral by simp
  finally show ?thesis using x by linarith
qed

locale rounding =
  fixes rnd :: "real \<Rightarrow> real"
  assumes mono: "x \<le> y \<Longrightarrow> rnd x \<le> rnd y"
    and odd: "rnd (- x) = - rnd x"
    and idem: "rnd (rnd x) = rnd x"
    and exact_nat: "n \<le> 2 ^ 53 \<Longrightarrow> rnd (of_nat n) = of_nat n"
    and rel_error: "min_normal \<le> \<bar>x\<bar> \<Longrightarrow> \<bar>rnd x - x\<bar> \<le> \<bar>x\<bar> * unit_roundoff"
begin

lemma zero: "rnd 0 = 0"
  using exact_nat [of 0] by simp

lemma one: "rnd 1 = 1"
  using exact_nat [of 1] by simp

lemma exact_numeral: "numeral n \<le> (2::nat) ^ 53 \<Longrightarrow> rnd (numeral n) = numeral n"
  using exact_nat [of "numeral n"] by simp

lemma nonneg: "0 \<le> x \<Longrightarrow> 0 \<le> rnd x"
  using mono [of 0 x] zero by simp

lemma nonpos: "x \<le> 0 \<Longrightarrow> rnd x \<le> 0"
  using mono [of x 0] zero by simp

text \<open>Comparison with a double: rounding never carries a value across it.\<close>

lemma ge_double: "rnd c = c \<Longrightarrow> c \<le> x \<Longrightarrow> c \<le> rnd x"
  using mono [of c x] by simp

lemma le_double: "rnd c = c \<Longrightarrow> x \<le> c \<Longrightarrow> rnd x \<le> c"
  using mono [of x c] by simp

lemma lt_doubleD: "rnd c = c \<Longrightarrow> rnd x < c \<Longrightarrow> x < c"
  using ge_double [of c x] by linarith

lemma upper: "min_normal \<le> x \<Longrightarrow> rnd x \<le> x * (1 + unit_roundoff)"
  using rel_error [of x] min_normal_pos [of x] by (simp add: algebra_simps abs_le_iff)

lemma lower: "min_normal \<le> x \<Longrightarrow> x * (1 - unit_roundoff) \<le> rnd x"
  using rel_error [of x] min_normal_pos [of x] by (simp add: algebra_simps abs_le_iff)

end

interpretation dbl: rounding rnd
  by unfold_locales (auto intro: rnd_mono rnd_minus rnd_idem rnd_of_nat rnd_rel_error)

declare dbl.one [simp] dbl.exact_numeral [simp] rnd_idem [simp]

section \<open>The operations of the code\<close>

definition dadd :: "real \<Rightarrow> real \<Rightarrow> real" where "dadd a b = rnd (a + b)"
definition dsub :: "real \<Rightarrow> real \<Rightarrow> real" where "dsub a b = rnd (a - b)"
definition dmul :: "real \<Rightarrow> real \<Rightarrow> real" where "dmul a b = rnd (a * b)"
definition ddiv :: "real \<Rightarrow> real \<Rightarrow> real" where "ddiv a b = rnd (a / b)"

text \<open>\<open>static_cast<double>\<close> of an unsigned 64-bit or 32-bit integer.\<close>

definition dbl_of_nat :: "nat \<Rightarrow> real" where
  "dbl_of_nat n = rnd (of_nat n)"

definition dbl_of_word :: "'a::len word \<Rightarrow> real" where
  "dbl_of_word w = dbl_of_nat (unat w)"

text \<open>
  \<open>std::chrono::duration<double>(d).count()\<close>: the tick count as a double, divided by the
  double \<open>10^9\<close>.
\<close>

definition seconds :: "ns \<Rightarrow> real" where
  "seconds d = ddiv (rnd (of_int d)) 1000000000"

lemma seconds_mono: "d \<le> d' \<Longrightarrow> seconds d \<le> seconds d'"
  unfolding seconds_def ddiv_def
  by (intro rnd_mono divide_right_mono) auto

lemma seconds_zero [simp]: "seconds 0 = 0"
  by (simp add: seconds_def ddiv_def)

lemma seconds_whole:
  assumes "k \<le> 9000000"
  shows "seconds (int k * 1000000000) = of_nat k"
proof -
  have "rnd (of_nat (k * 1000000000)) = of_nat (k * 1000000000)"
    by (rule rnd_of_nat) (use assms in simp)
  then have "rnd (of_int (int k * 1000000000)) = of_nat k * 1000000000" by simp
  then show ?thesis using rnd_of_nat [of k] assms by (simp add: seconds_def ddiv_def)
qed

text \<open>
  A comparison of an elapsed time with a whole number of seconds is decided exactly, in spite
  of the two roundings.
\<close>

lemma seconds_less_iff:
  assumes k: "1 \<le> k" "k \<le> 9000000"
  shows "seconds d < of_nat k \<longleftrightarrow> d < int k * 1000000000"
proof
  assume "seconds d < of_nat k"
  then show "d < int k * 1000000000"
    using seconds_mono [of "int k * 1000000000" d] seconds_whole [OF k(2)] by linarith
next
  assume d: "d < int k * 1000000000"
  define n where "n = k * 1000000000 - 1"
  have n: "int n = int k * 1000000000 - 1" using k(1) by (simp add: n_def of_nat_diff)
  have n1: "1 \<le> n" "n < 2 ^ 53" using k by (simp_all add: n_def)
  have r: "real n = real k * 1000000000 - 1" using arg_cong [OF n, of real_of_int] by simp
  have "seconds d \<le> seconds (int n)" using d n by (intro seconds_mono) simp
  also have "seconds (int n) = rnd (of_nat n / 1000000000)"
    using rnd_of_nat [of n] n1 by (simp add: seconds_def ddiv_def)
  also have "\<dots> \<le> of_nat n / 1000000000 * (1 + unit_roundoff)"
    by (intro dbl.upper min_normal_le divide_right_mono) (use n1 in simp_all)
  also have "\<dots> < of_nat k"
  proof -
    have "real n < 2 ^ 53" using n1(2) by (metis of_nat_less_iff of_nat_numeral of_nat_power)
    then have "real n * unit_roundoff < 1"
      by (simp add: unit_roundoff_def power_int_minus divide_simps)
    then have "real n * (1 + unit_roundoff) < real k * 1000000000"
      unfolding r [symmetric] distrib_left using r by linarith
    then show ?thesis by simp
  qed
  finally show "seconds d < of_nat k" .
qed

lemma seconds_less_numeral:
  "numeral k \<le> (9000000::nat) \<Longrightarrow> seconds d < numeral k \<longleftrightarrow> d < numeral k * 1000000000"
  using seconds_less_iff [of "numeral k" d] by simp

lemma seconds_less_one: "seconds d < 1 \<longleftrightarrow> d < 1000000000"
  using seconds_less_iff [of 1 d] by simp

lemma seconds_nonneg: "0 \<le> d \<Longrightarrow> 0 \<le> seconds d"
  using seconds_mono [of 0 d] by simp

lemma seconds_nonpos: "d \<le> 0 \<Longrightarrow> seconds d \<le> 0"
  using seconds_mono [of d 0] by simp

lemma dbl_of_nat_nonneg [simp]: "0 \<le> dbl_of_nat n"
  by (simp add: dbl_of_nat_def dbl.nonneg)

lemma dbl_of_nat_exact: "n \<le> 2 ^ 53 \<Longrightarrow> dbl_of_nat n = of_nat n"
  by (simp add: dbl_of_nat_def rnd_of_nat)

lemma dbl_of_nat_mono: "n \<le> m \<Longrightarrow> dbl_of_nat n \<le> dbl_of_nat m"
  by (simp add: dbl_of_nat_def rnd_mono)

lemma dbl_of_nat_0 [simp]: "dbl_of_nat 0 = 0"
  by (simp add: dbl_of_nat_def)

lemma rnd_dbl_of_nat [simp]: "rnd (dbl_of_nat n) = dbl_of_nat n"
  by (simp add: dbl_of_nat_def)

lemma dbl_of_nat_pos: "0 < n \<Longrightarrow> 0 < dbl_of_nat n"
  using dbl_of_nat_mono [of 1 n] by (simp add: dbl_of_nat_def)

lemma dbl_of_word_nonneg [simp]: "0 \<le> dbl_of_word w"
  by (simp add: dbl_of_word_def)

lemma dbl_of_word_0 [simp]: "dbl_of_word 0 = 0"
  by (simp add: dbl_of_word_def)

lemma dbl_of_word_mono: "w \<le> v \<Longrightarrow> dbl_of_word w \<le> dbl_of_word v"
  by (simp add: dbl_of_word_def dbl_of_nat_mono word_le_nat_alt)

text \<open>A double quotient reaches a double threshold whenever the exact quotient does.\<close>

lemma ddiv_ge: "rnd c = c \<Longrightarrow> c \<le> a / b \<Longrightarrow> c \<le> ddiv a b"
  unfolding ddiv_def by (rule dbl.ge_double)

lemma ddiv_less: "rnd c = c \<Longrightarrow> ddiv a b < c \<Longrightarrow> a / b < c"
  unfolding ddiv_def by (rule dbl.lt_doubleD)

lemma ddiv_le_one: "a \<le> b \<Longrightarrow> 0 < b \<Longrightarrow> ddiv a b \<le> 1"
  unfolding ddiv_def by (rule dbl.le_double) (auto simp: divide_le_eq)

lemma ddiv_nonneg: "0 \<le> a \<Longrightarrow> 0 \<le> b \<Longrightarrow> 0 \<le> ddiv a b"
  unfolding ddiv_def by (rule dbl.nonneg) simp

end
