(* ===== verification/Text.thy ===== *)
theory Text
  imports Doubles
begin

text \<open>
  The text formatting of the C++ library that the program uses: decimal and hexadecimal
  integers (\<open>%u\<close>, \<open>std::to_string\<close>, \<open>std::hex\<close>), fixed-point doubles (\<open>std::fixed\<close> with
  \<open>std::setprecision\<close>), \<open>snprintf\<close> into a bounded buffer, and the \<open>%u\<close> conversion of
  \<open>sscanf\<close>. The lemmas show that scanning a printed number gives the number back, and that
  printing is injective.
\<close>

section \<open>Printing\<close>

definition digit_char :: "nat \<Rightarrow> char" where
  "digit_char d = char_of (if d < 10 then 48 + d else 87 + d)"

function radix_string :: "nat \<Rightarrow> nat \<Rightarrow> string" where
  "radix_string b n =
     (if n < b \<or> b \<le> 1 then [digit_char n] else radix_string b (n div b) @ [digit_char (n mod b)])"
  by pat_completeness auto
termination
  by (relation "measure snd") (auto intro: div_less_dividend)

declare radix_string.simps [simp del]

definition dec_string :: "nat \<Rightarrow> string" where
  "dec_string n = radix_string 10 n"

definition hex_string :: "nat \<Rightarrow> string" where
  "hex_string n = radix_string 16 n"

definition snprintf_buf :: "nat \<Rightarrow> string \<Rightarrow> string" where
  "snprintf_buf n s = take (n - 1) s"

text \<open>Fixed notation with \<open>p\<close> decimals: the exact value rounded to \<open>10^-p\<close>, ties to even.\<close>

definition fixed_string :: "nat \<Rightarrow> real \<Rightarrow> string" where
  "fixed_string p x =
     (let n = nat (rne (\<bar>x\<bar> * 10 ^ p));
          frac = dec_string (n mod 10 ^ p)
      in (if x < 0 then ''-'' else []) @ dec_string (n div 10 ^ p) @
         (if p = 0 then [] else ''.'' @ replicate (p - length frac) (CHR ''0'') @ frac))"

text \<open>What a C function that takes \<open>s.c_str()\<close> sees: the text up to the first NUL.\<close>

definition c_str :: "string \<Rightarrow> string" where
  "c_str s = takeWhile (\<lambda>c. c \<noteq> CHR 0x00) s"

section \<open>Scanning\<close>

definition is_digit :: "char \<Rightarrow> bool" where
  "is_digit c \<longleftrightarrow> 48 \<le> (of_char c :: nat) \<and> (of_char c :: nat) \<le> 57"

definition is_space :: "char \<Rightarrow> bool" where
  "is_space c \<longleftrightarrow> c = CHR '' '' \<or> (9 \<le> (of_char c :: nat) \<and> (of_char c :: nat) \<le> 13)"

definition digits_value :: "string \<Rightarrow> nat" where
  "digits_value = foldl (\<lambda>n c. 10 * n + (of_char c - 48)) 0"

text \<open>
  \<open>%u\<close>: white space, an optional sign, decimal digits; the value is reduced to 32 bits and a
  minus sign negates it there. \<open>None\<close> is a matching failure, which ends the scan.
\<close>

definition scan_unsigned :: "string \<Rightarrow> (u32 \<times> string) option" where
  "scan_unsigned s =
     (let s1 = dropWhile is_space s;
          neg = (case s1 of c # _ \<Rightarrow> c = CHR ''-'' | [] \<Rightarrow> False);
          s2 = (case s1 of c # cs \<Rightarrow> if c = CHR ''-'' \<or> c = CHR ''+'' then cs else s1 | [] \<Rightarrow> s1);
          ds = takeWhile is_digit s2
      in if ds = [] then None
         else Some (if neg then - of_nat (digits_value ds) else of_nat (digits_value ds),
                    dropWhile is_digit s2))"

definition scan_dot :: "string \<Rightarrow> string option" where
  "scan_dot s = (case s of c # cs \<Rightarrow> if c = CHR ''.'' then Some cs else None | [] \<Rightarrow> None)"

section \<open>Lemmas\<close>

lemma of_char_digit: "d < 10 \<Longrightarrow> (of_char (digit_char d) :: nat) = 48 + d"
  by (simp add: digit_char_def)

lemma of_char_hex_digit:
  "d < 16 \<Longrightarrow> (of_char (digit_char d) :: nat) = (if d < 10 then 48 + d else 87 + d)"
  by (simp add: digit_char_def)

lemma is_digit_digit_char: "d < 10 \<Longrightarrow> is_digit (digit_char d)"
  by (simp add: is_digit_def of_char_digit)

lemma digit_char_inj:
  assumes "d < 16" "e < 16" "digit_char d = digit_char e"
  shows "d = e"
proof -
  have "(of_char (digit_char d) :: nat) = of_char (digit_char e)" using assms(3) by (rule arg_cong)
  then have "(if d < 10 then 48 + d else 87 + d) = (if e < 10 then 48 + e else 87 + e)"
    unfolding of_char_hex_digit [OF assms(1)] of_char_hex_digit [OF assms(2)] .
  then show ?thesis using assms(1,2) by (simp split: if_splits)
qed

lemma radix_string_nonempty [simp]: "radix_string b n \<noteq> []"
  by (subst radix_string.simps) simp

lemma set_radix_string:
  "1 < b \<Longrightarrow> set (radix_string b n) \<subseteq> digit_char ` {..<b}"
proof (induction b n rule: radix_string.induct)
  case (1 b n)
  show ?case
  proof (cases "n < b")
    case True
    then show ?thesis by (subst radix_string.simps) auto
  next
    case False
    then have "set (radix_string b (n div b)) \<subseteq> digit_char ` {..<b}" using 1 by simp
    with False 1 show ?thesis by (subst radix_string.simps) auto
  qed
qed

lemma dec_string_digits: "c \<in> set (dec_string n) \<Longrightarrow> is_digit c"
  using set_radix_string [of 10 n] is_digit_digit_char by (fastforce simp: dec_string_def)

lemma dec_string_nonempty [simp]: "dec_string n \<noteq> []"
  by (simp add: dec_string_def)

lemma hex_string_nonempty [simp]: "hex_string n \<noteq> []"
  by (simp add: hex_string_def)

lemma digits_value_snoc: "digits_value (s @ [c]) = 10 * digits_value s + (of_char c - 48)"
  by (simp add: digits_value_def)

lemma digits_value_radix: "digits_value (radix_string 10 n) = n"
proof (induction "10::nat" n rule: radix_string.induct)
  case (1 n)
  show ?case
  proof (cases "n < 10")
    case True
    then show ?thesis by (subst radix_string.simps) (simp add: digits_value_def of_char_digit)
  next
    case False
    then have "digits_value (radix_string 10 (n div 10)) = n div 10" using 1 by simp
    with False show ?thesis
      by (subst radix_string.simps) (simp add: digits_value_snoc of_char_digit)
  qed
qed

lemma digits_value_dec_string [simp]: "digits_value (dec_string n) = n"
  by (simp add: dec_string_def digits_value_radix)

lemma dec_string_inj: "dec_string m = dec_string n \<Longrightarrow> m = n"
  by (metis digits_value_dec_string)

lemma radix_string_inj: "1 < b \<Longrightarrow> b \<le> 16 \<Longrightarrow> radix_string b m = radix_string b n \<Longrightarrow> m = n"
proof (induction b m arbitrary: n rule: radix_string.induct)
  case (1 b m)
  have unfold: "radix_string b k =
      (if k < b then [] else radix_string b (k div b)) @ [digit_char (k mod b)]" for k
    using 1(2) by (subst radix_string.simps) auto
  have eq: "(if m < b then [] else radix_string b (m div b)) = (if n < b then [] else radix_string b (n div b))"
    and last: "digit_char (m mod b) = digit_char (n mod b)"
    using 1(4) unfolding unfold [of m] unfold [of n] by auto
  have lt: "k mod b < 16" for k
    by (rule less_le_trans [OF _ 1(3)]) (use 1(2) in simp)
  have r: "m mod b = n mod b" by (rule digit_char_inj [OF lt lt last])
  show ?case
  proof (cases "m < b \<or> n < b")
    case True
    then have "m < b" "n < b" using eq radix_string_nonempty [symmetric] by (auto split: if_splits)
    then show ?thesis using r by simp
  next
    case False
    then have "radix_string b (m div b) = radix_string b (n div b)" using eq by simp
    then have "m div b = n div b" using 1(1) [of "n div b"] 1(2,3) False by simp
    then show ?thesis using r by (metis div_mult_mod_eq)
  qed
qed

lemma hex_string_inj: "hex_string m = hex_string n \<Longrightarrow> m = n"
  by (auto simp: hex_string_def dest: radix_string_inj [rotated 2])

lemma dec_string_hd: "is_digit (hd (dec_string n))"
  using dec_string_digits dec_string_nonempty list.set_sel(1) by blast

lemma digit_not_special: "is_digit c \<Longrightarrow> \<not> is_space c \<and> c \<noteq> CHR ''-'' \<and> c \<noteq> CHR ''+'' \<and> c \<noteq> CHR ''.'' \<and> c \<noteq> CHR '':''"
  by (auto simp: is_digit_def is_space_def)

lemma takeWhile_dec_string:
  "(case rest of [] \<Rightarrow> True | c # _ \<Rightarrow> \<not> is_digit c) \<Longrightarrow>
   takeWhile is_digit (dec_string n @ rest) = dec_string n \<and>
   dropWhile is_digit (dec_string n @ rest) = rest"
  using dec_string_digits
  by (auto simp: takeWhile_append2 dropWhile_append2 split: list.splits)

text \<open>Scanning a printed number, whatever follows it, gives the number and what follows.\<close>

lemma scan_dec_string:
  assumes "case rest of [] \<Rightarrow> True | c # _ \<Rightarrow> \<not> is_digit c"
  shows "scan_unsigned (dec_string n @ rest) = Some (of_nat n, rest)"
proof -
  obtain c cs where s: "dec_string n = c # cs" by (cases "dec_string n") auto
  then have c: "is_digit c" using dec_string_hd [of n] by simp
  have 1: "dropWhile is_space (dec_string n @ rest) = dec_string n @ rest"
    using s digit_not_special [OF c] by simp
  have 2: "takeWhile is_digit (dec_string n @ rest) = dec_string n"
    "dropWhile is_digit (dec_string n @ rest) = rest"
    using takeWhile_dec_string [OF assms] by auto
  have 3: "(case dec_string n @ rest of [] \<Rightarrow> False | c # _ \<Rightarrow> c = CHR ''-'') = False"
    "(case dec_string n @ rest of [] \<Rightarrow> dec_string n @ rest
      | c # cs \<Rightarrow> if c = CHR ''-'' \<or> c = CHR ''+'' then cs else dec_string n @ rest) = dec_string n @ rest"
    using digit_not_special [OF c] by (simp_all add: s)
  show ?thesis
    unfolding scan_unsigned_def Let_def 1 3 2 by simp
qed

lemma length_dec_string_le3: "n < 1000 \<Longrightarrow> length (dec_string n) \<le> 3"
  unfolding dec_string_def
  by (subst radix_string.simps, subst radix_string.simps, subst radix_string.simps) auto

end
