(* ===== verification/Alerts.thy ===== *)
theory Alerts
  imports Text
begin

text \<open>
  The alert vocabulary of \<open>include/ThreatAlert.hpp\<close>: severities (ordered, as the enumeration's
  numeric values are), attack categories, their printable names, and the alert record that the
  detector builds and the delivery layer queues, persists and displays. The wall-clock time
  stamp and the steady-clock reading that the constructor takes are arguments of the model.
\<close>

section \<open>Severities\<close>

datatype severity = LOW | MEDIUM | HIGH | CRITICAL

fun severity_rank :: "severity \<Rightarrow> nat" where
  "severity_rank LOW = 0"
| "severity_rank MEDIUM = 1"
| "severity_rank HIGH = 2"
| "severity_rank CRITICAL = 3"

lemma severity_rank_inj: "severity_rank a = severity_rank b \<Longrightarrow> a = b"
  by (cases a; cases b) auto

instantiation severity :: linorder
begin

definition less_eq_severity :: "severity \<Rightarrow> severity \<Rightarrow> bool" where
  "less_eq_severity a b \<longleftrightarrow> severity_rank a \<le> severity_rank b"

definition less_severity :: "severity \<Rightarrow> severity \<Rightarrow> bool" where
  "less_severity a b \<longleftrightarrow> severity_rank a < severity_rank b"

instance
  by standard (auto simp: less_eq_severity_def less_severity_def dest: severity_rank_inj)

end

definition severity_to_string :: "severity \<Rightarrow> string" where
  "severity_to_string s =
     (case s of LOW \<Rightarrow> ''LOW'' | MEDIUM \<Rightarrow> ''MEDIUM'' | HIGH \<Rightarrow> ''HIGH'' | CRITICAL \<Rightarrow> ''CRITICAL'')"

definition severity_from_string :: "string \<Rightarrow> severity" where
  "severity_from_string s =
     (if s = ''CRITICAL'' then CRITICAL
      else if s = ''HIGH'' then HIGH
      else if s = ''MEDIUM'' then MEDIUM
      else LOW)"

section \<open>Attack categories\<close>

datatype attack_type =
  UNKNOWN | VOLUME_ANOMALY | SYN_FLOOD | PORT_SCAN | BRUTE_FORCE | DNS_TUNNELING | DATA_EXFILTRATION

fun attack_code :: "attack_type \<Rightarrow> u8" where
  "attack_code UNKNOWN = 0"
| "attack_code VOLUME_ANOMALY = 1"
| "attack_code SYN_FLOOD = 2"
| "attack_code PORT_SCAN = 3"
| "attack_code BRUTE_FORCE = 4"
| "attack_code DNS_TUNNELING = 5"
| "attack_code DATA_EXFILTRATION = 6"

definition attack_type_to_string :: "attack_type \<Rightarrow> string" where
  "attack_type_to_string t =
     (case t of
        UNKNOWN \<Rightarrow> ''UNKNOWN''
      | VOLUME_ANOMALY \<Rightarrow> ''VOLUME_ANOMALY''
      | SYN_FLOOD \<Rightarrow> ''SYN_FLOOD''
      | PORT_SCAN \<Rightarrow> ''PORT_SCAN''
      | BRUTE_FORCE \<Rightarrow> ''BRUTE_FORCE''
      | DNS_TUNNELING \<Rightarrow> ''DNS_TUNNELING''
      | DATA_EXFILTRATION \<Rightarrow> ''DATA_EXFILTRATION'')"

lemma attack_code_inj [simp]: "attack_code a = attack_code b \<longleftrightarrow> a = b"
  by (cases a; cases b) simp_all

section \<open>The alert record\<close>

record threat_alert =
  al_attack_type :: attack_type
  al_severity :: severity
  al_timestamp_iso :: string
  al_generated_at :: ns
  al_src_ip :: string
  al_dst_ip :: string
  al_src_port :: u16
  al_dst_port :: u16
  al_evidence_summary :: string
  al_observed_value :: real
  al_baseline_value :: real
  al_threshold_value :: real

text \<open>The seven-argument constructor; \<open>stamp\<close> and \<open>clk\<close> are the two clock readings it takes.\<close>

definition new_alert ::
  "string \<Rightarrow> ns \<Rightarrow> attack_type \<Rightarrow> severity \<Rightarrow> string \<Rightarrow> string \<Rightarrow> u16 \<Rightarrow> u16 \<Rightarrow> string \<Rightarrow> threat_alert" where
  "new_alert stamp clk type sev src dst sport dport evidence =
     \<lparr> al_attack_type = type, al_severity = sev, al_timestamp_iso = stamp, al_generated_at = clk,
       al_src_ip = src, al_dst_ip = dst, al_src_port = sport, al_dst_port = dport,
       al_evidence_summary = evidence,
       al_observed_value = 0, al_baseline_value = 0, al_threshold_value = 0 \<rparr>"

definition ncurses_color_pair :: "severity \<Rightarrow> int" where
  "ncurses_color_pair s = (case s of LOW \<Rightarrow> 1 | MEDIUM \<Rightarrow> 2 | HIGH \<Rightarrow> 3 | CRITICAL \<Rightarrow> 4)"

lemma new_alert_sel [simp]:
  "al_attack_type (new_alert stamp clk type sev src dst sport dport ev) = type"
  "al_src_ip (new_alert stamp clk type sev src dst sport dport ev) = src"
  "al_severity (new_alert stamp clk type sev src dst sport dport ev) = sev"
  by (simp_all add: new_alert_def)

lemma severity_roundtrip_lemma: "severity_from_string (severity_to_string s) = s"
  by (cases s) (simp_all add: severity_from_string_def severity_to_string_def)

lemma attack_type_to_string_inj: "attack_type_to_string a = attack_type_to_string b \<Longrightarrow> a = b"
  by (cases a; cases b) (simp_all add: attack_type_to_string_def)

end
