(* ===== verification/Config.thy ===== *)
theory Config
  imports Doubles
begin

text \<open>
  \<open>include/Config.hpp\<close>: the configuration records with their defaults and the compile-time
  constants, and \<open>parse_args\<close> of \<open>src/main.cpp\<close>. Fields of type \<open>double\<close> are doubles (\<open>0.70\<close> and
  \<open>0.85\<close> are rounded to the nearest one); C++ \<open>int\<close> fields are integers, with the signed
  overflow of \<open>-b\<close> an outcome of its own.

  \<open>getopt\<close> is outside the repository: the model takes the list of (option, argument) pairs it
  returns. \<open>std::stod\<close> and \<open>std::stoi\<close> are the arguments \<open>stod\<close> and \<open>stoi\<close> of the model, where
  \<open>None\<close> is the exception they throw.
\<close>

section \<open>Configuration records\<close>

record capture_config =
  snaplen :: int
  promiscuous :: int
  kernel_buffer_bytes :: int
  read_timeout_ms :: int
  cap_interface :: string

record ring_buffer_config =
  max_capacity :: nat

record flow_tracker_config =
  tcp_flow_timeout_sec :: real
  udp_flow_timeout_sec :: real
  reaper_interval_sec :: real
  max_flows :: nat

record ewma_config =
  alpha :: real
  stale_reset_sec :: real
  min_window_sec :: real
  medium_multiplier :: real
  high_multiplier :: real
  pps_floor :: real

record port_scan_config =
  scan_window_sec :: real
  distinct_port_threshold :: u32
  syn_only_ratio :: real

record syn_flood_config =
  syn_rate_pps :: real
  syn_ratio :: real
  syn_window_sec :: real

record brute_force_config =
  rate_pps :: real
  sensitive_ports :: "u16 list"

record dns_tunneling_config =
  max_label_length :: nat
  max_fqdn_length :: nat
  txt_rate_pps :: real

record delivery_config =
  db_path :: string
  dashboard_refresh_ms :: int
  alert_suppression_sec :: real

record config =
  capture :: capture_config
  ring_buffer :: ring_buffer_config
  flow_tracker :: flow_tracker_config
  ewma :: ewma_config
  port_scan :: port_scan_config
  syn_flood :: syn_flood_config
  brute_force :: brute_force_config
  dns_tunneling :: dns_tunneling_config
  delivery :: delivery_config

section \<open>Defaults\<close>

definition default_capture :: capture_config where
  "default_capture = \<lparr> snaplen = 65535, promiscuous = 1, kernel_buffer_bytes = 20 * 1024 * 1024,
     read_timeout_ms = 1000, cap_interface = [] \<rparr>"

definition default_ring_buffer :: ring_buffer_config where
  "default_ring_buffer = \<lparr> max_capacity = 10000 \<rparr>"

definition default_flow_tracker :: flow_tracker_config where
  "default_flow_tracker = \<lparr> tcp_flow_timeout_sec = 120, udp_flow_timeout_sec = 30,
     reaper_interval_sec = 15, max_flows = 500000 \<rparr>"

definition default_ewma :: ewma_config where
  "default_ewma = \<lparr> alpha = 1 / 8, stale_reset_sec = 60, min_window_sec = 1,
     medium_multiplier = 4, high_multiplier = 8, pps_floor = 1 \<rparr>"

definition default_port_scan :: port_scan_config where
  "default_port_scan = \<lparr> scan_window_sec = 10, distinct_port_threshold = 20,
     syn_only_ratio = rnd (70 / 100) \<rparr>"

definition default_syn_flood :: syn_flood_config where
  "default_syn_flood = \<lparr> syn_rate_pps = 50, syn_ratio = rnd (85 / 100), syn_window_sec = 1 \<rparr>"

definition default_brute_force :: brute_force_config where
  "default_brute_force = \<lparr> rate_pps = 20,
     sensitive_ports = [22, 23, 21, 25, 110, 143, 3389, 5900] \<rparr>"

definition default_dns_tunneling :: dns_tunneling_config where
  "default_dns_tunneling = \<lparr> max_label_length = 40, max_fqdn_length = 100, txt_rate_pps = 5 \<rparr>"

definition default_delivery :: delivery_config where
  "default_delivery = \<lparr> db_path = ''alerts.db'', dashboard_refresh_ms = 500,
     alert_suppression_sec = 5 \<rparr>"

definition default_config :: config where
  "default_config = \<lparr> capture = default_capture, ring_buffer = default_ring_buffer,
     flow_tracker = default_flow_tracker, ewma = default_ewma, port_scan = default_port_scan,
     syn_flood = default_syn_flood, brute_force = default_brute_force,
     dns_tunneling = default_dns_tunneling, delivery = default_delivery \<rparr>"

lemmas default_config_defs = default_config_def default_capture_def default_ring_buffer_def
  default_flow_tracker_def default_ewma_def default_port_scan_def default_syn_flood_def
  default_brute_force_def default_dns_tunneling_def default_delivery_def

section \<open>Compile-time constants\<close>

abbreviation (input) ETHERNET_HEADER_SIZE :: nat where "ETHERNET_HEADER_SIZE \<equiv> 14"
abbreviation (input) IPV4_MIN_HEADER_SIZE :: nat where "IPV4_MIN_HEADER_SIZE \<equiv> 20"
abbreviation (input) IPV6_HEADER_SIZE :: nat where "IPV6_HEADER_SIZE \<equiv> 40"
abbreviation (input) TCP_MIN_HEADER_SIZE :: nat where "TCP_MIN_HEADER_SIZE \<equiv> 20"
abbreviation (input) UDP_HEADER_SIZE :: nat where "UDP_HEADER_SIZE \<equiv> 8"
abbreviation (input) DNS_HEADER_SIZE :: nat where "DNS_HEADER_SIZE \<equiv> 12"
abbreviation (input) ETHERTYPE_IPV4 :: u16 where "ETHERTYPE_IPV4 \<equiv> 0x0800"
abbreviation (input) ETHERTYPE_IPV6 :: u16 where "ETHERTYPE_IPV6 \<equiv> 0x86DD"
abbreviation (input) ETHERTYPE_ARP :: u16 where "ETHERTYPE_ARP \<equiv> 0x0806"
abbreviation (input) ETHERTYPE_VLAN :: u16 where "ETHERTYPE_VLAN \<equiv> 0x8100"
abbreviation (input) IPPROTO_ICMP_V4 :: u8 where "IPPROTO_ICMP_V4 \<equiv> 1"
abbreviation (input) IPPROTO_TCP_NUM :: u8 where "IPPROTO_TCP_NUM \<equiv> 6"
abbreviation (input) IPPROTO_UDP_NUM :: u8 where "IPPROTO_UDP_NUM \<equiv> 17"
abbreviation (input) IPPROTO_ICMPV6 :: u8 where "IPPROTO_ICMPV6 \<equiv> 58"
abbreviation (input) TCP_FLAG_FIN :: u8 where "TCP_FLAG_FIN \<equiv> 0x01"
abbreviation (input) TCP_FLAG_SYN :: u8 where "TCP_FLAG_SYN \<equiv> 0x02"
abbreviation (input) TCP_FLAG_RST :: u8 where "TCP_FLAG_RST \<equiv> 0x04"
abbreviation (input) TCP_FLAG_PSH :: u8 where "TCP_FLAG_PSH \<equiv> 0x08"
abbreviation (input) TCP_FLAG_ACK :: u8 where "TCP_FLAG_ACK \<equiv> 0x10"
abbreviation (input) TCP_FLAG_URG :: u8 where "TCP_FLAG_URG \<equiv> 0x20"
abbreviation (input) TCP_FLAG_ECE :: u8 where "TCP_FLAG_ECE \<equiv> 0x40"
abbreviation (input) TCP_FLAG_CWR :: u8 where "TCP_FLAG_CWR \<equiv> 0x80"
abbreviation (input) PORT_DNS :: u16 where "PORT_DNS \<equiv> 53"
abbreviation (input) PORT_HTTP :: u16 where "PORT_HTTP \<equiv> 80"
abbreviation (input) PORT_HTTPS :: u16 where "PORT_HTTPS \<equiv> 443"
abbreviation (input) TLS_CONTENT_HANDSHAKE :: u8 where "TLS_CONTENT_HANDSHAKE \<equiv> 0x16"
abbreviation (input) TLS_HANDSHAKE_CLIENT_HELLO :: u8 where "TLS_HANDSHAKE_CLIENT_HELLO \<equiv> 0x01"
abbreviation (input) TLS_EXTENSION_SNI :: u16 where "TLS_EXTENSION_SNI \<equiv> 0"
abbreviation (input) DNS_QTYPE_TXT :: u16 where "DNS_QTYPE_TXT \<equiv> 16"
abbreviation (input) DNS_MAX_LABEL_HOPS :: nat where "DNS_MAX_LABEL_HOPS \<equiv> 128"

text \<open>A flag test \<open>(flags & F) != 0\<close>.\<close>

definition flag_set :: "u8 \<Rightarrow> u8 \<Rightarrow> bool" where
  "flag_set flags f \<longleftrightarrow> and flags f \<noteq> 0"

definition syn_only :: "u8 \<Rightarrow> bool" where
  "syn_only flags \<longleftrightarrow> flag_set flags TCP_FLAG_SYN \<and> \<not> flag_set flags TCP_FLAG_ACK"

section \<open>Command line\<close>

datatype cli_outcome =
    Parsed config
  | Usage_exit bool \<comment> \<open>\<open>exit(EXIT_SUCCESS)\<close> (True) or \<open>exit(EXIT_FAILURE)\<close>\<close>
  | Conversion_throws
  | Signed_overflow

definition int_max :: int where "int_max = 2147483647"

definition with_double :: "real option \<Rightarrow> (real \<Rightarrow> bool) \<Rightarrow> (real \<Rightarrow> config) \<Rightarrow> config \<Rightarrow> cli_outcome" where
  "with_double r ok upd c =
     (case r of None \<Rightarrow> Conversion_throws | Some v \<Rightarrow> Parsed (if ok v then upd v else c))"

definition parse_opt ::
  "(string \<Rightarrow> real option) \<Rightarrow> (string \<Rightarrow> int option) \<Rightarrow> char \<Rightarrow> string \<Rightarrow> config \<Rightarrow> cli_outcome" where
  "parse_opt stod stoi opt optarg c =
     (if opt = CHR ''i'' then Parsed (c\<lparr>capture := (capture c)\<lparr>cap_interface := optarg\<rparr>\<rparr>)
      else if opt = CHR ''d'' then Parsed (c\<lparr>delivery := (delivery c)\<lparr>db_path := optarg\<rparr>\<rparr>)
      else if opt = CHR ''s'' then
        with_double (stod optarg) (\<lambda>v. v > 0)
          (\<lambda>v. c\<lparr>delivery := (delivery c)\<lparr>alert_suppression_sec := v\<rparr>\<rparr>) c
      else if opt = CHR ''w'' then
        with_double (stod optarg) (\<lambda>v. v > 0)
          (\<lambda>v. c\<lparr>port_scan := (port_scan c)\<lparr>scan_window_sec := v\<rparr>\<rparr>) c
      else if opt = CHR ''p'' then
        (case stoi optarg of None \<Rightarrow> Conversion_throws
         | Some v \<Rightarrow> Parsed (if v > 0
             then c\<lparr>port_scan := (port_scan c)\<lparr>distinct_port_threshold := word_of_int v\<rparr>\<rparr> else c))
      else if opt = CHR ''r'' then
        with_double (stod optarg) (\<lambda>v. v > 0)
          (\<lambda>v. c\<lparr>syn_flood := (syn_flood c)\<lparr>syn_rate_pps := v\<rparr>\<rparr>) c
      else if opt = CHR ''e'' then
        with_double (stod optarg) (\<lambda>v. v > 0 \<and> v < 1)
          (\<lambda>v. c\<lparr>ewma := (ewma c)\<lparr>alpha := v\<rparr>\<rparr>) c
      else if opt = CHR ''b'' then
        (case stoi optarg of None \<Rightarrow> Conversion_throws
         | Some v \<Rightarrow>
             if v > 0 then
               (if v * 1024 > int_max \<or> v * 1024 * 1024 > int_max then Signed_overflow
                else Parsed (c\<lparr>capture := (capture c)\<lparr>kernel_buffer_bytes := v * 1024 * 1024\<rparr>\<rparr>))
             else Parsed c)
      else if opt = CHR ''R'' then
        (case stoi optarg of None \<Rightarrow> Conversion_throws
         | Some v \<Rightarrow> Parsed (if v > 0
             then c\<lparr>delivery := (delivery c)\<lparr>dashboard_refresh_ms := v\<rparr>\<rparr> else c))
      else Usage_exit (opt = CHR ''h''))"

fun parse_opts ::
  "(string \<Rightarrow> real option) \<Rightarrow> (string \<Rightarrow> int option) \<Rightarrow> (char \<times> string) list \<Rightarrow> config \<Rightarrow> cli_outcome" where
  "parse_opts stod stoi [] c = Parsed c"
| "parse_opts stod stoi ((opt, optarg) # rest) c =
     (case parse_opt stod stoi opt optarg c of
        Parsed c' \<Rightarrow> parse_opts stod stoi rest c'
      | other \<Rightarrow> other)"

definition parse_args ::
  "(string \<Rightarrow> real option) \<Rightarrow> (string \<Rightarrow> int option) \<Rightarrow> (char \<times> string) list \<Rightarrow> cli_outcome" where
  "parse_args stod stoi args = parse_opts stod stoi args default_config"

section \<open>Well-formed configurations\<close>

definition config_ok :: "config \<Rightarrow> bool" where
  "config_ok c \<longleftrightarrow>
     0 < alpha (ewma c) \<and> alpha (ewma c) < 1 \<and>
     (ewma c)\<lparr>alpha := 0\<rparr> = default_ewma\<lparr>alpha := 0\<rparr> \<and>
     0 < scan_window_sec (port_scan c) \<and>
     1 \<le> unat (distinct_port_threshold (port_scan c)) \<and>
     unat (distinct_port_threshold (port_scan c)) < 2 ^ 31 \<and>
     syn_only_ratio (port_scan c) = rnd (70 / 100) \<and>
     0 < syn_rate_pps (syn_flood c) \<and> syn_window_sec (syn_flood c) = 1 \<and>
     syn_ratio (syn_flood c) = rnd (85 / 100) \<and>
     0 < alert_suppression_sec (delivery c) \<and>
     0 < dashboard_refresh_ms (delivery c) \<and> dashboard_refresh_ms (delivery c) \<le> int_max \<and>
     1024 * 1024 \<le> kernel_buffer_bytes (capture c) \<and> kernel_buffer_bytes (capture c) \<le> int_max \<and>
     ring_buffer c = default_ring_buffer \<and> flow_tracker c = default_flow_tracker \<and>
     brute_force c = default_brute_force \<and> dns_tunneling c = default_dns_tunneling"

lemma config_ok_default: "config_ok default_config"
  by (simp add: config_ok_def default_config_defs int_max_def)

lemma unat_of_positive_int:
  assumes "0 < v" "v \<le> int_max"
  shows "1 \<le> unat (word_of_int v :: u32) \<and> unat (word_of_int v :: u32) < 2 ^ 31"
proof -
  have "uint (word_of_int v :: u32) = v"
    using assms by (simp add: int_max_def uint_word_of_int)
  then have "unat (word_of_int v :: u32) = nat v" by (simp add: unat_eq_nat_uint)
  then show ?thesis using assms by (auto simp: int_max_def nat_less_iff le_nat_iff)
qed

text \<open>Each assignment of \<open>parse_args\<close> keeps a configuration well formed.\<close>

lemma config_ok_updates:
  assumes "config_ok c"
  shows "config_ok (c\<lparr>capture := (capture c)\<lparr>cap_interface := s\<rparr>\<rparr>)"
    and "config_ok (c\<lparr>delivery := (delivery c)\<lparr>db_path := s\<rparr>\<rparr>)"
    and "0 < v \<Longrightarrow> config_ok (c\<lparr>delivery := (delivery c)\<lparr>alert_suppression_sec := v\<rparr>\<rparr>)"
    and "0 < v \<Longrightarrow> config_ok (c\<lparr>port_scan := (port_scan c)\<lparr>scan_window_sec := v\<rparr>\<rparr>)"
    and "0 < v \<Longrightarrow> config_ok (c\<lparr>syn_flood := (syn_flood c)\<lparr>syn_rate_pps := v\<rparr>\<rparr>)"
    and "0 < v \<Longrightarrow> v < 1 \<Longrightarrow> config_ok (c\<lparr>ewma := (ewma c)\<lparr>alpha := v\<rparr>\<rparr>)"
    and "0 < i \<Longrightarrow> i \<le> int_max \<Longrightarrow>
      config_ok (c\<lparr>delivery := (delivery c)\<lparr>dashboard_refresh_ms := i\<rparr>\<rparr>)"
    and "0 < i \<Longrightarrow> i * 1024 * 1024 \<le> int_max \<Longrightarrow>
      config_ok (c\<lparr>capture := (capture c)\<lparr>kernel_buffer_bytes := i * 1024 * 1024\<rparr>\<rparr>)"
  using assms by (simp_all add: config_ok_def)

lemma config_ok_threshold:
  "config_ok c \<Longrightarrow> 0 < v \<Longrightarrow> v \<le> int_max \<Longrightarrow>
   config_ok (c\<lparr>port_scan := (port_scan c)\<lparr>distinct_port_threshold := word_of_int v\<rparr>\<rparr>)"
  using unat_of_positive_int [of v] by (simp add: config_ok_def)

lemma parse_opt_ok:
  assumes "parse_opt stod stoi opt optarg c = Parsed c'" and ok: "config_ok c"
    and stoi: "\<And>s v. stoi s = Some v \<Longrightarrow> v \<le> int_max"
  shows "config_ok c'"
  using assms(1) config_ok_updates [OF ok] config_ok_threshold [OF ok] ok stoi [of optarg]
  unfolding parse_opt_def with_double_def
  by (simp only: split: if_split_asm option.split_asm) (clarsimp split: if_split_asm)+

lemma parse_opts_ok:
  "parse_opts stod stoi args c = Parsed c' \<Longrightarrow> config_ok c \<Longrightarrow>
   (\<And>s v. stoi s = Some v \<Longrightarrow> v \<le> int_max) \<Longrightarrow> config_ok c'"
proof (induction stod stoi args c rule: parse_opts.induct)
  case (2 stod stoi opt optarg rest c)
  then obtain c1 where c1: "parse_opt stod stoi opt optarg c = Parsed c1"
    and rest: "parse_opts stod stoi rest c1 = Parsed c'"
    by (auto split: cli_outcome.splits)
  from parse_opt_ok [OF c1 2(3) 2(4)] have "config_ok c1" .
  then show ?case by (rule 2(1) [OF c1 rest _ 2(4)])
qed simp

section \<open>Properties of the command line\<close>
text \<open>
  Claim C37. Whatever the command line, a configuration that \<open>parse_args\<close> accepts is well formed: the smoothing
  factor is strictly between 0 and 1, windows, rates and the suppression time are positive, the
  port threshold is at least 1 and doubling it does not wrap, and the capture buffer is at least one
  MiB and fits an \<open>int\<close>. (\<open>stoi\<close> returns an \<open>int\<close>, so at most \<open>INT_MAX\<close>.)
\<close>

theorem parse_args_well_formed:
  assumes "parse_args stod stoi args = Parsed c" "\<And>s v. stoi s = Some v \<Longrightarrow> v \<le> int_max"
  shows "config_ok c"
  using parse_opts_ok [OF assms(1) [unfolded parse_args_def] config_ok_default assms(2)] .

lemma parse_args_well_formed_witness:
  "\<exists>c. parse_args (\<lambda>_. Some 3) (\<lambda>_. Some 7) [(CHR ''p'', ''7''), (CHR ''s'', ''3''), (CHR ''b'', ''7'')] = Parsed c \<and>
     config_ok c \<and> distinct_port_threshold (port_scan c) = 7 \<and> kernel_buffer_bytes (capture c) = 7340032"
proof -
  obtain c where c: "parse_args (\<lambda>_. Some 3) (\<lambda>_. Some 7) [(CHR ''p'', ''7''), (CHR ''s'', ''3''), (CHR ''b'', ''7'')] = Parsed c"
    "distinct_port_threshold (port_scan c) = 7" "kernel_buffer_bytes (capture c) = 7340032"
    by (simp add: parse_args_def parse_opt_def with_double_def int_max_def default_config_def)
  moreover have "config_ok c" by (rule parse_args_well_formed [OF c(1)]) (simp add: int_max_def)
  ultimately show ?thesis by blast
qed

end
