(* ===== verification/Packet.thy ===== *)
theory Packet
  imports Config
begin

text \<open>
  \<open>include/PacketInfo.hpp\<close>: the captured frame, the application-layer records and the parsed
  \<open>PacketInfo\<close> that flows through the pipeline. The raw pointer \<open>l7_payload\<close> is the offset of the
  byte it points to in the frame, \<open>None\<close> for \<open>nullptr\<close>. MAC addresses are byte lists.
\<close>

datatype l3_protocol = L3_NONE | L3_IPv4 | L3_IPv6 | L3_ARP | L3_OTHER
datatype l4_protocol = L4_NONE | L4_TCP | L4_UDP | L4_ICMP | L4_OTHER
datatype l7_protocol = L7_NONE | L7_DNS | L7_HTTP | L7_TLS | L7_OTHER

record dns_info =
  query_name :: string
  query_type :: u16
  is_response :: bool

record http_info =
  http_method :: string
  http_host :: string
  http_uri :: string

record tls_info =
  sni :: string
  record_version :: u16

record captured_packet =
  cp_data :: "u8 list"
  cp_captured_length :: u32
  cp_original_length :: u32
  cp_timestamp_us :: int

text \<open>The constructor copies \<open>cap_len\<close> bytes from the capture library's buffer.\<close>

definition captured_packet_of :: "u8 list \<Rightarrow> u32 \<Rightarrow> u32 \<Rightarrow> int \<Rightarrow> captured_packet option" where
  "captured_packet_of raw cap_len orig_len ts =
     do { bs \<leftarrow> bytes_at raw 0 (unat cap_len);
          Some \<lparr> cp_data = bs, cp_captured_length = cap_len, cp_original_length = orig_len,
                 cp_timestamp_us = ts \<rparr> }"

definition captured_ok :: "captured_packet \<Rightarrow> bool" where
  "captured_ok p \<longleftrightarrow> unat (cp_captured_length p) = length (cp_data p)"

record packet_info =
  has_ethernet :: bool
  src_mac :: "u8 list"
  dst_mac :: "u8 list"
  ether_type :: u16
  l3_proto :: l3_protocol
  src_ip :: string
  dst_ip :: string
  ip_proto_num :: u8
  ttl_or_hop_limit :: u8
  ip_total_length :: u16
  ip_fragmented :: bool
  l4_proto :: l4_protocol
  src_port :: u16
  dst_port :: u16
  tcp_seq :: u32
  tcp_ack :: u32
  tcp_flags :: u8
  tcp_window :: u16
  l7_proto :: l7_protocol
  dns :: "dns_info option"
  http :: "http_info option"
  tls :: "tls_info option"
  l7_payload :: "nat option"
  l7_payload_length :: nat
  timestamp_us :: int
  captured_length :: u32
  original_length :: u32
  valid :: bool
  truncated :: bool

definition empty_info :: packet_info where
  "empty_info =
     \<lparr> has_ethernet = False, src_mac = replicate 6 0, dst_mac = replicate 6 0, ether_type = 0,
       l3_proto = L3_NONE, src_ip = [], dst_ip = [], ip_proto_num = 0, ttl_or_hop_limit = 0,
       ip_total_length = 0, ip_fragmented = False,
       l4_proto = L4_NONE, src_port = 0, dst_port = 0, tcp_seq = 0, tcp_ack = 0, tcp_flags = 0,
       tcp_window = 0,
       l7_proto = L7_NONE, dns = None, http = None, tls = None,
       l7_payload = None, l7_payload_length = 0,
       timestamp_us = 0, captured_length = 0, original_length = 0,
       valid = False, truncated = False \<rparr>"

lemma captured_packet_of_ok:
  "captured_packet_of raw cap_len orig_len ts = Some p \<Longrightarrow> captured_ok p"
  by (auto simp: captured_packet_of_def captured_ok_def bytes_at_def split: if_splits)

lemma captured_packet_of_returns:
  "unat cap_len \<le> length raw \<Longrightarrow> returns captured_ok (captured_packet_of raw cap_len orig_len ts)"
  unfolding captured_packet_of_def
  by (intro returns_intros) (auto simp: captured_ok_def)

end
