(* ===== verification/Ewma.thy ===== *)
theory Ewma
  imports Config Alerts
begin

text \<open>
  \<open>include/EWMAEngine.hpp\<close>: the per-source exponentially weighted moving average of the packet
  and byte rates, the stale reset, the cold start and the volume-anomaly score.

  \<open>ewma_step\<close> is the body of \<open>update()\<close> on the profile it looked up; \<open>ewma_update\<close> adds
  \<open>get_or_create\<close> and the map. A profile that is created reads the clock in its constructor:
  that reading is the argument \<open>clk\<close>.
\<close>

section \<open>State\<close>

record ewma_profile =
  ewma_pps :: real
  ewma_bps :: real
  window_packets :: u64
  window_bytes :: u64
  window_start :: ns
  cold_start :: bool
  last_update :: ns

definition new_ewma_profile :: "ns \<Rightarrow> ewma_profile" where
  "new_ewma_profile clk =
     \<lparr> ewma_pps = 0, ewma_bps = 0, window_packets = 0, window_bytes = 0,
       window_start = clk, cold_start = True, last_update = clk \<rparr>"

record ewma_result =
  er_severity :: severity
  er_observed_pps :: real
  er_baseline_pps :: real
  er_ratio :: real
  er_observed_bps :: real

section \<open>Operations\<close>

definition stale_reset :: "ewma_config \<Rightarrow> ns \<Rightarrow> ewma_profile \<Rightarrow> ewma_profile" where
  "stale_reset cfg now p =
     (if \<not> cold_start p \<and> seconds (now - last_update p) > stale_reset_sec cfg
      then p\<lparr> ewma_pps := 0, ewma_bps := 0, window_packets := 0, window_bytes := 0,
              window_start := now, cold_start := True \<rparr>
      else p)"

definition accumulate :: "u32 \<Rightarrow> ns \<Rightarrow> ewma_profile \<Rightarrow> ewma_profile" where
  "accumulate packet_bytes now p =
     p\<lparr> last_update := now,
        window_packets := window_packets p + 1,
        window_bytes := window_bytes p + ucast packet_bytes \<rparr>"

definition score :: "ewma_config \<Rightarrow> real \<Rightarrow> real \<Rightarrow> real \<Rightarrow> ewma_result option" where
  "score cfg inst_pps inst_bps prev_pps =
     (let baseline = max prev_pps (pps_floor cfg);
          ratio = ddiv inst_pps baseline
      in if ratio \<ge> high_multiplier cfg then
           Some \<lparr> er_severity = HIGH, er_observed_pps = inst_pps, er_baseline_pps = prev_pps,
                  er_ratio = ratio, er_observed_bps = inst_bps \<rparr>
         else if ratio \<ge> medium_multiplier cfg then
           Some \<lparr> er_severity = MEDIUM, er_observed_pps = inst_pps, er_baseline_pps = prev_pps,
                  er_ratio = ratio, er_observed_bps = inst_bps \<rparr>
         else None)"

definition ewma_blend :: "ewma_config \<Rightarrow> real \<Rightarrow> real \<Rightarrow> real" where
  "ewma_blend cfg inst prev = dadd (dmul (alpha cfg) inst) (dmul (dsub 1 (alpha cfg)) prev)"

definition close_window ::
  "ewma_config \<Rightarrow> real \<Rightarrow> ns \<Rightarrow> ewma_profile \<Rightarrow> ewma_profile \<times> ewma_result option" where
  "close_window cfg window_age now p =
     (let inst_pps = ddiv (dbl_of_word (window_packets p)) window_age;
          inst_bps = ddiv (dbl_of_word (window_bytes p)) window_age;
          (p', result) =
            (if cold_start p
             then (p\<lparr> ewma_pps := inst_pps, ewma_bps := inst_bps, cold_start := False \<rparr>, None)
             else (p\<lparr> ewma_pps := ewma_blend cfg inst_pps (ewma_pps p),
                      ewma_bps := ewma_blend cfg inst_bps (ewma_bps p) \<rparr>,
                   score cfg inst_pps inst_bps (ewma_pps p)))
      in (p'\<lparr> window_packets := 0, window_bytes := 0, window_start := now \<rparr>, result))"

definition ewma_step ::
  "ewma_config \<Rightarrow> u32 \<Rightarrow> ns \<Rightarrow> ewma_profile \<Rightarrow> ewma_profile \<times> ewma_result option" where
  "ewma_step cfg packet_bytes now p =
     (let p1 = accumulate packet_bytes now (stale_reset cfg now p);
          window_age = seconds (now - window_start p1)
      in if window_age < min_window_sec cfg then (p1, None)
         else close_window cfg window_age now p1)"

type_synonym ewma_map = "(string, ewma_profile) umap"

definition ewma_get_or_create :: "ns \<Rightarrow> string \<Rightarrow> ewma_map \<Rightarrow> ewma_profile" where
  "ewma_get_or_create clk src m =
     (case umap_find m src of Some p \<Rightarrow> p | None \<Rightarrow> new_ewma_profile clk)"

definition ewma_update ::
  "ewma_config \<Rightarrow> ns \<Rightarrow> string \<Rightarrow> u32 \<Rightarrow> ns \<Rightarrow> ewma_map \<Rightarrow> ewma_map \<times> ewma_result option" where
  "ewma_update cfg clk src packet_bytes now m =
     (let (p, r) = ewma_step cfg packet_bytes now (ewma_get_or_create clk src m)
      in (umap_put src p m, r))"

definition baseline_pps :: "ewma_map \<Rightarrow> string \<Rightarrow> real" where
  "baseline_pps m src = (case umap_find m src of None \<Rightarrow> 0 | Some p \<Rightarrow> ewma_pps p)"

definition baseline_bps :: "ewma_map \<Rightarrow> string \<Rightarrow> real" where
  "baseline_bps m src = (case umap_find m src of None \<Rightarrow> 0 | Some p \<Rightarrow> ewma_bps p)"

definition profile_count :: "ewma_map \<Rightarrow> nat" where
  "profile_count m = umap_size m"

definition evict_stale_profiles :: "ewma_config \<Rightarrow> ns \<Rightarrow> ewma_map \<Rightarrow> ewma_map" where
  "evict_stale_profiles cfg now m =
     umap_erase_if (\<lambda>_ p. seconds (now - last_update p) > dmul (stale_reset_sec cfg) 2) m"

section \<open>Lemmas\<close>

lemma stale_reset_window_start:
  "window_start (stale_reset cfg now p) = window_start p \<or> window_start (stale_reset cfg now p) = now"
  by (simp add: stale_reset_def)

lemma accumulate_sel [simp]:
  "window_start (accumulate b now p) = window_start p"
  "cold_start (accumulate b now p) = cold_start p"
  "ewma_pps (accumulate b now p) = ewma_pps p"
  "ewma_bps (accumulate b now p) = ewma_bps p"
  "last_update (accumulate b now p) = now"
  "window_packets (accumulate b now p) = window_packets p + 1"
  "window_bytes (accumulate b now p) = window_bytes p + ucast b"
  by (simp_all add: accumulate_def)

lemma close_window_sel [simp]:
  "window_packets (fst (close_window cfg age now p)) = 0"
  "window_bytes (fst (close_window cfg age now p)) = 0"
  "window_start (fst (close_window cfg age now p)) = now"
  "\<not> cold_start (fst (close_window cfg age now p))"
  "last_update (fst (close_window cfg age now p)) = last_update p"
  by (simp_all add: close_window_def Let_def)

lemma snd_close_window:
  "snd (close_window cfg age now p) =
     (if cold_start p then None
      else score cfg (ddiv (dbl_of_word (window_packets p)) age)
             (ddiv (dbl_of_word (window_bytes p)) age) (ewma_pps p))"
  by (simp add: close_window_def Let_def)

lemma ewma_step_last_update [simp]: "last_update (fst (ewma_step cfg b now p)) = now"
  by (simp add: ewma_step_def Let_def)

text \<open>Exactly when a packet raises a volume anomaly.\<close>

definition ewma_window_closes :: "ewma_config \<Rightarrow> ns \<Rightarrow> ewma_profile \<Rightarrow> bool" where
  "ewma_window_closes cfg now p \<longleftrightarrow>
     \<not> cold_start p \<and> \<not> seconds (now - last_update p) > stale_reset_sec cfg \<and>
     min_window_sec cfg \<le> seconds (now - window_start p)"

lemma snd_ewma_step:
  assumes "0 < min_window_sec cfg"
  shows "snd (ewma_step cfg b now p) =
    (if ewma_window_closes cfg now p
     then score cfg
       (ddiv (dbl_of_word (window_packets p + 1)) (seconds (now - window_start p)))
       (ddiv (dbl_of_word (window_bytes p + ucast b)) (seconds (now - window_start p)))
       (ewma_pps p)
     else None)"
  using assms
  by (auto simp: ewma_step_def Let_def snd_close_window ewma_window_closes_def stale_reset_def)

lemma score_Some_iff:
  "(\<exists>r. score cfg i b q = Some r) \<longleftrightarrow>
     high_multiplier cfg \<le> ddiv i (max q (pps_floor cfg)) \<or>
     medium_multiplier cfg \<le> ddiv i (max q (pps_floor cfg))"
  by (simp add: score_def Let_def)

lemma score_severity:
  "score cfg i b q = Some r \<Longrightarrow>
   er_ratio r = ddiv i (max q (pps_floor cfg)) \<and> er_observed_pps r = i \<and> er_baseline_pps r = q \<and>
   (er_severity r = HIGH \<longleftrightarrow> high_multiplier cfg \<le> er_ratio r) \<and>
   (er_severity r = HIGH \<or> er_severity r = MEDIUM)"
  by (auto simp: score_def Let_def split: if_splits)

text \<open>A rate that does not exceed the baseline is never an anomaly.\<close>

lemma score_below_baseline:
  assumes m: "1 < medium_multiplier cfg" "1 < high_multiplier cfg"
    and f: "0 < pps_floor cfg" and i: "i \<le> max q (pps_floor cfg)"
  shows "score cfg i b q = None"
proof -
  have "ddiv i (max q (pps_floor cfg)) \<le> 1" using f i by (intro ddiv_le_one) auto
  then show ?thesis using m by (simp add: score_def Let_def)
qed

text \<open>The noise floor: the score divides by at least the floor.\<close>

lemma score_floor:
  assumes "score cfg i b q = Some r" and f: "pps_floor cfg = 1" and i: "0 \<le> i" "rnd i = i"
    and mh: "medium_multiplier cfg \<le> high_multiplier cfg"
  shows "medium_multiplier cfg \<le> i"
proof -
  have "ddiv i (max q 1) \<le> i"
    unfolding ddiv_def using i by (intro dbl.le_double) (auto simp: divide_le_eq mult_le_cancel_left1)
  moreover have "medium_multiplier cfg \<le> ddiv i (max q 1)"
    using assms(1) f mh by (auto simp: score_def Let_def split: if_splits)
  ultimately show ?thesis by linarith
qed

lemma rate_le_count: "1 \<le> age \<Longrightarrow> ddiv (dbl_of_word n) age \<le> dbl_of_word n"
proof -
  assume "1 \<le> age"
  then have "dbl_of_word n / age \<le> dbl_of_word n / 1"
    by (intro divide_left_mono) auto
  then show ?thesis unfolding ddiv_def by (intro dbl.le_double) (simp_all add: dbl_of_word_def)
qed

lemma ewma_blend_nonneg:
  "0 < alpha cfg \<Longrightarrow> alpha cfg < 1 \<Longrightarrow> 0 \<le> i \<Longrightarrow> 0 \<le> q \<Longrightarrow> 0 \<le> ewma_blend cfg i q"
  unfolding ewma_blend_def dadd_def dmul_def dsub_def
  by (intro dbl.nonneg add_nonneg_nonneg mult_nonneg_nonneg) auto

lemma ewma_blend_mono:
  "0 < alpha cfg \<Longrightarrow> alpha cfg < 1 \<Longrightarrow> i \<le> i' \<Longrightarrow> q \<le> q' \<Longrightarrow> ewma_blend cfg i q \<le> ewma_blend cfg i' q'"
  unfolding ewma_blend_def dadd_def dmul_def dsub_def
  by (intro rnd_mono add_mono mult_left_mono dbl.nonneg) auto

section \<open>Properties\<close>
definition window_rate :: "ns \<Rightarrow> ewma_profile \<Rightarrow> real" where
  "window_rate now p = ddiv (dbl_of_word (window_packets p + 1)) (seconds (now - window_start p))"

definition spike_ratio :: "ewma_config \<Rightarrow> ns \<Rightarrow> ewma_profile \<Rightarrow> real" where
  "spike_ratio cfg now p = ddiv (window_rate now p) (max (ewma_pps p) (pps_floor cfg))"

definition score_summary :: "ewma_result \<Rightarrow> severity \<times> real \<times> real \<times> real" where
  "score_summary r = (er_severity r, er_observed_pps r, er_baseline_pps r, er_ratio r)"

text \<open>
  When a packet raises a volume anomaly, and what the result says: exactly when the source has a
  baseline and is not stale, its window has reached the minimum length, and the window's packet rate,
  this packet included, is at least a multiplier times the floored baseline. The severity is HIGH
  exactly when the high multiplier is reached; the result reports the rate, the old baseline and the
  ratio.
\<close>

theorem volume_anomaly_iff:
  assumes "0 < min_window_sec cfg"
  shows "map_option score_summary (snd (ewma_step cfg b now p)) =
    (if ewma_window_closes cfg now p \<and>
        min (medium_multiplier cfg) (high_multiplier cfg) \<le> spike_ratio cfg now p
     then Some (if high_multiplier cfg \<le> spike_ratio cfg now p then HIGH else MEDIUM,
                window_rate now p, ewma_pps p, spike_ratio cfg now p)
     else None)"
  unfolding snd_ewma_step [OF assms, of b now p, folded window_rate_def]
  by (auto simp: score_def Let_def score_summary_def spike_ratio_def)

definition sample_profile :: ewma_profile where
  "sample_profile = \<lparr> ewma_pps = 1, ewma_bps = 0, window_packets = 7, window_bytes = 0,
     window_start = 0, cold_start = False, last_update = 0 \<rparr>"

lemma volume_anomaly_iff_witness:
  "map_option score_summary (snd (ewma_step default_ewma 60 1000000000 sample_profile)) = Some (HIGH, 8, 1, 8)"
proof -
  have s: "seconds 1000000000 = 1" using seconds_whole [of 1] by simp
  have r: "window_rate 1000000000 sample_profile = 8"
    by (simp add: window_rate_def sample_profile_def s dbl_of_word_def dbl_of_nat_def ddiv_def)
  then have q: "spike_ratio default_ewma 1000000000 sample_profile = 8"
    by (simp add: spike_ratio_def sample_profile_def default_ewma_def ddiv_def)
  have c: "ewma_window_closes default_ewma 1000000000 sample_profile"
    by (simp add: ewma_window_closes_def sample_profile_def default_ewma_def s)
  show ?thesis
    using volume_anomaly_iff [of default_ewma 60 1000000000 sample_profile] r q c
    by (simp add: default_ewma_def sample_profile_def)
qed

text \<open>
  Claim C32. No alert on quiet or steady traffic: with the multipliers and floor the program runs with, a packet
  raises no volume anomaly while its window has fewer than four packets, whatever the baseline is, nor
  when the window's rate does not exceed the baseline.
\<close>

theorem steady_traffic_silent:
  assumes "config_ok c"
    and "unat (window_packets p + 1) < 4 \<or> window_rate now p \<le> ewma_pps p"
  shows "snd (ewma_step (ewma c) b now p) = None"
proof -
  have cfg: "min_window_sec (ewma c) = 1" "medium_multiplier (ewma c) = 4"
    "high_multiplier (ewma c) = 8" "pps_floor (ewma c) = 1"
    using assms(1) by (cases "ewma c"; simp add: config_ok_def default_ewma_def)+
  let ?age = "seconds (now - window_start p)"
  have few: "score (ewma c) (window_rate now p) bps q = None"
    if "unat (window_packets p + 1) < 4" "1 \<le> ?age" for bps q
  proof (rule ccontr)
    assume "score (ewma c) (window_rate now p) bps q \<noteq> None"
    then obtain r where r: "score (ewma c) (window_rate now p) bps q = Some r" by blast
    have "4 \<le> window_rate now p"
      using score_floor [OF r cfg(4)] cfg that(2)
      by (simp add: window_rate_def ddiv_nonneg ddiv_def dbl.nonneg)
    also have "\<dots> \<le> dbl_of_word (window_packets p + 1)"
      unfolding window_rate_def by (rule rate_le_count [OF that(2)])
    also have "\<dots> = of_nat (unat (window_packets p + 1))"
      unfolding dbl_of_word_def by (rule dbl_of_nat_exact) (use that(1) in simp)
    finally show False using that(1) by linarith
  qed
  have steady: "score (ewma c) (window_rate now p) bps (ewma_pps p) = None"
    if "window_rate now p \<le> ewma_pps p" for bps
    by (rule score_below_baseline) (use cfg that in auto)
  show ?thesis
    using assms(2) few steady cfg(1)
    by (auto simp: snd_ewma_step [folded window_rate_def] ewma_window_closes_def)
qed

lemma steady_traffic_silent_witness:
  "snd (ewma_step default_ewma 60 1000000000 (sample_profile\<lparr> window_packets := 2 \<rparr>)) = None"
  using steady_traffic_silent [of default_config "sample_profile\<lparr> window_packets := 2 \<rparr>" 1000000000 60] config_ok_default
  by (simp add: default_config_def)

end
