(* ===== verification/EwmaSpec.thy ===== *)
theory EwmaSpec
  imports Ewma
begin

text \<open>
  The EWMA engine against the log of a source's packets. The log keeps the sizes of the packets of
  the open window and, since the last cold start, the windows that were closed, with their age;
  \<open>ewma_abs\<close> computes the profile from it: the baseline is the exponential average of the rates of
  the closed windows, the first of which seeds it. \<open>ewma_refines\<close> is the simulation, for fewer than
  \<open>2 ^ 32\<close> packets, so that neither the packet counter nor the byte counter has wrapped.
\<close>

section \<open>The log\<close>

type_synonym closed_window = "real \<times> u32 list"

record ewma_log =
  el_last :: ns
  el_start :: ns
  el_sizes :: "u32 list"
  el_closed :: "closed_window list"

definition empty_ewma_log :: "ns \<Rightarrow> ewma_log" where
  "empty_ewma_log clk = \<lparr> el_last = clk, el_start = clk, el_sizes = [], el_closed = [] \<rparr>"

text \<open>A source with a baseline that was silent for too long starts afresh.\<close>

definition log_stale :: "ewma_config \<Rightarrow> ns \<Rightarrow> ewma_log \<Rightarrow> bool" where
  "log_stale cfg now s \<longleftrightarrow> el_closed s \<noteq> [] \<and> seconds (now - el_last s) > stale_reset_sec cfg"

definition ewma_log_step :: "ewma_config \<Rightarrow> u32 \<Rightarrow> ns \<Rightarrow> ewma_log \<Rightarrow> ewma_log" where
  "ewma_log_step cfg b now s =
     (let s1 = (if log_stale cfg now s then s\<lparr> el_start := now, el_sizes := [], el_closed := [] \<rparr> else s);
          sizes = el_sizes s1 @ [b]; age = seconds (now - el_start s1)
      in if age < min_window_sec cfg then s1\<lparr> el_last := now, el_sizes := sizes \<rparr>
         else \<lparr> el_last = now, el_start = now, el_sizes = [], el_closed = el_closed s1 @ [(age, sizes)] \<rparr>)"

fun ewma_log_run :: "ewma_config \<Rightarrow> (u32 \<times> ns) list \<Rightarrow> ewma_log \<Rightarrow> ewma_log" where
  "ewma_log_run cfg [] s = s"
| "ewma_log_run cfg ((b, now) # es) s = ewma_log_run cfg es (ewma_log_step cfg b now s)"

fun ewma_run :: "ewma_config \<Rightarrow> (u32 \<times> ns) list \<Rightarrow> ewma_profile \<Rightarrow> ewma_profile" where
  "ewma_run cfg [] p = p"
| "ewma_run cfg ((b, now) # es) p = ewma_run cfg es (fst (ewma_step cfg b now p))"

section \<open>The abstraction\<close>

definition byte_count :: "u32 list \<Rightarrow> nat" where
  "byte_count sizes = sum_list (map unat sizes)"

definition packet_rate :: "closed_window \<Rightarrow> real" where
  "packet_rate w = ddiv (dbl_of_nat (length (snd w))) (fst w)"

definition byte_rate :: "closed_window \<Rightarrow> real" where
  "byte_rate w = ddiv (dbl_of_nat (byte_count (snd w))) (fst w)"

definition average :: "ewma_config \<Rightarrow> (closed_window \<Rightarrow> real) \<Rightarrow> closed_window list \<Rightarrow> real" where
  "average cfg rate ws =
     (case ws of [] \<Rightarrow> 0 | w # ws' \<Rightarrow> foldl (\<lambda>q w. ewma_blend cfg (rate w) q) (rate w) ws')"

definition ewma_abs :: "ewma_config \<Rightarrow> ewma_log \<Rightarrow> ewma_profile" where
  "ewma_abs cfg s =
     \<lparr> ewma_pps = average cfg packet_rate (el_closed s), ewma_bps = average cfg byte_rate (el_closed s),
       window_packets = of_nat (length (el_sizes s)), window_bytes = of_nat (byte_count (el_sizes s)),
       window_start = el_start s, cold_start = (el_closed s = []), last_update = el_last s \<rparr>"

lemma average_Nil [simp]: "average cfg rate [] = 0"
  by (simp add: average_def)

lemma average_snoc [simp]:
  "average cfg rate (ws @ [w]) = (if ws = [] then rate w else ewma_blend cfg (rate w) (average cfg rate ws))"
  by (cases ws) (simp_all add: average_def)

lemma byte_count_simps [simp]: "byte_count [] = 0" "byte_count (bs @ [b]) = byte_count bs + unat b"
  by (simp_all add: byte_count_def)

lemma byte_count_bound: "byte_count bs \<le> length bs * (2 ^ 32 - 1)"
proof (induction bs)
  case (Cons b bs)
  have "unat b < 2 ^ LENGTH(32)" by (rule unsigned_less)
  with Cons show ?case by (simp add: byte_count_def)
qed (simp add: byte_count_def)

lemma word_counts:
  assumes "length bs < 2 ^ 32"
  shows "dbl_of_word (of_nat (length bs) :: u64) = dbl_of_nat (length bs)"
    and "dbl_of_word (of_nat (byte_count bs) :: u64) = dbl_of_nat (byte_count bs)"
proof -
  have "length bs * (2 ^ 32 - 1) \<le> (2 ^ 32 - 1) * (2 ^ 32 - 1 :: nat)" using assms by (intro mult_right_mono) simp_all
  then have "byte_count bs < 2 ^ 64" using byte_count_bound [of bs] by simp
  then show "dbl_of_word (of_nat (byte_count bs) :: u64) = dbl_of_nat (byte_count bs)"
    by (simp add: dbl_of_word_def unsigned_of_nat take_bit_eq_mod)
  show "dbl_of_word (of_nat (length bs) :: u64) = dbl_of_nat (length bs)"
    using assms by (simp add: dbl_of_word_def unsigned_of_nat take_bit_eq_mod)
qed

lemma stale_reset_abs:
  "stale_reset cfg now (ewma_abs cfg s) =
     ewma_abs cfg (if log_stale cfg now s then s\<lparr> el_start := now, el_sizes := [], el_closed := [] \<rparr> else s)"
  by (simp add: stale_reset_def ewma_abs_def log_stale_def)

lemma accumulate_abs:
  "accumulate b now (ewma_abs cfg s) = ewma_abs cfg (s\<lparr> el_last := now, el_sizes := el_sizes s @ [b] \<rparr>)"
  by (simp add: accumulate_def ewma_abs_def add.commute)

lemma close_window_abs:
  assumes "length (el_sizes s) < 2 ^ 32"
  shows "fst (close_window cfg age now (ewma_abs cfg s)) =
     ewma_abs cfg (s\<lparr> el_start := now, el_sizes := [], el_closed := el_closed s @ [(age, el_sizes s)] \<rparr>)"
  using word_counts [OF assms]
  by (simp add: close_window_def ewma_abs_def Let_def packet_rate_def byte_rate_def)

lemma ewma_refines:
  assumes "length (el_sizes s) + 1 < 2 ^ 32"
  shows "fst (ewma_step cfg b now (ewma_abs cfg s)) = ewma_abs cfg (ewma_log_step cfg b now s)"
proof -
  define s1 where "s1 = (if log_stale cfg now s then s\<lparr> el_start := now, el_sizes := [], el_closed := [] \<rparr> else s)"
  define s2 where "s2 = s1\<lparr> el_last := now, el_sizes := el_sizes s1 @ [b] \<rparr>"
  have len: "length (el_sizes s2) < 2 ^ 32" using assms by (simp add: s2_def s1_def)
  have abs: "accumulate b now (stale_reset cfg now (ewma_abs cfg s)) = ewma_abs cfg s2"
    by (simp add: stale_reset_abs s1_def [symmetric] accumulate_abs s2_def)
  have start: "window_start (ewma_abs cfg s2) = el_start s1" by (simp add: ewma_abs_def s2_def)
  have log: "ewma_log_step cfg b now s =
      (if seconds (now - el_start s1) < min_window_sec cfg then s2
       else s2\<lparr> el_start := now, el_sizes := [], el_closed := el_closed s2 @ [(seconds (now - el_start s1), el_sizes s2)] \<rparr>)"
    by (simp add: ewma_log_step_def s1_def [symmetric] s2_def Let_def)
  show ?thesis
    unfolding ewma_step_def Let_def abs start log using close_window_abs [OF len] by simp
qed

lemma ewma_log_step_length: "length (el_sizes (ewma_log_step cfg b now s)) \<le> length (el_sizes s) + 1"
  by (simp add: ewma_log_step_def Let_def)

lemma ewma_log_run_length: "length (el_sizes (ewma_log_run cfg es s)) \<le> length (el_sizes s) + length es"
proof (induction cfg es s rule: ewma_log_run.induct)
  case (2 cfg b now es s)
  then show ?case using ewma_log_step_length [of cfg b now s] by simp
qed simp

lemma ewma_run_refines:
  "length (el_sizes s) + length es < 2 ^ 32 \<Longrightarrow> ewma_run cfg es (ewma_abs cfg s) = ewma_abs cfg (ewma_log_run cfg es s)"
proof (induction cfg es s rule: ewma_log_run.induct)
  case (2 cfg b now es s)
  have "length (el_sizes (ewma_log_step cfg b now s)) + length es < 2 ^ 32"
    using 2(2) ewma_log_step_length [of cfg b now s] by simp
  with 2 show ?case by (simp add: ewma_refines)
qed simp

lemma new_ewma_profile_abs: "new_ewma_profile clk = ewma_abs cfg (empty_ewma_log clk)"
  by (simp add: new_ewma_profile_def ewma_abs_def empty_ewma_log_def)

section \<open>Properties\<close>

text \<open>
  Claim C13. The volume rule against the log of the source's packets: after any packets, the next one raises an
  anomaly exactly when a window was closed since the last cold start, the source was not silent for
  longer than the stale limit, its open window has reached the minimum length, and the window's
  packet rate, this packet included, is at least a multiplier times the floored exponential average
  of the closed windows' rates. The severity is HIGH exactly when the high multiplier is reached.
  (Reaching a multiplier suffices; the comment of \<open>medium_multiplier\<close> asks for more than that.)
\<close>

theorem volume_log_iff:
  assumes "0 < min_window_sec cfg" "length es < 2 ^ 32 - 1"
  shows "map_option er_severity (snd (ewma_step cfg b now (ewma_run cfg es (new_ewma_profile clk)))) =
    (let s = ewma_log_run cfg es (empty_ewma_log clk); age = seconds (now - el_start s);
         ratio = ddiv (packet_rate (age, el_sizes s @ [b])) (max (average cfg packet_rate (el_closed s)) (pps_floor cfg))
     in if el_closed s \<noteq> [] \<and> \<not> log_stale cfg now s \<and> min_window_sec cfg \<le> age \<and>
           min (medium_multiplier cfg) (high_multiplier cfg) \<le> ratio
        then Some (if high_multiplier cfg \<le> ratio then HIGH else MEDIUM) else None)"
proof -
  define s where "s = ewma_log_run cfg es (empty_ewma_log clk)"
  have len: "length (el_sizes (empty_ewma_log clk)) = 0" by (simp add: empty_ewma_log_def)
  have run: "ewma_run cfg es (new_ewma_profile clk) = ewma_abs cfg s"
    unfolding new_ewma_profile_abs [of clk cfg] s_def using assms(2) len by (intro ewma_run_refines) simp
  have "length (el_sizes s @ [b]) < 2 ^ 32"
    using ewma_log_run_length [of cfg es "empty_ewma_log clk"] len assms(2) by (simp add: s_def)
  from word_counts(1) [OF this]
  have "dbl_of_word (window_packets (ewma_abs cfg s) + 1) = dbl_of_nat (length (el_sizes s @ [b]))"
    by (simp add: ewma_abs_def add.commute)
  then show ?thesis
    unfolding run snd_ewma_step [OF assms(1)] s_def [symmetric]
    by (auto simp: Let_def ewma_window_closes_def log_stale_def packet_rate_def score_def)
      (auto simp: ewma_abs_def)
qed

lemma volume_log_iff_witness:
  "map_option er_severity (snd (ewma_step default_ewma 60 2000000000
     (ewma_run default_ewma (replicate 8 (60, 1000000000)) (new_ewma_profile 0)))) = Some HIGH"
proof -
  have s: "seconds 1000000000 = 1" "seconds 0 = 0" using seconds_whole [of 1] seconds_whole [of 0] by simp_all
  have m: "min_window_sec default_ewma = 1" "stale_reset_sec default_ewma = 60" "pps_floor default_ewma = 1"
    "high_multiplier default_ewma = 8" "medium_multiplier default_ewma = 4"
    by (simp_all add: default_ewma_def)
  have log: "ewma_log_run default_ewma (replicate 8 (60, 1000000000)) (empty_ewma_log 0) =
      \<lparr> el_last = 1000000000, el_start = 1000000000, el_sizes = replicate 7 60, el_closed = [(1, [60])] \<rparr>"
    by (simp add: numeral_eq_Suc empty_ewma_log_def ewma_log_step_def log_stale_def Let_def s m [unfolded numeral_eq_Suc])
  have "dbl_of_nat 8 = 8" "dbl_of_nat 1 = 1" "rnd 8 = 8" "rnd 1 = 1"
    by (simp_all add: dbl_of_nat_exact dbl.exact_numeral)
  then show ?thesis
    using volume_log_iff [of default_ewma "replicate 8 (60, 1000000000)" 60 2000000000 0]
    by (simp add: log Let_def log_stale_def packet_rate_def average_def s m ddiv_def)
qed

end
