(* ===== verification/PortScan.thy ===== *)
theory PortScan
  imports Config Alerts
begin

text \<open>
  \<open>include/PortScanDetector.hpp\<close>: per-source sliding window of the distinct destination ports,
  with the SYN ratio gate. \<open>scan_step\<close> is the body of \<open>inspect()\<close> on the profile it looked up;
  \<open>scan_inspect\<close> adds \<open>get_or_create\<close> and the map. The set of ports is a \<open>u16 set\<close>: its size is
  at most 65536, so the conversion to \<open>uint32_t\<close> loses nothing (\<open>port_count_exact\<close>).

  The abstract specification is a log: the packets inspected since the window was last reset.
  \<open>scan_log_step\<close> says which packets are in the log, and \<open>scan_refines\<close> that the profile is a
  function of it.
\<close>

section \<open>State\<close>

record scan_profile =
  dst_ports :: "u16 set"
  tcp_packet_count :: u64
  sp_syn_only_count :: u64
  sp_window_start :: ns

definition new_scan_profile :: "ns \<Rightarrow> scan_profile" where
  "new_scan_profile clk =
     \<lparr> dst_ports = {}, tcp_packet_count = 0, sp_syn_only_count = 0, sp_window_start = clk \<rparr>"

record scan_result =
  sr_severity :: severity
  sr_distinct_ports :: u32
  sr_syn_ratio :: real
  sr_window_sec :: real

section \<open>Operations\<close>

definition scan_roll :: "port_scan_config \<Rightarrow> ns \<Rightarrow> scan_profile \<Rightarrow> scan_profile" where
  "scan_roll cfg now p =
     (if seconds (now - sp_window_start p) \<ge> scan_window_sec cfg
      then \<lparr> dst_ports = {}, tcp_packet_count = 0, sp_syn_only_count = 0, sp_window_start = now \<rparr>
      else p)"

definition scan_accumulate :: "u16 \<Rightarrow> u8 \<Rightarrow> scan_profile \<Rightarrow> scan_profile" where
  "scan_accumulate dst_port flags p =
     p\<lparr> dst_ports := insert dst_port (dst_ports p),
        tcp_packet_count := tcp_packet_count p + 1,
        sp_syn_only_count := (if syn_only flags then sp_syn_only_count p + 1 else sp_syn_only_count p) \<rparr>"

definition profile_syn_ratio :: "scan_profile \<Rightarrow> real" where
  "profile_syn_ratio p = ddiv (dbl_of_word (sp_syn_only_count p)) (dbl_of_word (tcp_packet_count p))"

definition ratio_gate_fails :: "port_scan_config \<Rightarrow> scan_profile \<Rightarrow> bool" where
  "ratio_gate_fails cfg p \<longleftrightarrow>
     syn_only_ratio cfg > 0 \<and> tcp_packet_count p > 0 \<and> profile_syn_ratio p < syn_only_ratio cfg"

definition scan_evaluate :: "port_scan_config \<Rightarrow> real \<Rightarrow> scan_profile \<Rightarrow> scan_result option" where
  "scan_evaluate cfg window_age p =
     (let port_count = (of_nat (card (dst_ports p)) :: u32)
      in if port_count < distinct_port_threshold cfg then None
         else if ratio_gate_fails cfg p then None
         else Some \<lparr> sr_severity = (if port_count \<ge> distinct_port_threshold cfg * 2 then HIGH else MEDIUM),
                     sr_distinct_ports = port_count,
                     sr_syn_ratio = (if tcp_packet_count p > 0 then profile_syn_ratio p else 0),
                     sr_window_sec = min window_age (scan_window_sec cfg) \<rparr>)"

definition scan_step ::
  "port_scan_config \<Rightarrow> u16 \<Rightarrow> u8 \<Rightarrow> ns \<Rightarrow> scan_profile \<Rightarrow> scan_profile \<times> scan_result option" where
  "scan_step cfg dst_port flags now p =
     (let window_age = seconds (now - sp_window_start p);
          p' = scan_accumulate dst_port flags (scan_roll cfg now p)
      in (p', scan_evaluate cfg window_age p'))"

type_synonym scan_map = "(string, scan_profile) umap"

definition scan_get_or_create :: "ns \<Rightarrow> string \<Rightarrow> scan_map \<Rightarrow> scan_profile" where
  "scan_get_or_create clk src m =
     (case umap_find m src of Some p \<Rightarrow> p | None \<Rightarrow> new_scan_profile clk)"

definition scan_inspect ::
  "port_scan_config \<Rightarrow> ns \<Rightarrow> string \<Rightarrow> u16 \<Rightarrow> u8 \<Rightarrow> ns \<Rightarrow> scan_map \<Rightarrow> scan_map \<times> scan_result option" where
  "scan_inspect cfg clk src dst_port flags now m =
     (let (p, r) = scan_step cfg dst_port flags now (scan_get_or_create clk src m)
      in (umap_put src p m, r))"

definition scan_evict_stale :: "port_scan_config \<Rightarrow> ns \<Rightarrow> scan_map \<Rightarrow> scan_map" where
  "scan_evict_stale cfg now m =
     umap_erase_if (\<lambda>_ p. seconds (now - sp_window_start p) > dmul (scan_window_sec cfg) 2) m"

section \<open>The log specification\<close>

type_synonym scan_log = "(u16 \<times> u8) list"

definition scan_log_step ::
  "port_scan_config \<Rightarrow> u16 \<Rightarrow> u8 \<Rightarrow> ns \<Rightarrow> ns \<times> scan_log \<Rightarrow> ns \<times> scan_log" where
  "scan_log_step cfg dst_port flags now s =
     (if seconds (now - fst s) \<ge> scan_window_sec cfg then (now, [(dst_port, flags)])
      else (fst s, snd s @ [(dst_port, flags)]))"

definition syn_onlys :: "(u16 \<times> u8) list \<Rightarrow> nat" where
  "syn_onlys l = length (filter (\<lambda>(_, f). syn_only f) l)"

definition scan_abs :: "ns \<times> scan_log \<Rightarrow> scan_profile" where
  "scan_abs s =
     \<lparr> dst_ports = fst ` set (snd s), tcp_packet_count = of_nat (length (snd s)),
       sp_syn_only_count = of_nat (syn_onlys (snd s)), sp_window_start = fst s \<rparr>"

lemma syn_onlys_snoc [simp]:
  "syn_onlys (l @ [(p, f)]) = syn_onlys l + (if syn_only f then 1 else 0)"
  by (simp add: syn_onlys_def)

lemma syn_onlys_Nil [simp]: "syn_onlys [] = 0"
  by (simp add: syn_onlys_def)

lemma syn_onlys_le: "syn_onlys l \<le> length l"
  by (simp add: syn_onlys_def)

lemma syn_onlys_all: "\<forall>(p, f) \<in> set l. syn_only f \<Longrightarrow> syn_onlys l = length l"
  unfolding syn_onlys_def by (subst filter_True) auto

lemma scan_refines:
  "fst (scan_step cfg port flags now (scan_abs s)) = scan_abs (scan_log_step cfg port flags now s)"
proof (cases "seconds (now - fst s) \<ge> scan_window_sec cfg")
  case True
  then show ?thesis
    using syn_onlys_snoc [of "[]" port flags]
    by (simp add: scan_step_def Let_def scan_roll_def scan_accumulate_def scan_abs_def
        scan_log_step_def)
next
  case False
  then show ?thesis
    by (simp add: scan_step_def Let_def scan_roll_def scan_accumulate_def scan_abs_def
        scan_log_step_def add.commute)
qed

lemma new_scan_profile_abs: "new_scan_profile clk = scan_abs (clk, [])"
  by (simp add: new_scan_profile_def scan_abs_def)

lemma card_ports_le: "card (S :: u16 set) \<le> 65536"
  using card_mono [of "UNIV :: u16 set" S] by (simp add: card_word)

lemma port_count_exact: "unat (of_nat (card (S :: u16 set)) :: u32) = card S"
  using card_ports_le [of S] by (simp add: unat_of_nat)

lemma port_count_less:
  "(of_nat (card (S :: u16 set)) :: u32) < thr \<longleftrightarrow> card S < unat thr"
  by (simp add: word_less_nat_alt port_count_exact)

text \<open>Doubling a threshold that came from a positive \<open>int\<close> does not wrap.\<close>

lemma double_threshold: "unat (thr :: u32) < 2 ^ 31 \<Longrightarrow> unat (thr * 2) = 2 * unat thr"
  by (simp add: unat_word_ariths)

section \<open>Runs of one source\<close>

type_synonym scan_event = "u16 \<times> u8 \<times> ns"

fun scan_run :: "port_scan_config \<Rightarrow> scan_event list \<Rightarrow> scan_profile \<Rightarrow> scan_profile" where
  "scan_run cfg [] p = p"
| "scan_run cfg ((port, flags, now) # es) p = scan_run cfg es (fst (scan_step cfg port flags now p))"

fun scan_log_run :: "port_scan_config \<Rightarrow> scan_event list \<Rightarrow> ns \<times> scan_log \<Rightarrow> ns \<times> scan_log" where
  "scan_log_run cfg [] s = s"
| "scan_log_run cfg ((port, flags, now) # es) s =
     scan_log_run cfg es (scan_log_step cfg port flags now s)"

lemma scan_run_append: "scan_run cfg (xs @ ys) p = scan_run cfg ys (scan_run cfg xs p)"
  by (induction cfg xs p rule: scan_run.induct) simp_all

lemma scan_run_refines: "scan_run cfg es (scan_abs s) = scan_abs (scan_log_run cfg es s)"
  by (induction cfg es s rule: scan_log_run.induct) (simp_all add: scan_refines)

lemma scan_log_run_in_window:
  "\<forall>(port, flags, now) \<in> set es. seconds (now - fst s) < scan_window_sec cfg \<Longrightarrow>
   scan_log_run cfg es s = (fst s, snd s @ map (\<lambda>(port, flags, now). (port, flags)) es)"
proof (induction cfg es s rule: scan_log_run.induct)
  case (2 cfg port flags now es s)
  then show ?case by (force simp: scan_log_step_def)
qed simp

section \<open>Evaluation\<close>

lemma scan_evaluate_iff:
  "(\<exists>r. scan_evaluate cfg age p = Some r) \<longleftrightarrow>
     unat (distinct_port_threshold cfg) \<le> card (dst_ports p) \<and> \<not> ratio_gate_fails cfg p"
  by (simp add: scan_evaluate_def Let_def port_count_less not_less)

lemma scan_evaluate_severity:
  "scan_evaluate cfg age p = Some r \<Longrightarrow> unat (distinct_port_threshold cfg) < 2 ^ 31 \<Longrightarrow>
   unat (sr_distinct_ports r) = card (dst_ports p) \<and>
   (sr_severity r = HIGH \<longleftrightarrow> 2 * unat (distinct_port_threshold cfg) \<le> card (dst_ports p)) \<and>
   (sr_severity r = HIGH \<or> sr_severity r = MEDIUM)"
  by (auto simp: scan_evaluate_def Let_def port_count_exact double_threshold word_le_nat_alt
      split: if_splits)

text \<open>A profile with SYN-only packets alone passes the gate, whatever the ratio threshold \<open>\<le> 1\<close>.\<close>

lemma all_syn_gate:
  assumes "sp_syn_only_count p = tcp_packet_count p" "syn_only_ratio cfg \<le> 1"
  shows "\<not> ratio_gate_fails cfg p"
proof
  assume g: "ratio_gate_fails cfg p"
  then have "0 < tcp_packet_count p" by (simp add: ratio_gate_fails_def)
  then have "0 < unat (tcp_packet_count p)" by (simp add: word_less_nat_alt)
  then have "0 < dbl_of_word (tcp_packet_count p)" by (simp add: dbl_of_word_def dbl_of_nat_pos)
  then have "profile_syn_ratio p = 1" by (simp add: profile_syn_ratio_def assms ddiv_def)
  with g assms(2) show False by (simp add: ratio_gate_fails_def)
qed

section \<open>Properties\<close>
lemma of_nat_u64: "n < 2 ^ 64 \<Longrightarrow> unat (of_nat n :: u64) = n"
  by (simp add: unsigned_of_nat take_bit_nat_eq_self)

lemma gate_of_log:
  assumes "l \<noteq> []" "length l < 2 ^ 64"
  shows "ratio_gate_fails cfg (scan_abs (t, l)) \<longleftrightarrow>
    0 < syn_only_ratio cfg \<and> ddiv (dbl_of_nat (syn_onlys l)) (dbl_of_nat (length l)) < syn_only_ratio cfg"
proof -
  have "unat (of_nat (length l) :: u64) = length l" "unat (of_nat (syn_onlys l) :: u64) = syn_onlys l"
    using assms(2) syn_onlys_le [of l] of_nat_u64 by simp_all
  then show ?thesis
    using assms(1) by (auto simp: ratio_gate_fails_def profile_syn_ratio_def scan_abs_def dbl_of_word_def
        word_less_nat_alt)
qed

lemma scan_log_step_last: "snd (scan_log_step cfg port flags now s) \<noteq> [] \<and>
    length (snd (scan_log_step cfg port flags now s)) \<le> Suc (length (snd s))"
  by (simp add: scan_log_step_def)

lemma scan_log_run_length: "length (snd (scan_log_run cfg es s)) \<le> length (snd s) + length es"
proof (induction cfg es s rule: scan_log_run.induct)
  case (2 cfg port flags now es s)
  then show ?case using scan_log_step_last [of cfg port flags now s] by simp
qed simp

lemma snd_scan_step:
  "snd (scan_step cfg port flags now p) \<noteq> None \<longleftrightarrow>
     (\<exists>r. scan_evaluate cfg (seconds (now - sp_window_start p)) (fst (scan_step cfg port flags now p)) = Some r)"
  by (simp add: scan_step_def Let_def)

text \<open>
  Claim C11. The port-scan rule against the log of the source's packets: after any packets of a source, the
  next one raises an alert exactly when the packets of its window (the log since the last reset, this
  one included) name at least the threshold of distinct destination ports and the share of SYN-only
  packets among them reaches the ratio.
\<close>

theorem port_scan_iff:
  assumes "length es < 2 ^ 64 - 1"
  shows "snd (scan_step cfg port flags now (scan_run cfg es (new_scan_profile clk))) \<noteq> None \<longleftrightarrow>
    (let l = snd (scan_log_step cfg port flags now (scan_log_run cfg es (clk, [])))
     in unat (distinct_port_threshold cfg) \<le> card (fst ` set l) \<and>
        \<not> (0 < syn_only_ratio cfg \<and>
           ddiv (dbl_of_nat (syn_onlys l)) (dbl_of_nat (length l)) < syn_only_ratio cfg))"
proof -
  define s where "s = scan_log_run cfg es (clk, [])"
  define s' where "s' = scan_log_step cfg port flags now s"
  have p: "scan_run cfg es (new_scan_profile clk) = scan_abs s"
    by (simp add: new_scan_profile_abs scan_run_refines s_def)
  have len: "snd s' \<noteq> []" "length (snd s') < 2 ^ 64"
    using scan_log_step_last [of cfg port flags now s] scan_log_run_length [of cfg es "(clk, [])"] assms
    by (auto simp: s'_def s_def)
  show ?thesis
    unfolding p snd_scan_step scan_refines scan_evaluate_iff s_def [symmetric] s'_def [symmetric] Let_def
    using gate_of_log [OF len, of cfg "fst s'"] by (simp add: scan_abs_def)
qed

lemma port_scan_iff_witness:
  "snd (scan_step default_port_scan 80 TCP_FLAG_SYN 0 (scan_run default_port_scan [] (new_scan_profile 0))) = None"
  using port_scan_iff [of "[]" default_port_scan 80 TCP_FLAG_SYN 0 0]
  by (simp add: scan_log_step_def default_port_scan_def)

text \<open>
  Claim C31. No scan is missed: a source that sends only SYN-only packets, all in one window, to at least the
  threshold of distinct ports, has raised an alert with its last packet.
\<close>

theorem syn_scan_detected:
  assumes "list_all (\<lambda>(port, flags, now). syn_only flags \<and> seconds (now - clk) < scan_window_sec cfg)
      (es @ [(port, flags, now)])"
    and "unat (distinct_port_threshold cfg) \<le> card (fst ` set (es @ [(port, flags, now)]))"
    and "syn_only_ratio cfg \<le> 1"
  shows "snd (scan_step cfg port flags now (scan_run cfg es (new_scan_profile clk))) \<noteq> None"
proof -
  let ?all = "es @ [(port, flags, now)]"
  let ?l = "map (\<lambda>(port, flags, now). (port, flags)) ?all"
  have win: "\<forall>(port, flags, now) \<in> set ?all. seconds (now - fst (clk, [])) < scan_window_sec cfg"
    and syn: "\<forall>(p, f) \<in> set ?l. syn_only f"
    using assms(1) by (auto simp: list_all_iff)
  have "fst (scan_step cfg port flags now (scan_run cfg es (new_scan_profile clk))) =
      scan_run cfg ?all (new_scan_profile clk)"
    by (simp add: scan_run_append)
  also have "\<dots> = scan_abs (clk, ?l)"
    unfolding new_scan_profile_abs scan_run_refines scan_log_run_in_window [OF win] by simp
  finally have p: "fst (scan_step cfg port flags now (scan_run cfg es (new_scan_profile clk))) = scan_abs (clk, ?l)" .
  have "fst ` set ?l = fst ` set ?all" by force
  moreover have "\<not> ratio_gate_fails cfg (scan_abs (clk, ?l))"
    using syn_onlys_all [OF syn] assms(3) by (intro all_syn_gate) (simp_all add: scan_abs_def)
  ultimately show ?thesis
    unfolding snd_scan_step scan_evaluate_iff p using assms(2) by (simp add: scan_abs_def)
qed

lemma syn_scan_detected_witness:
  "snd (scan_step default_port_scan 1 TCP_FLAG_SYN 0 (scan_run default_port_scan
     (map (\<lambda>i. (of_nat i, TCP_FLAG_SYN, 0)) [2..<21]) (new_scan_profile 0))) \<noteq> None"
proof (rule syn_scan_detected)
  show "unat (distinct_port_threshold default_port_scan) \<le>
      card (fst ` set (map (\<lambda>i. (of_nat i, TCP_FLAG_SYN, 0 :: ns)) [2..<21] @ [(1 :: u16, TCP_FLAG_SYN, 0)]))"
    by (simp add: default_port_scan_def upt_rec)
  show "syn_only_ratio default_port_scan \<le> 1"
    unfolding default_port_scan_def using dbl.le_double [of 1 "70 / 100"] by simp
qed (auto simp: list_all_iff syn_only_def flag_set_def default_port_scan_def)

end
