(* ===== verification/SynFlood.thy ===== *)
theory SynFlood
  imports Config Alerts
begin

text \<open>
  \<open>include/SynFloodDetector.hpp\<close>: per-source SYN-only rate and ratio over a window that is
  evaluated and reset by the first TCP packet after it has elapsed. \<open>syn_step\<close> is the body of
  \<open>inspect()\<close> on the profile it looked up; \<open>syn_inspect\<close> adds \<open>get_or_create\<close> and the map.

  The specification is again a log of the flag bytes seen since the window was opened, and of
  all flag bytes of the source: \<open>syn_refines\<close> says that the profile is a function of the two.
\<close>

section \<open>State\<close>

record syn_profile =
  yp_syn_only_count :: u64
  yp_tcp_total_count :: u64
  yp_syn_ack_count :: u64
  yp_window_start :: ns
  lifetime_syn_count :: u64
  lifetime_tcp_count :: u64
  yp_completed_handshakes :: u64

definition new_syn_profile :: "ns \<Rightarrow> syn_profile" where
  "new_syn_profile clk =
     \<lparr> yp_syn_only_count = 0, yp_tcp_total_count = 0, yp_syn_ack_count = 0, yp_window_start = clk,
       lifetime_syn_count = 0, lifetime_tcp_count = 0, yp_completed_handshakes = 0 \<rparr>"

record syn_result =
  yr_severity :: severity
  yr_syn_rate_pps :: real
  yr_syn_ratio :: real
  yr_syn_count :: u64
  yr_completed_handshakes :: u64

section \<open>Operations\<close>

definition syn_ack :: "u8 \<Rightarrow> bool" where
  "syn_ack flags \<longleftrightarrow> flag_set flags TCP_FLAG_SYN \<and> flag_set flags TCP_FLAG_ACK"

definition syn_classify :: "u8 \<Rightarrow> syn_profile \<Rightarrow> syn_profile" where
  "syn_classify flags p =
     (let p1 = p\<lparr> yp_tcp_total_count := yp_tcp_total_count p + 1,
                  lifetime_tcp_count := lifetime_tcp_count p + 1 \<rparr>;
          p2 = (if syn_only flags
                then p1\<lparr> yp_syn_only_count := yp_syn_only_count p1 + 1,
                         lifetime_syn_count := lifetime_syn_count p1 + 1 \<rparr>
                else p1)
      in if syn_ack flags
         then p2\<lparr> yp_syn_ack_count := yp_syn_ack_count p2 + 1,
                  yp_completed_handshakes := yp_completed_handshakes p2 + 1 \<rparr>
         else p2)"

definition syn_reset :: "ns \<Rightarrow> syn_profile \<Rightarrow> syn_profile" where
  "syn_reset now p =
     p\<lparr> yp_syn_only_count := 0, yp_tcp_total_count := 0, yp_syn_ack_count := 0,
        yp_window_start := now \<rparr>"

definition syn_window_rate :: "real \<Rightarrow> syn_profile \<Rightarrow> real" where
  "syn_window_rate window_age p = ddiv (dbl_of_word (yp_syn_only_count p)) window_age"

definition syn_window_ratio :: "syn_profile \<Rightarrow> real" where
  "syn_window_ratio p =
     (if yp_tcp_total_count p > 0
      then ddiv (dbl_of_word (yp_syn_only_count p)) (dbl_of_word (yp_tcp_total_count p)) else 0)"

definition syn_evaluate :: "syn_flood_config \<Rightarrow> real \<Rightarrow> syn_profile \<Rightarrow> syn_result option" where
  "syn_evaluate cfg window_age p =
     (let rate = syn_window_rate window_age p; ratio = syn_window_ratio p
      in if rate < syn_rate_pps cfg then None
         else if ratio < syn_ratio cfg then None
         else Some \<lparr> yr_severity = (if rate \<ge> dmul (syn_rate_pps cfg) 5 then CRITICAL else HIGH),
                     yr_syn_rate_pps = rate, yr_syn_ratio = ratio,
                     yr_syn_count = yp_syn_only_count p,
                     yr_completed_handshakes = yp_completed_handshakes p \<rparr>)"

definition syn_step ::
  "syn_flood_config \<Rightarrow> u8 \<Rightarrow> ns \<Rightarrow> syn_profile \<Rightarrow> syn_profile \<times> syn_result option" where
  "syn_step cfg flags now p =
     (let p1 = syn_classify flags p;
          window_age = seconds (now - yp_window_start p1)
      in if window_age < syn_window_sec cfg then (p1, None)
         else (syn_reset now p1, syn_evaluate cfg window_age p1))"

type_synonym syn_map = "(string, syn_profile) umap"

definition syn_get_or_create :: "ns \<Rightarrow> string \<Rightarrow> syn_map \<Rightarrow> syn_profile" where
  "syn_get_or_create clk src m =
     (case umap_find m src of Some p \<Rightarrow> p | None \<Rightarrow> new_syn_profile clk)"

definition syn_inspect ::
  "syn_flood_config \<Rightarrow> ns \<Rightarrow> string \<Rightarrow> u8 \<Rightarrow> ns \<Rightarrow> syn_map \<Rightarrow> syn_map \<times> syn_result option" where
  "syn_inspect cfg clk src flags now m =
     (let (p, r) = syn_step cfg flags now (syn_get_or_create clk src m)
      in (umap_put src p m, r))"

definition lifetime_syn_ratio :: "syn_map \<Rightarrow> string \<Rightarrow> real" where
  "lifetime_syn_ratio m src =
     (case umap_find m src of None \<Rightarrow> 0
      | Some p \<Rightarrow> if lifetime_tcp_count p = 0 then 0
                 else ddiv (dbl_of_word (lifetime_syn_count p)) (dbl_of_word (lifetime_tcp_count p)))"

definition syn_evict_stale :: "syn_flood_config \<Rightarrow> ns \<Rightarrow> syn_map \<Rightarrow> syn_map" where
  "syn_evict_stale cfg now m =
     umap_erase_if (\<lambda>_ p. seconds (now - yp_window_start p) > dmul (syn_window_sec cfg) 10) m"

section \<open>The log specification\<close>

record syn_log =
  sl_start :: ns
  sl_window :: "u8 list"
  sl_all :: "u8 list"

definition n_of :: "(u8 \<Rightarrow> bool) \<Rightarrow> u8 list \<Rightarrow> nat" where
  "n_of P fs = length (filter P fs)"

definition syn_log_step :: "syn_flood_config \<Rightarrow> u8 \<Rightarrow> ns \<Rightarrow> syn_log \<Rightarrow> syn_log" where
  "syn_log_step cfg flags now s =
     (if seconds (now - sl_start s) < syn_window_sec cfg
      then s\<lparr> sl_window := sl_window s @ [flags], sl_all := sl_all s @ [flags] \<rparr>
      else s\<lparr> sl_start := now, sl_window := [], sl_all := sl_all s @ [flags] \<rparr>)"

definition syn_abs :: "syn_log \<Rightarrow> syn_profile" where
  "syn_abs s =
     \<lparr> yp_syn_only_count = of_nat (n_of syn_only (sl_window s)),
       yp_tcp_total_count = of_nat (length (sl_window s)),
       yp_syn_ack_count = of_nat (n_of syn_ack (sl_window s)),
       yp_window_start = sl_start s,
       lifetime_syn_count = of_nat (n_of syn_only (sl_all s)),
       lifetime_tcp_count = of_nat (length (sl_all s)),
       yp_completed_handshakes = of_nat (n_of syn_ack (sl_all s)) \<rparr>"

lemma n_of_Nil [simp]: "n_of P [] = 0"
  by (simp add: n_of_def)

lemma n_of_snoc [simp]: "n_of P (fs @ [f]) = n_of P fs + (if P f then 1 else 0)"
  by (simp add: n_of_def)

lemma n_of_le: "n_of P fs \<le> length fs"
  by (simp add: n_of_def)

lemma n_of_all: "\<forall>f \<in> set fs. P f \<Longrightarrow> n_of P fs = length fs"
  unfolding n_of_def by (subst filter_True) auto

lemma syn_only_not_ack: "syn_only f \<Longrightarrow> \<not> syn_ack f"
  by (simp add: syn_only_def syn_ack_def)

lemma syn_classify_abs:
  "syn_classify f (syn_abs s) = syn_abs (s\<lparr> sl_window := sl_window s @ [f], sl_all := sl_all s @ [f] \<rparr>)"
  by (simp add: syn_classify_def syn_abs_def Let_def add.commute)

lemma syn_refines: "fst (syn_step cfg f now (syn_abs s)) = syn_abs (syn_log_step cfg f now s)"
  unfolding syn_step_def Let_def syn_classify_abs syn_log_step_def
  by (simp add: syn_abs_def syn_reset_def)

text \<open>The packet that closes the window is evaluated together with the logged ones.\<close>

lemma snd_syn_step_abs:
  "snd (syn_step cfg f now (syn_abs s)) =
     (if seconds (now - sl_start s) < syn_window_sec cfg then None
      else syn_evaluate cfg (seconds (now - sl_start s))
             (syn_abs (s\<lparr> sl_window := sl_window s @ [f], sl_all := sl_all s @ [f] \<rparr>)))"
  unfolding syn_step_def Let_def syn_classify_abs by (simp add: syn_abs_def)

lemma new_syn_profile_abs:
  "new_syn_profile clk = syn_abs \<lparr> sl_start = clk, sl_window = [], sl_all = [] \<rparr>"
  by (simp add: new_syn_profile_def syn_abs_def)

fun syn_run :: "syn_flood_config \<Rightarrow> (u8 \<times> ns) list \<Rightarrow> syn_profile \<Rightarrow> syn_profile" where
  "syn_run cfg [] p = p"
| "syn_run cfg ((f, now) # es) p = syn_run cfg es (fst (syn_step cfg f now p))"

fun syn_log_run :: "syn_flood_config \<Rightarrow> (u8 \<times> ns) list \<Rightarrow> syn_log \<Rightarrow> syn_log" where
  "syn_log_run cfg [] s = s"
| "syn_log_run cfg ((f, now) # es) s = syn_log_run cfg es (syn_log_step cfg f now s)"

lemma syn_run_refines: "syn_run cfg es (syn_abs s) = syn_abs (syn_log_run cfg es s)"
  by (induction cfg es s rule: syn_log_run.induct) (simp_all add: syn_refines)

lemma syn_log_run_in_window:
  "\<forall>(f, now) \<in> set es. seconds (now - sl_start s) < syn_window_sec cfg \<Longrightarrow>
   syn_log_run cfg es s = s\<lparr> sl_window := sl_window s @ map fst es, sl_all := sl_all s @ map fst es \<rparr>"
proof (induction cfg es s rule: syn_log_run.induct)
  case (2 cfg f now es s)
  then show ?case by (simp add: syn_log_step_def)
qed simp

lemma syn_log_run_all: "sl_all (syn_log_run cfg es s) = sl_all s @ map fst es"
  by (induction cfg es s rule: syn_log_run.induct) (simp_all add: syn_log_step_def)

section \<open>Evaluation\<close>

lemma syn_evaluate_iff:
  "(\<exists>r. syn_evaluate cfg age p = Some r) \<longleftrightarrow>
     syn_rate_pps cfg \<le> syn_window_rate age p \<and> syn_ratio cfg \<le> syn_window_ratio p"
  by (simp add: syn_evaluate_def Let_def not_less)

lemma syn_evaluate_result:
  "syn_evaluate cfg age p = Some r \<Longrightarrow>
   yr_syn_rate_pps r = syn_window_rate age p \<and> yr_syn_ratio r = syn_window_ratio p \<and>
   yr_syn_count r = yp_syn_only_count p \<and> yr_completed_handshakes r = yp_completed_handshakes p \<and>
   (yr_severity r = CRITICAL \<longleftrightarrow> dmul (syn_rate_pps cfg) 5 \<le> yr_syn_rate_pps r) \<and>
   (yr_severity r = CRITICAL \<or> yr_severity r = HIGH)"
  by (auto simp: syn_evaluate_def Let_def split: if_splits)

lemma syn_rate_le_count: "1 \<le> age \<Longrightarrow> syn_window_rate age p \<le> dbl_of_word (yp_syn_only_count p)"
proof -
  assume "1 \<le> age"
  then have "dbl_of_word (yp_syn_only_count p) / age \<le> dbl_of_word (yp_syn_only_count p) / 1"
    by (intro divide_left_mono) auto
  then show ?thesis
    unfolding syn_window_rate_def ddiv_def by (intro dbl.le_double) (simp_all add: dbl_of_word_def)
qed

section \<open>Properties\<close>
definition empty_log :: "ns \<Rightarrow> syn_log" where
  "empty_log clk = \<lparr> sl_start = clk, sl_window = [], sl_all = [] \<rparr>"

lemma syn_log_run_length: "length (sl_window (syn_log_run cfg es s)) \<le> length (sl_window s) + length es"
proof (induction cfg es s rule: syn_log_run.induct)
  case (2 cfg f now es s)
  have "length (sl_window (syn_log_step cfg f now s)) \<le> Suc (length (sl_window s))"
    by (simp add: syn_log_step_def)
  then show ?case using 2 by simp
qed simp

lemma abs_rate_ratio:
  assumes "sl_window s \<noteq> []" "length (sl_window s) < 2 ^ 64"
  shows "syn_window_rate age (syn_abs s) = ddiv (dbl_of_nat (n_of syn_only (sl_window s))) age"
    and "syn_window_ratio (syn_abs s) =
      ddiv (dbl_of_nat (n_of syn_only (sl_window s))) (dbl_of_nat (length (sl_window s)))"
    and "unat (of_nat (n_of syn_only (sl_window s)) :: u64) = n_of syn_only (sl_window s)"
proof -
  have w: "unat (of_nat (length (sl_window s)) :: u64) = length (sl_window s)"
    "unat (of_nat (n_of syn_only (sl_window s)) :: u64) = n_of syn_only (sl_window s)"
    using assms(2) n_of_le [of syn_only "sl_window s"]
    by (simp_all add: unsigned_of_nat take_bit_nat_eq_self)
  show "syn_window_rate age (syn_abs s) = ddiv (dbl_of_nat (n_of syn_only (sl_window s))) age"
    by (simp add: syn_window_rate_def syn_abs_def dbl_of_word_def w)
  have "(0 :: u64) < of_nat (length (sl_window s))" using w(1) assms(1) by (simp add: word_less_nat_alt)
  then show "syn_window_ratio (syn_abs s) =
      ddiv (dbl_of_nat (n_of syn_only (sl_window s))) (dbl_of_nat (length (sl_window s)))"
    by (simp add: syn_window_ratio_def syn_abs_def dbl_of_word_def w)
  show "unat (of_nat (n_of syn_only (sl_window s)) :: u64) = n_of syn_only (sl_window s)" by (rule w(2))
qed

text \<open>
  Claim C12. The SYN-flood rule against the log of the source's flag bytes: after any TCP packets of a source,
  the next one raises an alert exactly when it closes the window (the window has its full length), the
  SYN-only packets of the window, this packet included, arrived at least at the threshold rate over the
  window's age, and their share of the window's packets reaches the ratio. Packets of closed windows
  have no influence.
\<close>

theorem syn_flood_iff:
  assumes "length es < 2 ^ 64 - 1"
  shows "snd (syn_step cfg f now (syn_run cfg es (new_syn_profile clk))) \<noteq> None \<longleftrightarrow>
    (let s = syn_log_run cfg es (empty_log clk); fs = sl_window s @ [f]; age = seconds (now - sl_start s);
         syns = dbl_of_nat (n_of syn_only fs)
     in syn_window_sec cfg \<le> age \<and> syn_rate_pps cfg \<le> ddiv syns age \<and>
        syn_ratio cfg \<le> ddiv syns (dbl_of_nat (length fs)))"
proof -
  define s where "s = syn_log_run cfg es (empty_log clk)"
  define s' where "s' = s\<lparr> sl_window := sl_window s @ [f], sl_all := sl_all s @ [f] \<rparr>"
  have run: "syn_run cfg es (new_syn_profile clk) = syn_abs s"
    by (simp add: new_syn_profile_abs empty_log_def [symmetric] syn_run_refines s_def)
  have "length (sl_window s) \<le> length es"
    using syn_log_run_length [of cfg es "empty_log clk"] by (simp add: s_def empty_log_def)
  then have w: "sl_window s' \<noteq> []" "length (sl_window s') < 2 ^ 64" using assms by (auto simp: s'_def)
  have eval: "syn_evaluate cfg age (syn_abs s') \<noteq> None \<longleftrightarrow>
      syn_rate_pps cfg \<le> syn_window_rate age (syn_abs s') \<and> syn_ratio cfg \<le> syn_window_ratio (syn_abs s')" for age
    using syn_evaluate_iff [of cfg age "syn_abs s'"] by simp
  show ?thesis
    unfolding run snd_syn_step_abs s_def [symmetric] s'_def [symmetric] Let_def
    using eval abs_rate_ratio [OF w] by (auto simp: s'_def not_less)
qed

lemma sample_flood_log:
  "syn_log_run default_syn_flood (replicate 99 (TCP_FLAG_SYN, 0)) (empty_log 0) =
     \<lparr> sl_start = 0, sl_window = replicate 99 TCP_FLAG_SYN, sl_all = replicate 99 TCP_FLAG_SYN \<rparr>"
  by (subst syn_log_run_in_window) (auto simp: empty_log_def default_syn_flood_def map_replicate)

lemma sample_flood_count: "n_of syn_only (replicate 99 TCP_FLAG_SYN @ [TCP_FLAG_SYN]) = 100"
proof -
  have "syn_only TCP_FLAG_SYN" by (simp add: syn_only_def flag_set_def)
  then show ?thesis by (subst n_of_all) auto
qed

lemma default_flood_sel:
  "syn_rate_pps default_syn_flood = 50" "syn_ratio default_syn_flood = rnd (85 / 100)"
  "syn_window_sec default_syn_flood = 1"
  by (simp_all add: default_syn_flood_def)

text \<open>A source that sends 99 SYNs at time 0 and one a second later.\<close>

lemma syn_flood_iff_witness:
  "snd (syn_step default_syn_flood TCP_FLAG_SYN 1000000000
     (syn_run default_syn_flood (replicate 99 (TCP_FLAG_SYN, 0)) (new_syn_profile 0))) \<noteq> None"
proof -
  have s: "seconds 1000000000 = 1" using seconds_whole [of 1] by simp
  have "rnd (85 / 100) \<le> 1" by (rule dbl.le_double) simp_all
  then have "rnd (85 / 100) \<le> ddiv (dbl_of_nat 100) (dbl_of_nat 100)" "50 \<le> ddiv (dbl_of_nat 100) 1"
    by (simp_all add: dbl_of_nat_def ddiv_def)
  moreover have "length (replicate 99 (TCP_FLAG_SYN, 0 :: ns)) < 2 ^ 64 - 1" by simp
  note syn_flood_iff [OF this, of default_syn_flood TCP_FLAG_SYN 1000000000 0,
      unfolded sample_flood_log Let_def syn_log.simps sample_flood_count default_flood_sel]
  ultimately show ?thesis by (simp add: s)
qed

text \<open>
  No false alarm below the rate: with the default configuration, an alert means that the window held at
  least fifty SYN-only packets of the source.
\<close>

theorem syn_flood_needs_rate:
  assumes "length es < 2 ^ 64 - 1"
    and "snd (syn_step default_syn_flood f now (syn_run default_syn_flood es (new_syn_profile clk))) = Some r"
  shows "50 \<le> n_of syn_only (sl_window (syn_log_run default_syn_flood es (empty_log clk)) @ [f]) \<and>
    unat (yr_syn_count r) = n_of syn_only (sl_window (syn_log_run default_syn_flood es (empty_log clk)) @ [f])"
proof -
  define s where "s = syn_log_run default_syn_flood es (empty_log clk)"
  define s' where "s' = s\<lparr> sl_window := sl_window s @ [f], sl_all := sl_all s @ [f] \<rparr>"
  let ?n = "n_of syn_only (sl_window s @ [f])" and ?age = "seconds (now - sl_start s)"
  have run: "syn_run default_syn_flood es (new_syn_profile clk) = syn_abs s"
    by (simp add: new_syn_profile_abs empty_log_def [symmetric] syn_run_refines s_def)
  have "length (sl_window s) \<le> length es"
    using syn_log_run_length [of default_syn_flood es "empty_log clk"] by (simp add: s_def empty_log_def)
  then have w: "sl_window s' \<noteq> []" "length (sl_window s') < 2 ^ 64" using assms(1) by (auto simp: s'_def)
  have age: "1 \<le> ?age" and ev: "syn_evaluate default_syn_flood ?age (syn_abs s') = Some r"
    using assms(2) unfolding run snd_syn_step_abs s'_def [symmetric]
    by (auto simp: default_syn_flood_def split: if_splits)
  have cnt: "unat (yp_syn_only_count (syn_abs s')) = ?n"
    using abs_rate_ratio(3) [OF w] by (simp add: syn_abs_def s'_def)
  have "50 \<le> syn_window_rate ?age (syn_abs s')"
    using ev syn_evaluate_iff [of default_syn_flood ?age "syn_abs s'"] by (simp add: default_syn_flood_def)
  also have "\<dots> \<le> dbl_of_nat ?n"
    using syn_rate_le_count [OF age, of "syn_abs s'"] cnt by (simp add: dbl_of_word_def)
  finally have "50 \<le> dbl_of_nat ?n" .
  moreover have "dbl_of_nat ?n \<le> 49" if "?n < 50"
    using dbl_of_nat_mono [of ?n 49] that by (simp add: dbl_of_nat_def)
  ultimately have "50 \<le> ?n" by force
  then show ?thesis using syn_evaluate_result [OF ev] cnt by (simp add: s_def)
qed

lemma sample_flood_alerts:
  "snd (syn_step default_syn_flood TCP_FLAG_SYN 1000000000
     (syn_run default_syn_flood (replicate 99 (TCP_FLAG_SYN, 0)) (new_syn_profile 0))) \<noteq> None"
proof -
  let ?w = "replicate 99 TCP_FLAG_SYN @ [TCP_FLAG_SYN]"
  let ?s = "\<lparr> sl_start = 0, sl_window = ?w, sl_all = ?w \<rparr>"
  have s: "seconds 1000000000 = 1" using seconds_whole [of 1] by simp
  have run: "syn_run default_syn_flood (replicate 99 (TCP_FLAG_SYN, 0)) (new_syn_profile 0) =
      syn_abs (syn_log_run default_syn_flood (replicate 99 (TCP_FLAG_SYN, 0)) (empty_log 0))"
    by (simp add: new_syn_profile_abs empty_log_def [symmetric] syn_run_refines)
  have len: "length ?w = 100" by simp
  have "rnd (85 / 100) \<le> 1" by (rule dbl.le_double) simp_all
  moreover have "dbl_of_nat 100 = 100" by (simp add: dbl_of_nat_def)
  ultimately have "syn_rate_pps default_syn_flood \<le> syn_window_rate 1 (syn_abs ?s)"
    "syn_ratio default_syn_flood \<le> syn_window_ratio (syn_abs ?s)"
    using abs_rate_ratio(1,2) [of ?s]
    by (simp_all only: syn_log.simps len sample_flood_count default_flood_sel) (simp_all add: ddiv_def)
  then have "syn_evaluate default_syn_flood 1 (syn_abs ?s) \<noteq> None"
    using syn_evaluate_iff [of default_syn_flood 1 "syn_abs ?s"] by blast
  then show ?thesis
    unfolding run snd_syn_step_abs sample_flood_log syn_log.simps by (simp add: s default_flood_sel)
qed

lemma syn_flood_needs_rate_witness:
  "\<exists>r. snd (syn_step default_syn_flood TCP_FLAG_SYN 1000000000
     (syn_run default_syn_flood (replicate 99 (TCP_FLAG_SYN, 0)) (new_syn_profile 0))) = Some r \<and>
     unat (yr_syn_count r) = 100"
proof -
  obtain r where "snd (syn_step default_syn_flood TCP_FLAG_SYN 1000000000
     (syn_run default_syn_flood (replicate 99 (TCP_FLAG_SYN, 0)) (new_syn_profile 0))) = Some r"
    using sample_flood_alerts by blast
  with syn_flood_needs_rate [OF _ this] show ?thesis
    unfolding sample_flood_log syn_log.simps sample_flood_count by simp
qed

end
