(* ===== verification/Detector.thy ===== *)
theory Detector
  imports Packet Ewma PortScan SynFlood
begin

text \<open>
  \<open>include/Threatdetector.hpp\<close> and \<open>src/ThreatDetector.cpp\<close>: the detector that runs every rule on
  a parsed packet, suppresses repeated alerts and hands the others to the delivery layer.

  The state is the record \<open>detector\<close>, one field per member of the class. Its last field is the
  observable output: the calls of \<open>fire(alert, now)\<close> in their order, each of which passes the
  alert to \<open>delivery_fire_alert\<close>. The readings of the clocks that an \<open>inspect\<close> takes besides its
  argument \<open>now\<close> (in the constructors of the profiles and of the alerts) are the record \<open>clocks\<close>.

  A default-constructed \<open>time_point\<close> (in \<open>exfil_state_\<close> and \<open>dns_txt_state_\<close>) is the epoch, 0.
\<close>

section \<open>State\<close>

record clocks =
  ck_ewma :: ns
  ck_syn :: ns
  ck_scan :: ns
  ck_port :: ns
  ck_stamp :: "attack_type \<Rightarrow> string"
  ck_alert :: "attack_type \<Rightarrow> ns"

record port_window =
  pw_count :: u64
  pw_start :: ns

record detector =
  td_config :: config
  td_ewma :: ewma_map
  td_scan :: scan_map
  td_syn :: syn_map
  td_suppression :: "(string, (u8, ns) umap) umap"
  td_brute :: "(string, (u16, port_window) umap) umap"
  td_exfil :: "(string, ns \<times> u64) umap"
  td_dns_txt :: "(string, ns \<times> u64) umap"
  td_total_fired :: u64
  td_fired :: "(ns \<times> threat_alert) list"

definition new_detector :: "config \<Rightarrow> detector" where
  "new_detector cfg =
     \<lparr> td_config = cfg, td_ewma = [], td_scan = [], td_syn = [], td_suppression = [], td_brute = [],
       td_exfil = [], td_dns_txt = [], td_total_fired = 0, td_fired = [] \<rparr>"

section \<open>Suppression and firing\<close>

definition per_ip_suppressed :: "(u8, ns) umap \<Rightarrow> attack_type \<Rightarrow> real \<Rightarrow> ns \<Rightarrow> bool" where
  "per_ip_suppressed m type sec now =
     (case umap_find m (attack_code type) of None \<Rightarrow> False | Some t \<Rightarrow> seconds (now - t) < sec)"

definition per_ip_record :: "attack_type \<Rightarrow> ns \<Rightarrow> (u8, ns) umap \<Rightarrow> (u8, ns) umap" where
  "per_ip_record type now m = umap_put (attack_code type) now m"

definition is_suppressed :: "detector \<Rightarrow> string \<Rightarrow> attack_type \<Rightarrow> ns \<Rightarrow> bool" where
  "is_suppressed d src type now =
     (case umap_find (td_suppression d) src of None \<Rightarrow> False
      | Some m \<Rightarrow> per_ip_suppressed m type (alert_suppression_sec (delivery (td_config d))) now)"

definition record_suppression :: "string \<Rightarrow> attack_type \<Rightarrow> ns \<Rightarrow> detector \<Rightarrow> detector" where
  "record_suppression src type now d =
     (let m = (case umap_find (td_suppression d) src of None \<Rightarrow> [] | Some m \<Rightarrow> m)
      in d\<lparr> td_suppression := umap_put src (per_ip_record type now m) (td_suppression d) \<rparr>)"

definition fire :: "threat_alert \<Rightarrow> ns \<Rightarrow> detector \<Rightarrow> detector" where
  "fire a now d =
     (let d1 = record_suppression (al_src_ip a) (al_attack_type a) now d
      in d1\<lparr> td_total_fired := td_total_fired d1 + 1, td_fired := td_fired d1 @ [(now, a)] \<rparr>)"

definition is_sensitive_port :: "detector \<Rightarrow> u16 \<Rightarrow> bool" where
  "is_sensitive_port d port = list_ex (\<lambda>p. p = port) (sensitive_ports (brute_force (td_config d)))"

definition port_to_service_name :: "u16 \<Rightarrow> string" where
  "port_to_service_name port =
     (if port = 22 then ''SSH'' else if port = 23 then ''Telnet'' else if port = 21 then ''FTP''
      else if port = 25 then ''SMTP'' else if port = 110 then ''POP3'' else if port = 143 then ''IMAP''
      else if port = 3389 then ''RDP'' else if port = 5900 then ''VNC'' else ''PORT'')"

text \<open>The alert of a rule for a packet: the context fields every handler fills in the same way.\<close>

definition alert_for ::
  "clocks \<Rightarrow> packet_info \<Rightarrow> attack_type \<Rightarrow> severity \<Rightarrow> string \<Rightarrow> threat_alert" where
  "alert_for ck info type sev evidence =
     new_alert (ck_stamp ck type) (ck_alert ck type) type sev (src_ip info) (dst_ip info)
       (src_port info) (dst_port info) evidence"

section \<open>Handlers of the rate detectors\<close>

definition handle_ewma_anomaly ::
  "clocks \<Rightarrow> packet_info \<Rightarrow> ewma_result \<Rightarrow> ns \<Rightarrow> detector \<Rightarrow> detector" where
  "handle_ewma_anomaly ck info r now d =
     (if is_suppressed d (src_ip info) VOLUME_ANOMALY now then d
      else fire ((alert_for ck info VOLUME_ANOMALY (er_severity r)
          (''Traffic spike: '' @ fixed_string 1 (er_observed_pps r) @ '' pps vs baseline '' @
           fixed_string 1 (er_baseline_pps r) @ '' pps ('' @ fixed_string 1 (er_ratio r) @ ''x)''))
          \<lparr> al_observed_value := er_observed_pps r,
            al_baseline_value := er_baseline_pps r,
            al_threshold_value := dmul (er_baseline_pps r) (medium_multiplier (ewma (td_config d))) \<rparr>)
          now d)"

definition handle_syn_flood ::
  "clocks \<Rightarrow> packet_info \<Rightarrow> syn_result \<Rightarrow> ns \<Rightarrow> detector \<Rightarrow> detector" where
  "handle_syn_flood ck info r now d =
     (if is_suppressed d (src_ip info) SYN_FLOOD now then d
      else fire ((alert_for ck info SYN_FLOOD (yr_severity r)
          (''SYN flood: '' @ fixed_string 1 (yr_syn_rate_pps r) @ '' pps, ratio='' @
           fixed_string 1 (dmul (yr_syn_ratio r) 100) @ ''%, handshakes='' @
           dec_string (unat (yr_completed_handshakes r))))
          \<lparr> al_observed_value := yr_syn_rate_pps r,
            al_threshold_value := syn_rate_pps (syn_flood (td_config d)) \<rparr>)
          now d)"

definition handle_port_scan ::
  "clocks \<Rightarrow> packet_info \<Rightarrow> scan_result \<Rightarrow> ns \<Rightarrow> detector \<Rightarrow> detector" where
  "handle_port_scan ck info r now d =
     (if is_suppressed d (src_ip info) PORT_SCAN now then d
      else fire ((alert_for ck info PORT_SCAN (sr_severity r)
          (''Port scan: '' @ dec_string (unat (sr_distinct_ports r)) @ '' ports in '' @
           fixed_string 1 (sr_window_sec r) @ ''s, SYN ratio='' @
           fixed_string 1 (dmul (sr_syn_ratio r) 100) @ ''%''))
          \<lparr> al_observed_value := dbl_of_word (sr_distinct_ports r),
            al_threshold_value := dbl_of_word (distinct_port_threshold (port_scan (td_config d))) \<rparr>)
          now d)"

section \<open>Brute force\<close>

definition brute_window :: "clocks \<Rightarrow> packet_info \<Rightarrow> detector \<Rightarrow> port_window" where
  "brute_window ck info d =
     (case umap_find (td_brute d) (src_ip info) of
        None \<Rightarrow> \<lparr> pw_count = 0, pw_start = ck_port ck \<rparr>
      | Some ports \<Rightarrow>
          (case umap_find ports (dst_port info) of
             None \<Rightarrow> \<lparr> pw_count = 0, pw_start = ck_port ck \<rparr> | Some w \<Rightarrow> w))"

definition brute_store :: "packet_info \<Rightarrow> port_window \<Rightarrow> detector \<Rightarrow> detector" where
  "brute_store info w d =
     (let ports = (case umap_find (td_brute d) (src_ip info) of None \<Rightarrow> [] | Some ps \<Rightarrow> ps)
      in d\<lparr> td_brute := umap_put (src_ip info) (umap_put (dst_port info) w ports) (td_brute d) \<rparr>)"

definition check_brute_force :: "clocks \<Rightarrow> packet_info \<Rightarrow> ns \<Rightarrow> detector \<Rightarrow> detector" where
  "check_brute_force ck info now d =
     (let win = brute_window ck info d;
          age = seconds (now - pw_start win);
          limit = rate_pps (brute_force (td_config d))
      in if age \<ge> 1 then
           (let rate = ddiv (dbl_of_word (pw_count win)) age;
                d1 = brute_store info \<lparr> pw_count = 1, pw_start = now \<rparr> d
            in if rate \<ge> limit \<and> \<not> is_suppressed d1 (src_ip info) BRUTE_FORCE now
               then fire ((alert_for ck info BRUTE_FORCE
                   (if rate \<ge> dmul limit 3 then CRITICAL else HIGH)
                   (''Brute force on '' @ port_to_service_name (dst_port info) @ '' port='' @
                    dec_string (unat (dst_port info)) @ '' rate='' @ fixed_string 1 rate @ '' pps''))
                   \<lparr> al_observed_value := rate, al_threshold_value := limit \<rparr>)
                   now d1
               else d1)
         else brute_store info (win\<lparr> pw_count := pw_count win + 1 \<rparr>) d)"

section \<open>DNS tunnelling\<close>

text \<open>
  The scan over the query name. The first argument is the part of the name from index \<open>i\<close> on,
  \<open>ls\<close> the start of the current label.
\<close>

fun max_label_loop :: "string \<Rightarrow> nat \<Rightarrow> nat \<Rightarrow> nat \<Rightarrow> nat" where
  "max_label_loop [] i ls m = max m (i - ls)"
| "max_label_loop (c # cs) i ls m =
     (if c = CHR ''.'' then max_label_loop cs (i + 1) (i + 1) (max m (i - ls))
      else max_label_loop cs (i + 1) ls m)"

definition max_label :: "string \<Rightarrow> nat" where
  "max_label qname = max_label_loop qname 0 0 0"

definition rate_entry :: "(string, ns \<times> u64) umap \<Rightarrow> string \<Rightarrow> ns \<times> u64" where
  "rate_entry m src = (case umap_find m src of None \<Rightarrow> (0, 0) | Some e \<Rightarrow> e)"

definition check_dns_txt :: "clocks \<Rightarrow> packet_info \<Rightarrow> ns \<Rightarrow> detector \<Rightarrow> detector" where
  "check_dns_txt ck info now d =
     (let (ws, cnt) = rate_entry (td_dns_txt d) (src_ip info);
          age = seconds (now - ws);
          limit = txt_rate_pps (dns_tunneling (td_config d))
      in if age \<ge> 1 then
           (let rate = ddiv (dbl_of_word cnt) age;
                d1 = d\<lparr> td_dns_txt := umap_put (src_ip info) (now, 1) (td_dns_txt d) \<rparr>
            in if rate \<ge> limit \<and> \<not> is_suppressed d1 (src_ip info) DNS_TUNNELING now
               then fire ((alert_for ck info DNS_TUNNELING HIGH
                   (''High DNS TXT rate: '' @ fixed_string 1 rate @ '' TXT/s''))
                   \<lparr> al_observed_value := rate, al_threshold_value := limit \<rparr>)
                   now d1
               else d1)
         else d\<lparr> td_dns_txt := umap_put (src_ip info) (ws, cnt + 1) (td_dns_txt d) \<rparr>)"

definition dns_name_suspicious :: "config \<Rightarrow> string \<Rightarrow> bool" where
  "dns_name_suspicious cfg qname \<longleftrightarrow>
     length qname \<ge> max_fqdn_length (dns_tunneling cfg) \<or>
     max_label qname \<ge> max_label_length (dns_tunneling cfg)"

definition check_dns_tunneling :: "clocks \<Rightarrow> packet_info \<Rightarrow> dns_info \<Rightarrow> ns \<Rightarrow> detector \<Rightarrow> detector" where
  "check_dns_tunneling ck info q now d =
     (let qname = query_name q
      in if dns_name_suspicious (td_config d) qname \<and>
            \<not> is_suppressed d (src_ip info) DNS_TUNNELING now
         then fire ((alert_for ck info DNS_TUNNELING HIGH
             (''Suspicious DNS: len='' @ dec_string (length qname) @ '' max_label='' @
              dec_string (max_label qname) @ '' q='' @ qname))
             \<lparr> al_observed_value := dbl_of_nat (length qname) \<rparr>)
             now d
         else if query_type q = DNS_QTYPE_TXT then check_dns_txt ck info now d
         else d)"

section \<open>Data exfiltration\<close>

definition exfil_medium :: real where "exfil_medium = 5000000"
definition exfil_high :: real where "exfil_high = 20000000"

definition check_data_exfiltration :: "clocks \<Rightarrow> packet_info \<Rightarrow> ns \<Rightarrow> detector \<Rightarrow> detector" where
  "check_data_exfiltration ck info now d =
     (let (ws, bytes0) = rate_entry (td_exfil d) (src_ip info);
          bytes = bytes0 + of_nat (l7_payload_length info);
          age = seconds (now - ws)
      in if age < 1 then d\<lparr> td_exfil := umap_put (src_ip info) (ws, bytes) (td_exfil d) \<rparr>
         else
           (let bps = ddiv (dbl_of_word bytes) age;
                d1 = d\<lparr> td_exfil := umap_put (src_ip info) (now, 0) (td_exfil d) \<rparr>
            in if bps < exfil_medium then d1
               else if is_suppressed d1 (src_ip info) DATA_EXFILTRATION now then d1
               else fire ((alert_for ck info DATA_EXFILTRATION
                   (if bps \<ge> exfil_high then HIGH else MEDIUM)
                   (''Outbound '' @ fixed_string 2 (ddiv bps 1000000) @ '' MB/s''))
                   \<lparr> al_observed_value := bps, al_threshold_value := exfil_medium \<rparr>)
                   now d1))"

section \<open>The entry point\<close>

definition run_ewma :: "clocks \<Rightarrow> packet_info \<Rightarrow> ns \<Rightarrow> detector \<Rightarrow> detector" where
  "run_ewma ck info now d =
     (let (m, r) = ewma_update (ewma (td_config d)) (ck_ewma ck) (src_ip info)
                     (ucast (ip_total_length info)) now (td_ewma d);
          d1 = d\<lparr> td_ewma := m \<rparr>
      in case r of None \<Rightarrow> d1 | Some x \<Rightarrow> handle_ewma_anomaly ck info x now d1)"

definition run_syn_flood :: "clocks \<Rightarrow> packet_info \<Rightarrow> ns \<Rightarrow> detector \<Rightarrow> detector" where
  "run_syn_flood ck info now d =
     (if l4_proto info = L4_TCP then
        (let (m, r) = syn_inspect (syn_flood (td_config d)) (ck_syn ck) (src_ip info)
                        (tcp_flags info) now (td_syn d);
             d1 = d\<lparr> td_syn := m \<rparr>
         in case r of None \<Rightarrow> d1 | Some x \<Rightarrow> handle_syn_flood ck info x now d1)
      else d)"

definition run_port_scan :: "clocks \<Rightarrow> packet_info \<Rightarrow> ns \<Rightarrow> detector \<Rightarrow> detector" where
  "run_port_scan ck info now d =
     (if dst_port info \<noteq> 0 then
        (let (m, r) = scan_inspect (port_scan (td_config d)) (ck_scan ck) (src_ip info) (dst_port info)
                        (if l4_proto info = L4_TCP then tcp_flags info else 0) now (td_scan d);
             d1 = d\<lparr> td_scan := m \<rparr>
         in case r of None \<Rightarrow> d1 | Some x \<Rightarrow> handle_port_scan ck info x now d1)
      else d)"

definition run_brute_force :: "clocks \<Rightarrow> packet_info \<Rightarrow> ns \<Rightarrow> detector \<Rightarrow> detector" where
  "run_brute_force ck info now d =
     (if dst_port info \<noteq> 0 \<and> is_sensitive_port d (dst_port info) then check_brute_force ck info now d
      else d)"

definition run_dns :: "clocks \<Rightarrow> packet_info \<Rightarrow> ns \<Rightarrow> detector \<Rightarrow> detector" where
  "run_dns ck info now d =
     (case dns info of None \<Rightarrow> d | Some q \<Rightarrow> check_dns_tunneling ck info q now d)"

definition run_exfil :: "clocks \<Rightarrow> packet_info \<Rightarrow> ns \<Rightarrow> detector \<Rightarrow> detector" where
  "run_exfil ck info now d =
     (if l7_payload_length info > 0 then check_data_exfiltration ck info now d else d)"

definition inspect :: "clocks \<Rightarrow> packet_info \<Rightarrow> ns \<Rightarrow> detector \<Rightarrow> detector" where
  "inspect ck info now d =
     (if \<not> valid info \<or> src_ip info = [] then d
      else run_exfil ck info now (run_dns ck info now (run_brute_force ck info now
             (run_port_scan ck info now (run_syn_flood ck info now (run_ewma ck info now d))))))"

definition evict_stale_state :: "ns \<Rightarrow> ns \<Rightarrow> detector \<Rightarrow> detector" where
  "evict_stale_state clk now d =
     d\<lparr> td_ewma := evict_stale_profiles (ewma (td_config d)) clk (td_ewma d),
        td_scan := scan_evict_stale (port_scan (td_config d)) now (td_scan d),
        td_syn := syn_evict_stale (syn_flood (td_config d)) now (td_syn d) \<rparr>"

end
