(* ===== verification/AlertRules.thy ===== *)
theory AlertRules
  imports Detector
begin

text \<open>
  The contract every detection rule of \<open>ThreatDetector::inspect\<close> keeps, as the locale
  \<open>alert_rule\<close>: a rule fires at most one alert, of its own kind and for the packet's source, only
  when that pair is not suppressed; it touches no other source's state. The locale's lemmas lift
  the contract to the detector's invariants; the six rules of the code are its interpretations,
  and the last sections state what follows for a whole run of the detector.
\<close>

section \<open>The effect of a rule\<close>

definition last_fired :: "detector \<Rightarrow> string \<Rightarrow> attack_type \<Rightarrow> ns option" where
  "last_fired d src type =
     (case umap_find (td_suppression d) src of None \<Rightarrow> None | Some m \<Rightarrow> umap_find m (attack_code type))"

definition suppression_sec :: "detector \<Rightarrow> real" where
  "suppression_sec d = alert_suppression_sec (delivery (td_config d))"

lemma is_suppressed_iff:
  "is_suppressed d src type now \<longleftrightarrow>
     (\<exists>t. last_fired d src type = Some t \<and> seconds (now - t) < suppression_sec d)"
  by (simp add: is_suppressed_def per_ip_suppressed_def last_fired_def suppression_sec_def
      split: option.splits)

lemma last_fired_record:
  "last_fired (record_suppression src type now d) src' type' =
     (if src' = src \<and> type' = type then Some now else last_fired d src' type')"
  by (auto simp: last_fired_def record_suppression_def per_ip_record_def Let_def um.find_put
      split: option.splits)

definition quiet :: "detector \<Rightarrow> detector \<Rightarrow> bool" where
  "quiet d d' \<longleftrightarrow> td_config d' = td_config d \<and> td_suppression d' = td_suppression d \<and>
     td_fired d' = td_fired d \<and> td_total_fired d' = td_total_fired d"

definition fires_once :: "string \<Rightarrow> attack_type \<Rightarrow> ns \<Rightarrow> detector \<Rightarrow> detector \<Rightarrow> bool" where
  "fires_once src type now d d' \<longleftrightarrow> \<not> is_suppressed d src type now \<and> td_config d' = td_config d \<and>
     td_suppression d' = td_suppression (record_suppression src type now d) \<and>
     td_total_fired d' = td_total_fired d + 1 \<and>
     (\<exists>a. al_src_ip a = src \<and> al_attack_type a = type \<and> td_fired d' = td_fired d @ [(now, a)])"

definition rule_effect :: "string \<Rightarrow> attack_type \<Rightarrow> ns \<Rightarrow> detector \<Rightarrow> detector \<Rightarrow> bool" where
  "rule_effect src type now d d' \<longleftrightarrow> quiet d d' \<or> fires_once src type now d d'"

lemma quiet_refl [simp]: "quiet d d"
  by (simp add: quiet_def)

lemma quiet_suppressed: "quiet d d' \<Longrightarrow> is_suppressed d' = is_suppressed d"
  by (intro ext) (auto simp: quiet_def is_suppressed_def split: option.splits)

lemma rule_effect_quiet: "quiet d d' \<Longrightarrow> rule_effect src type now d d'"
  by (simp add: rule_effect_def)

lemma rule_effect_fire:
  assumes "quiet d d1" and "\<not> is_suppressed d1 src type now"
    and "al_src_ip a = src" and "al_attack_type a = type"
  shows "rule_effect src type now d (fire a now d1)"
proof -
  have "fires_once src type now d (fire a now d1)"
    using assms quiet_suppressed [OF assms(1)]
    by (auto simp: fires_once_def fire_def Let_def record_suppression_def quiet_def)
  then show ?thesis by (simp add: rule_effect_def)
qed

text \<open>State of one source: what the seven per-source tables hold for it.\<close>

definition same_source :: "string \<Rightarrow> detector \<Rightarrow> detector \<Rightarrow> bool" where
  "same_source src d d' \<longleftrightarrow>
     umap_find (td_ewma d') src = umap_find (td_ewma d) src \<and>
     umap_find (td_scan d') src = umap_find (td_scan d) src \<and>
     umap_find (td_syn d') src = umap_find (td_syn d) src \<and>
     umap_find (td_suppression d') src = umap_find (td_suppression d) src \<and>
     umap_find (td_brute d') src = umap_find (td_brute d) src \<and>
     umap_find (td_exfil d') src = umap_find (td_exfil d) src \<and>
     umap_find (td_dns_txt d') src = umap_find (td_dns_txt d) src"

lemma same_source_refl [simp]: "same_source src d d"
  by (simp add: same_source_def)

lemma same_source_trans: "same_source src d d' \<Longrightarrow> same_source src d' d'' \<Longrightarrow> same_source src d d''"
  by (simp add: same_source_def)

lemma same_source_fire:
  "src \<noteq> al_src_ip a \<Longrightarrow> same_source src d d1 \<Longrightarrow> same_source src d (fire a now d1)"
  by (simp add: same_source_def fire_def record_suppression_def Let_def um.find_put)

section \<open>Invariants of the log\<close>

text \<open>
  \<open>spaced sec log\<close>: the calls of \<open>fire\<close> are in time order, and two for one source and one kind are
  at least \<open>sec\<close> apart. \<open>sup_inv\<close> ties the suppression table to the log.
\<close>

definition spaced :: "real \<Rightarrow> (ns \<times> threat_alert) list \<Rightarrow> bool" where
  "spaced sec = sorted_wrt (\<lambda>(t1, a1) (t2, a2). t1 \<le> t2 \<and>
     (al_src_ip a1 = al_src_ip a2 \<and> al_attack_type a1 = al_attack_type a2 \<longrightarrow>
      sec \<le> seconds (t2 - t1)))"

definition sup_inv :: "ns \<Rightarrow> detector \<Rightarrow> bool" where
  "sup_inv now d \<longleftrightarrow>
     spaced (suppression_sec d) (td_fired d) \<and>
     (\<forall>src type t. last_fired d src type = Some t \<longrightarrow> t \<le> now) \<and>
     (\<forall>(t, a) \<in> set (td_fired d). \<exists>t'. last_fired d (al_src_ip a) (al_attack_type a) = Some t' \<and> t \<le> t')"

lemma sup_inv_mono: "sup_inv now d \<Longrightarrow> now \<le> now' \<Longrightarrow> sup_inv now' d"
  unfolding sup_inv_def by (meson order_trans)

lemma sup_inv_quiet: "quiet d d' \<Longrightarrow> sup_inv now d \<Longrightarrow> sup_inv now d'"
  by (simp add: sup_inv_def quiet_def suppression_sec_def last_fired_def)

lemma sup_inv_fires:
  assumes f: "fires_once src type now d d'" and inv: "sup_inv now d"
  shows "sup_inv now d'"
proof -
  obtain a where a: "al_src_ip a = src" "al_attack_type a = type"
    and fired: "td_fired d' = td_fired d @ [(now, a)]"
    using f by (auto simp: fires_once_def)
  have lf: "last_fired d' s y = (if s = src \<and> y = type then Some now else last_fired d s y)" for s y
    using f last_fired_record [of src type now d s y] by (simp add: fires_once_def last_fired_def)
  have sec: "suppression_sec d' = suppression_sec d"
    using f by (simp add: fires_once_def suppression_sec_def)
  have old: "t \<le> now \<and> (al_src_ip b = src \<and> al_attack_type b = type \<longrightarrow>
      suppression_sec d \<le> seconds (now - t))" if "(t, b) \<in> set (td_fired d)" for t b
  proof -
    from that inv obtain t' where t': "last_fired d (al_src_ip b) (al_attack_type b) = Some t'"
      "t \<le> t'" "t' \<le> now"
      unfolding sup_inv_def by fastforce
    have "seconds (now - t') \<le> seconds (now - t)" by (rule seconds_mono) (use t' in simp)
    then show ?thesis using f t' by (auto simp: fires_once_def is_suppressed_iff not_less)
  qed
  have 1: "spaced (suppression_sec d) (td_fired d')"
    using inv old a unfolding fired sup_inv_def spaced_def
    by (auto simp: sorted_wrt_append)
  have 2: "\<exists>t'. last_fired d' (al_src_ip b) (al_attack_type b) = Some t' \<and> t \<le> t'"
    if "(t, b) \<in> set (td_fired d')" for t b
    using that inv old a unfolding fired lf sup_inv_def by fastforce
  have 3: "last_fired d' s y = Some t \<Longrightarrow> t \<le> now" for s y t
    using inv unfolding lf sup_inv_def by (auto split: if_splits)
  show ?thesis
    unfolding sup_inv_def sec using 1 2 3 by blast
qed

section \<open>The contract of a rule\<close>

locale alert_rule =
  fixes rule :: "clocks \<Rightarrow> packet_info \<Rightarrow> ns \<Rightarrow> detector \<Rightarrow> detector"
    and kind :: attack_type
  assumes effect: "rule_effect (src_ip info) kind now d (rule ck info now d)"
    and isolated: "src \<noteq> src_ip info \<Longrightarrow> same_source src d (rule ck info now d)"
begin

lemma config: "td_config (rule ck info now d) = td_config d"
  using effect [of info now d ck] by (auto simp: rule_effect_def quiet_def fires_once_def)

lemma keeps_sup_inv: "sup_inv now d \<Longrightarrow> sup_inv now (rule ck info now d)"
  using effect [of info now d ck] sup_inv_quiet sup_inv_fires by (auto simp: rule_effect_def)

text \<open>The log grows by nothing, or by one alert of the rule's kind for the packet's source.\<close>

lemma log_cases:
  "\<exists>new. td_fired (rule ck info now d) = td_fired d @ new \<and> length new \<le> 1 \<and>
     (\<forall>(t, a) \<in> set new. t = now \<and> al_src_ip a = src_ip info \<and> al_attack_type a = kind) \<and>
     td_total_fired (rule ck info now d) = td_total_fired d + of_nat (length new)"
  using effect [of info now d ck] by (fastforce simp: rule_effect_def quiet_def fires_once_def)

lemma suppressed_quiet:
  "is_suppressed d (src_ip info) kind now \<Longrightarrow> td_fired (rule ck info now d) = td_fired d"
  using effect [of info now d ck] by (auto simp: rule_effect_def quiet_def fires_once_def)

lemma other_kinds:
  "type \<noteq> kind \<Longrightarrow> last_fired (rule ck info now d) src type = last_fired d src type"
  using effect [of info now d ck] last_fired_record [of "src_ip info" kind now d src type]
  by (auto simp: rule_effect_def quiet_def fires_once_def last_fired_def)

end

lemma alert_for_sel [simp]:
  "al_src_ip (alert_for ck info type sev ev) = src_ip info"
  "al_attack_type (alert_for ck info type sev ev) = type"
  by (simp_all add: alert_for_def)

lemma handle_ewma_effect:
  "quiet d d1 \<Longrightarrow> rule_effect (src_ip info) VOLUME_ANOMALY now d (handle_ewma_anomaly ck info r now d1)"
  unfolding handle_ewma_anomaly_def by (auto intro: rule_effect_quiet rule_effect_fire)

lemma handle_syn_effect:
  "quiet d d1 \<Longrightarrow> rule_effect (src_ip info) SYN_FLOOD now d (handle_syn_flood ck info r now d1)"
  unfolding handle_syn_flood_def by (auto intro: rule_effect_quiet rule_effect_fire)

lemma handle_scan_effect:
  "quiet d d1 \<Longrightarrow> rule_effect (src_ip info) PORT_SCAN now d (handle_port_scan ck info r now d1)"
  unfolding handle_port_scan_def by (auto intro: rule_effect_quiet rule_effect_fire)

interpretation ewma_rule: alert_rule run_ewma VOLUME_ANOMALY
proof unfold_locales
  fix ck :: clocks and info :: packet_info and now src and d :: detector
  obtain m r where u: "ewma_update (ewma (td_config d)) (ck_ewma ck) (src_ip info)
      (ucast (ip_total_length info)) now (td_ewma d) = (m, r)" by fastforce
  have q: "quiet d (d\<lparr>td_ewma := m\<rparr>)" by (simp add: quiet_def)
  show "rule_effect (src_ip info) VOLUME_ANOMALY now d (run_ewma ck info now d)"
    using q unfolding run_ewma_def u
    by (auto simp: Let_def intro: rule_effect_quiet handle_ewma_effect split: option.splits)
  assume "src \<noteq> src_ip info"
  moreover from this have "same_source src d (d\<lparr>td_ewma := m\<rparr>)"
    using u by (auto simp: same_source_def ewma_update_def um.find_put split: prod.splits)
  ultimately show "same_source src d (run_ewma ck info now d)"
    unfolding run_ewma_def u
    by (auto simp: Let_def handle_ewma_anomaly_def intro!: same_source_fire split: option.splits)
qed

interpretation syn_rule: alert_rule run_syn_flood SYN_FLOOD
proof unfold_locales
  fix ck :: clocks and info :: packet_info and now src and d :: detector
  obtain m r where u: "syn_inspect (syn_flood (td_config d)) (ck_syn ck) (src_ip info)
      (tcp_flags info) now (td_syn d) = (m, r)" by fastforce
  have q: "quiet d (d\<lparr>td_syn := m\<rparr>)" by (simp add: quiet_def)
  show "rule_effect (src_ip info) SYN_FLOOD now d (run_syn_flood ck info now d)"
    using q unfolding run_syn_flood_def u
    by (auto simp: Let_def intro: rule_effect_quiet handle_syn_effect split: option.splits)
  assume "src \<noteq> src_ip info"
  moreover from this have "same_source src d (d\<lparr>td_syn := m\<rparr>)"
    using u by (auto simp: same_source_def syn_inspect_def um.find_put split: prod.splits)
  ultimately show "same_source src d (run_syn_flood ck info now d)"
    unfolding run_syn_flood_def u
    by (auto simp: Let_def handle_syn_flood_def intro!: same_source_fire split: option.splits)
qed

interpretation scan_rule: alert_rule run_port_scan PORT_SCAN
proof unfold_locales
  fix ck :: clocks and info :: packet_info and now src and d :: detector
  obtain m r where u: "scan_inspect (port_scan (td_config d)) (ck_scan ck) (src_ip info)
      (dst_port info) (if l4_proto info = L4_TCP then tcp_flags info else 0) now (td_scan d) = (m, r)"
    by fastforce
  have q: "quiet d (d\<lparr>td_scan := m\<rparr>)" by (simp add: quiet_def)
  show "rule_effect (src_ip info) PORT_SCAN now d (run_port_scan ck info now d)"
    using q unfolding run_port_scan_def u
    by (auto simp: Let_def intro: rule_effect_quiet handle_scan_effect split: option.splits)
  assume "src \<noteq> src_ip info"
  moreover from this have "same_source src d (d\<lparr>td_scan := m\<rparr>)"
    using u by (auto simp: same_source_def scan_inspect_def um.find_put split: prod.splits)
  ultimately show "same_source src d (run_port_scan ck info now d)"
    unfolding run_port_scan_def u
    by (auto simp: Let_def handle_port_scan_def intro!: same_source_fire split: option.splits)
qed

lemma brute_store_quiet: "quiet d (brute_store info w d)"
  by (simp add: brute_store_def quiet_def Let_def)

lemma brute_store_same: "src \<noteq> src_ip info \<Longrightarrow> same_source src d (brute_store info w d)"
  by (simp add: brute_store_def same_source_def Let_def um.find_put)

interpretation brute_rule: alert_rule run_brute_force BRUTE_FORCE
  by unfold_locales
    (auto simp: run_brute_force_def check_brute_force_def Let_def brute_store_quiet brute_store_same
       intro!: rule_effect_fire same_source_fire intro: rule_effect_quiet)

lemma dns_txt_quiet: "quiet d (d\<lparr>td_dns_txt := m\<rparr>)"
  by (simp add: quiet_def)

lemma dns_txt_same: "src \<noteq> src' \<Longrightarrow> same_source src d (d\<lparr>td_dns_txt := umap_put src' e (td_dns_txt d)\<rparr>)"
  by (simp add: same_source_def um.find_put)

interpretation dns_rule: alert_rule run_dns DNS_TUNNELING
  by unfold_locales
    (auto simp: run_dns_def check_dns_tunneling_def check_dns_txt_def Let_def dns_txt_quiet dns_txt_same
       intro!: rule_effect_fire same_source_fire intro: rule_effect_quiet
       split: option.splits prod.splits)

lemma exfil_quiet: "quiet d (d\<lparr>td_exfil := m\<rparr>)"
  by (simp add: quiet_def)

lemma exfil_same: "src \<noteq> src' \<Longrightarrow> same_source src d (d\<lparr>td_exfil := umap_put src' e (td_exfil d)\<rparr>)"
  by (simp add: same_source_def um.find_put)

interpretation exfil_rule: alert_rule run_exfil DATA_EXFILTRATION
  by unfold_locales
    (auto simp: run_exfil_def check_data_exfiltration_def Let_def exfil_quiet exfil_same
       intro!: rule_effect_fire same_source_fire intro: rule_effect_quiet
       split: option.splits prod.splits)

section \<open>The whole of inspect\<close>

text \<open>
  What all six rules keep, \<open>inspect\<close> keeps: the rules are composed in the order of the code.
\<close>

definition inspect_rules :: "clocks \<Rightarrow> packet_info \<Rightarrow> ns \<Rightarrow> detector \<Rightarrow> detector" where
  "inspect_rules ck info now d =
     run_exfil ck info now (run_dns ck info now (run_brute_force ck info now
       (run_port_scan ck info now (run_syn_flood ck info now (run_ewma ck info now d)))))"

lemma inspect_eq:
  "inspect ck info now d =
     (if \<not> valid info \<or> src_ip info = [] then d else inspect_rules ck info now d)"
  by (simp add: inspect_def inspect_rules_def)

lemma inspect_config: "td_config (inspect ck info now d) = td_config d"
  by (simp add: inspect_eq inspect_rules_def ewma_rule.config syn_rule.config scan_rule.config
      brute_rule.config dns_rule.config exfil_rule.config)

lemma inspect_sup_inv: "sup_inv now d \<Longrightarrow> sup_inv now (inspect ck info now d)"
  by (simp add: inspect_eq inspect_rules_def ewma_rule.keeps_sup_inv syn_rule.keeps_sup_inv
      scan_rule.keeps_sup_inv brute_rule.keeps_sup_inv dns_rule.keeps_sup_inv
      exfil_rule.keeps_sup_inv)

lemma inspect_isolated:
  assumes "src \<noteq> src_ip info"
  shows "same_source src d (inspect ck info now d)"
proof -
  note same_source_trans [trans]
  have "same_source src d (run_ewma ck info now d)" by (rule ewma_rule.isolated [OF assms])
  also have "same_source src \<dots> (run_syn_flood ck info now \<dots>)" by (rule syn_rule.isolated [OF assms])
  also have "same_source src \<dots> (run_port_scan ck info now \<dots>)" by (rule scan_rule.isolated [OF assms])
  also have "same_source src \<dots> (run_brute_force ck info now \<dots>)" by (rule brute_rule.isolated [OF assms])
  also have "same_source src \<dots> (run_dns ck info now \<dots>)" by (rule dns_rule.isolated [OF assms])
  also have "same_source src \<dots> (run_exfil ck info now \<dots>)" by (rule exfil_rule.isolated [OF assms])
  finally show ?thesis by (simp add: inspect_eq inspect_rules_def)
qed

text \<open>The log grows by alerts of the packet's source, at most one of each kind.\<close>

definition grows_by :: "string \<Rightarrow> ns \<Rightarrow> attack_type list \<Rightarrow> detector \<Rightarrow> detector \<Rightarrow> bool" where
  "grows_by src now kinds d d' \<longleftrightarrow>
     (\<exists>new. td_fired d' = td_fired d @ new \<and>
        (\<forall>(t, a) \<in> set new. t = now \<and> al_src_ip a = src) \<and>
        distinct (map (\<lambda>(t, a). al_attack_type a) new) \<and>
        set (map (\<lambda>(t, a). al_attack_type a) new) \<subseteq> set kinds \<and>
        td_total_fired d' = td_total_fired d + of_nat (length new))"

lemma grows_by_rule:
  assumes "td_fired d' = td_fired d @ new" "length new \<le> 1"
    and "\<forall>(t, a) \<in> set new. t = now \<and> al_src_ip a = src \<and> al_attack_type a = kind"
    and "td_total_fired d' = td_total_fired d + of_nat (length new)"
  shows "grows_by src now [kind] d d'"
  unfolding grows_by_def using assms
  by (intro exI [of _ new]) (cases new; auto)

lemma grows_by_trans:
  assumes "grows_by src now ks d d'" "grows_by src now ks' d' d''" "set ks \<inter> set ks' = {}"
  shows "grows_by src now (ks @ ks') d d''"
proof -
  obtain n1 where n1: "td_fired d' = td_fired d @ n1" "\<forall>(t, a) \<in> set n1. t = now \<and> al_src_ip a = src"
    "distinct (map (\<lambda>(t, a). al_attack_type a) n1)"
    "set (map (\<lambda>(t, a). al_attack_type a) n1) \<subseteq> set ks"
    "td_total_fired d' = td_total_fired d + of_nat (length n1)"
    using assms(1) unfolding grows_by_def by blast
  obtain n2 where n2: "td_fired d'' = td_fired d' @ n2" "\<forall>(t, a) \<in> set n2. t = now \<and> al_src_ip a = src"
    "distinct (map (\<lambda>(t, a). al_attack_type a) n2)"
    "set (map (\<lambda>(t, a). al_attack_type a) n2) \<subseteq> set ks'"
    "td_total_fired d'' = td_total_fired d' + of_nat (length n2)"
    using assms(2) unfolding grows_by_def by blast
  have disj: "set (map (\<lambda>(t, a). al_attack_type a) n1) \<inter> set (map (\<lambda>(t, a). al_attack_type a) n2) = {}"
    using n1(4) n2(4) assms(3) by blast
  show ?thesis
    unfolding grows_by_def
    by (rule exI [of _ "n1 @ n2"])
      (use n1 n2 disj in \<open>simp only: append_assoc map_append set_append distinct_append length_append
         of_nat_add add.assoc Un_mono ball_Un; simp\<close>)
qed

context alert_rule
begin

lemma grows: "grows_by (src_ip info) now [kind] d (rule ck info now d)"
  using log_cases [of ck info now d] grows_by_rule by blast

end

lemma inspect_grows:
  "grows_by (src_ip info) now
     [VOLUME_ANOMALY, SYN_FLOOD, PORT_SCAN, BRUTE_FORCE, DNS_TUNNELING, DATA_EXFILTRATION]
     d (inspect ck info now d)"
proof (cases "\<not> valid info \<or> src_ip info = []")
  case True
  then show ?thesis by (auto simp: inspect_eq grows_by_def)
next
  case False
  define d1 where "d1 = run_ewma ck info now d"
  define d2 where "d2 = run_syn_flood ck info now d1"
  define d3 where "d3 = run_port_scan ck info now d2"
  define d4 where "d4 = run_brute_force ck info now d3"
  define d5 where "d5 = run_dns ck info now d4"
  have "grows_by (src_ip info) now [VOLUME_ANOMALY] d d1"
    unfolding d1_def by (rule ewma_rule.grows)
  from grows_by_trans [OF this syn_rule.grows]
  have "grows_by (src_ip info) now [VOLUME_ANOMALY, SYN_FLOOD] d d2" by (simp add: d2_def)
  from grows_by_trans [OF this scan_rule.grows]
  have "grows_by (src_ip info) now [VOLUME_ANOMALY, SYN_FLOOD, PORT_SCAN] d d3" by (simp add: d3_def)
  from grows_by_trans [OF this brute_rule.grows]
  have "grows_by (src_ip info) now [VOLUME_ANOMALY, SYN_FLOOD, PORT_SCAN, BRUTE_FORCE] d d4"
    by (simp add: d4_def)
  from grows_by_trans [OF this dns_rule.grows]
  have "grows_by (src_ip info) now
     [VOLUME_ANOMALY, SYN_FLOOD, PORT_SCAN, BRUTE_FORCE, DNS_TUNNELING] d d5"
    by (simp add: d5_def)
  from grows_by_trans [OF this exfil_rule.grows]
  have "grows_by (src_ip info) now
     [VOLUME_ANOMALY, SYN_FLOOD, PORT_SCAN, BRUTE_FORCE, DNS_TUNNELING, DATA_EXFILTRATION]
     d (inspect_rules ck info now d)"
    by (simp add: inspect_rules_def d1_def d2_def d3_def d4_def d5_def)
  then show ?thesis using False by (simp add: inspect_eq)
qed

section \<open>Runs\<close>

datatype td_event = Inspect clocks packet_info ns | Evict ns ns

fun event_time :: "td_event \<Rightarrow> ns" where
  "event_time (Inspect ck info now) = now"
| "event_time (Evict clk now) = now"

fun td_step :: "td_event \<Rightarrow> detector \<Rightarrow> detector" where
  "td_step (Inspect ck info now) d = inspect ck info now d"
| "td_step (Evict clk now) d = evict_stale_state clk now d"

fun td_run :: "td_event list \<Rightarrow> detector \<Rightarrow> detector" where
  "td_run [] d = d"
| "td_run (e # es) d = td_run es (td_step e d)"

lemma evict_quiet: "quiet d (evict_stale_state clk now d)"
  by (simp add: quiet_def evict_stale_state_def)

lemma td_step_sup_inv: "sup_inv (event_time e) d \<Longrightarrow> sup_inv (event_time e) (td_step e d)"
  by (cases e) (auto intro: inspect_sup_inv sup_inv_quiet [OF evict_quiet])

lemma td_step_config: "td_config (td_step e d) = td_config d"
  by (cases e) (simp_all add: inspect_config evict_stale_state_def)

lemma td_run_config: "td_config (td_run es d) = td_config d"
  by (induction es d rule: td_run.induct) (simp_all add: td_step_config)

lemma td_run_sup_inv:
  assumes "sup_inv t0 d" "sorted (t0 # map event_time es)"
  shows "\<exists>t. sup_inv t (td_run es d)"
  using assms
proof (induction es d arbitrary: t0 rule: td_run.induct)
  case (2 e es d)
  then have "sup_inv (event_time e) d" by (auto intro: sup_inv_mono)
  then have "sup_inv (event_time e) (td_step e d)" by (rule td_step_sup_inv)
  moreover have "sorted (event_time e # map event_time es)" using 2(3) by simp
  ultimately show ?case using 2(1) by simp
qed auto

lemma sup_inv_new: "sup_inv t (new_detector cfg)"
  by (simp add: sup_inv_def new_detector_def spaced_def last_fired_def)

lemma td_run_total:
  "\<exists>new. td_fired (td_run es d) = td_fired d @ new \<and>
     td_total_fired (td_run es d) = td_total_fired d + of_nat (length new)"
proof (induction es d rule: td_run.induct)
  case (2 e es d)
  have "\<exists>n. td_fired (td_step e d) = td_fired d @ n \<and>
      td_total_fired (td_step e d) = td_total_fired d + of_nat (length n)"
  proof (cases e)
    case (Inspect ck info now)
    then show ?thesis using inspect_grows [of info now d ck] by (auto simp: grows_by_def)
  next
    case (Evict clk now)
    then show ?thesis using evict_quiet [of d clk now] by (auto simp: quiet_def)
  qed
  then show ?case using 2 by (fastforce simp: algebra_simps)
qed auto

section \<open>Properties of the rules\<close>
lemma td_step_other_source:
  assumes "case e of Inspect ck info now \<Rightarrow> src_ip info \<noteq> src | Evict clk now \<Rightarrow> False"
  shows "same_source src d (td_step e d) \<and>
    filter (\<lambda>(t, a). al_src_ip a = src) (td_fired (td_step e d)) = filter (\<lambda>(t, a). al_src_ip a = src) (td_fired d)"
proof (cases e)
  case (Inspect ck info now)
  obtain new where new: "td_fired (inspect ck info now d) = td_fired d @ new"
    "\<forall>(t, a) \<in> set new. t = now \<and> al_src_ip a = src_ip info"
    using inspect_grows [of info now d ck] unfolding grows_by_def by blast
  have "filter (\<lambda>(t, a). al_src_ip a = src) new = []"
    using new(2) assms Inspect by (auto simp: filter_empty_conv)
  then show ?thesis using Inspect new(1) assms inspect_isolated by simp
qed (use assms in simp)

text \<open>
  Claim C2. Alert suppression: over any run of the detector whose events are in time order, the alerts are fired
  in time order, and two alerts for one source and one attack type are never less than the
  configured suppression window apart.
\<close>

theorem alert_spacing:
  assumes "sorted (map event_time es)"
  shows "spaced (alert_suppression_sec (delivery cfg)) (td_fired (td_run es (new_detector cfg)))"
proof -
  define t0 where "t0 = (case es of [] \<Rightarrow> 0 | e # _ \<Rightarrow> event_time e)"
  have "sorted (t0 # map event_time es)" using assms by (cases es) (simp_all add: t0_def)
  from td_run_sup_inv [OF sup_inv_new this, of cfg]
  obtain t where "sup_inv t (td_run es (new_detector cfg))" by blast
  then show ?thesis
    by (simp add: sup_inv_def suppression_sec_def td_run_config new_detector_def)
qed

definition sample_clocks :: clocks where
  "sample_clocks = \<lparr> ck_ewma = 0, ck_syn = 0, ck_scan = 0, ck_port = 0, ck_stamp = (\<lambda>_. []), ck_alert = (\<lambda>_. 0) \<rparr>"

definition sample_tcp_packet :: "string \<Rightarrow> packet_info" where
  "sample_tcp_packet src = empty_info\<lparr> valid := True, src_ip := src, l4_proto := L4_TCP, dst_port := 22 \<rparr>"

lemma alert_spacing_witness:
  "spaced 5 (td_fired (td_run [Inspect sample_clocks (sample_tcp_packet ''10.0.0.1'') 0,
     Inspect sample_clocks (sample_tcp_packet ''10.0.0.1'') 2000000000] (new_detector default_config)))"
  using alert_spacing [of "[Inspect sample_clocks (sample_tcp_packet ''10.0.0.1'') 0,
     Inspect sample_clocks (sample_tcp_packet ''10.0.0.1'') 2000000000]" default_config]
  by (simp add: default_config_def default_delivery_def)

text \<open>
  The counter \<open>total_fired\<close> is the number of alerts fired, modulo \<open>2 ^ 64\<close>, after every run.
\<close>

theorem alert_total:
  "td_total_fired (td_run es (new_detector cfg)) = of_nat (length (td_fired (td_run es (new_detector cfg))))"
  using td_run_total [of es "new_detector cfg"] by (auto simp: new_detector_def)

text \<open>
  Sources do not disturb each other: packets of other sources, however many, leave the baselines,
  windows and suppression entries of a source as they are, and fire no alert for it.
\<close>

theorem source_isolation:
  assumes "list_all (\<lambda>e. case e of Inspect ck info now \<Rightarrow> src_ip info \<noteq> src | Evict clk now \<Rightarrow> False) es"
  shows "same_source src d (td_run es d) \<and>
    filter (\<lambda>(t, a). al_src_ip a = src) (td_fired (td_run es d)) = filter (\<lambda>(t, a). al_src_ip a = src) (td_fired d)"
  using assms
proof (induction es d rule: td_run.induct)
  case (2 e es d)
  then show ?case using td_step_other_source [where e = e and src = src and d = d] same_source_trans by fastforce
qed simp

lemma source_isolation_witness:
  "same_source ''10.0.0.2'' (new_detector default_config)
     (td_run [Inspect sample_clocks (sample_tcp_packet ''10.0.0.1'') 0] (new_detector default_config))"
  using source_isolation [where src = "''10.0.0.2''" and es = "[Inspect sample_clocks (sample_tcp_packet ''10.0.0.1'') 0]"
      and d = "new_detector default_config"]
  by (simp add: sample_tcp_packet_def)

text \<open>
  One packet fires at most one alert of each attack type; all of them are for the packet's source
  and carry the time of the call, and the log is only ever extended.
\<close>

theorem one_alert_per_type:
  "\<exists>new. td_fired (inspect ck info now d) = td_fired d @ new \<and>
     set (map (\<lambda>(t, a). (t, al_src_ip a)) new) \<subseteq> {(now, src_ip info)} \<and>
     distinct (map (\<lambda>(t, a). al_attack_type a) new) \<and> length new \<le> 6"
proof -
  let ?kinds = "[VOLUME_ANOMALY, SYN_FLOOD, PORT_SCAN, BRUTE_FORCE, DNS_TUNNELING, DATA_EXFILTRATION]"
  obtain new where new: "td_fired (inspect ck info now d) = td_fired d @ new"
    "\<forall>(t, a) \<in> set new. t = now \<and> al_src_ip a = src_ip info"
    "distinct (map (\<lambda>(t, a). al_attack_type a) new)"
    "set (map (\<lambda>(t, a). al_attack_type a) new) \<subseteq> set ?kinds"
    using inspect_grows [of info now d ck] unfolding grows_by_def by blast
  have "length (map (\<lambda>(t, a). al_attack_type a) new) = card (set (map (\<lambda>(t, a). al_attack_type a) new))"
    using distinct_card [OF new(3)] by simp
  also have "\<dots> \<le> card (set ?kinds)" by (rule card_mono [OF finite_set new(4)])
  also have "\<dots> \<le> 6" using card_length [of ?kinds] by simp
  finally show ?thesis using new by (intro exI [of _ new]) auto
qed

end
