(* ===== verification/Isolation.thy ===== *)
theory Isolation
  imports AlertRules
begin

text \<open>
  What the detector does for one source depends on that source's packets alone. Two detectors
  \<open>agree\<close> on a source when they hold the same state for it and have fired the same alerts for it;
  the locale \<open>source_local\<close> adds to the contract \<open>alert_rule\<close> that a rule keeps this relation, the
  six rules are its interpretations, and a run of the detector is shown equivalent, for every
  source, to the run that sees only the source's own packets and the evictions.
\<close>

section \<open>Two detectors seen from one source\<close>

definition own_alerts :: "string \<Rightarrow> detector \<Rightarrow> (ns \<times> threat_alert) list" where
  "own_alerts src d = filter (\<lambda>(t, a). al_src_ip a = src) (td_fired d)"

definition agree :: "string \<Rightarrow> detector \<Rightarrow> detector \<Rightarrow> bool" where
  "agree src d d' \<longleftrightarrow> same_source src d d' \<and> td_config d' = td_config d \<and>
     own_alerts src d' = own_alerts src d"

lemma agree_refl [simp]: "agree src d d"
  by (simp add: agree_def)

lemma agree_trans: "agree src d d' \<Longrightarrow> agree src d' d'' \<Longrightarrow> agree src d d''"
  by (auto simp: agree_def intro: same_source_trans)

lemma agree_suppressed: "agree src d d' \<Longrightarrow> is_suppressed d' src type now = is_suppressed d src type now"
  by (auto simp: agree_def same_source_def is_suppressed_def split: option.splits)

lemma agree_fire: "agree src d d' \<Longrightarrow> agree src (fire a now d) (fire a now d')"
  by (auto simp: agree_def same_source_def own_alerts_def fire_def record_suppression_def Let_def
      um.find_put)

text \<open>The tables that \<open>evict_stale_state\<close> walks over hold each key once.\<close>

definition tables_wf :: "detector \<Rightarrow> bool" where
  "tables_wf d \<longleftrightarrow> umap_wf (td_ewma d) \<and> umap_wf (td_scan d) \<and> umap_wf (td_syn d)"

lemma tables_wf_fire [simp]: "tables_wf (fire a now d) = tables_wf d"
  by (simp add: tables_wf_def fire_def record_suppression_def Let_def)

lemma tables_wf_put:
  assumes "tables_wf d"
  shows "tables_wf (d\<lparr>td_ewma := umap_put src p (td_ewma d)\<rparr>)"
    and "tables_wf (d\<lparr>td_scan := umap_put src q (td_scan d)\<rparr>)"
    and "tables_wf (d\<lparr>td_syn := umap_put src r (td_syn d)\<rparr>)"
  using assms by (simp_all add: tables_wf_def um.wf_put)

section \<open>The contract\<close>

locale source_local = alert_rule +
  assumes congruent: "agree (src_ip info) d d' \<Longrightarrow>
      agree (src_ip info) (rule ck info now d) (rule ck info now d')"
    and keeps_tables: "tables_wf d \<Longrightarrow> tables_wf (rule ck info now d)"
begin

lemma other_agree: "src \<noteq> src_ip info \<Longrightarrow> agree src d (rule ck info now d)"
  using log_cases [of ck info now d] isolated [of src info d ck now] config [of ck info now d]
  by (fastforce simp: agree_def own_alerts_def filter_empty_conv)

lemma keeps_agree:
  assumes "agree src d d'"
  shows "agree src (rule ck info now d) (rule ck info now d')"
proof (cases "src = src_ip info")
  case False
  have sym: "agree src d x \<Longrightarrow> agree src x d" for x by (simp add: agree_def same_source_def)
  show ?thesis
    using agree_trans [OF sym [OF other_agree [OF False]] agree_trans [OF assms other_agree [OF False]]] .
qed (use assms congruent in simp)

end

section \<open>The six rules\<close>

lemma agree_set_ewma:
  "agree src d d' \<Longrightarrow> agree src (d\<lparr>td_ewma := umap_put src p (td_ewma d)\<rparr>) (d'\<lparr>td_ewma := umap_put src p (td_ewma d')\<rparr>)"
  by (simp add: agree_def same_source_def own_alerts_def um.find_put)

lemma agree_set_scan:
  "agree src d d' \<Longrightarrow> agree src (d\<lparr>td_scan := umap_put src p (td_scan d)\<rparr>) (d'\<lparr>td_scan := umap_put src p (td_scan d')\<rparr>)"
  by (simp add: agree_def same_source_def own_alerts_def um.find_put)

lemma agree_set_syn:
  "agree src d d' \<Longrightarrow> agree src (d\<lparr>td_syn := umap_put src p (td_syn d)\<rparr>) (d'\<lparr>td_syn := umap_put src p (td_syn d')\<rparr>)"
  by (simp add: agree_def same_source_def own_alerts_def um.find_put)

lemma agree_set_exfil:
  "agree src d d' \<Longrightarrow> agree src (d\<lparr>td_exfil := umap_put src p (td_exfil d)\<rparr>) (d'\<lparr>td_exfil := umap_put src p (td_exfil d')\<rparr>)"
  by (simp add: agree_def same_source_def own_alerts_def um.find_put)

lemma agree_set_txt:
  "agree src d d' \<Longrightarrow> agree src (d\<lparr>td_dns_txt := umap_put src p (td_dns_txt d)\<rparr>) (d'\<lparr>td_dns_txt := umap_put src p (td_dns_txt d')\<rparr>)"
  by (simp add: agree_def same_source_def own_alerts_def um.find_put)

lemma agree_brute_store:
  "agree (src_ip info) d d' \<Longrightarrow> agree (src_ip info) (brute_store info w d) (brute_store info w d')"
  by (simp add: agree_def same_source_def own_alerts_def um.find_put brute_store_def Let_def)

text \<open>Every branch of a rule reads the state only through these values.\<close>

lemma agree_reads:
  assumes "agree src d d'"
  shows "td_config d' = td_config d"
    and "ewma_get_or_create clk src (td_ewma d') = ewma_get_or_create clk src (td_ewma d)"
    and "scan_get_or_create clk src (td_scan d') = scan_get_or_create clk src (td_scan d)"
    and "syn_get_or_create clk src (td_syn d') = syn_get_or_create clk src (td_syn d)"
    and "rate_entry (td_exfil d') src = rate_entry (td_exfil d) src"
    and "rate_entry (td_dns_txt d') src = rate_entry (td_dns_txt d) src"
    and "umap_find (td_brute d') src = umap_find (td_brute d) src"
  using assms
  by (simp_all add: agree_def same_source_def ewma_get_or_create_def scan_get_or_create_def
      syn_get_or_create_def rate_entry_def)

interpretation ewma_local: source_local run_ewma VOLUME_ANOMALY
proof unfold_locales
  fix ck :: clocks and info :: packet_info and now and d d' :: detector
  show "tables_wf d \<Longrightarrow> tables_wf (run_ewma ck info now d)"
    by (simp add: run_ewma_def ewma_update_def handle_ewma_anomaly_def Let_def tables_wf_put split: prod.split option.split)
  assume a: "agree (src_ip info) d d'"
  obtain p r where s: "ewma_step (ewma (td_config d)) (ucast (ip_total_length info)) now
      (ewma_get_or_create (ck_ewma ck) (src_ip info) (td_ewma d)) = (p, r)" by fastforce
  note st = agree_set_ewma [OF a, of p]
  show "agree (src_ip info) (run_ewma ck info now d) (run_ewma ck info now d')"
    using st agree_suppressed [OF st] agree_fire [OF st]
    by (auto simp: run_ewma_def ewma_update_def agree_reads [OF a] s handle_ewma_anomaly_def Let_def
        split: option.splits)
qed

interpretation syn_local: source_local run_syn_flood SYN_FLOOD
proof unfold_locales
  fix ck :: clocks and info :: packet_info and now and d d' :: detector
  show "tables_wf d \<Longrightarrow> tables_wf (run_syn_flood ck info now d)"
    by (simp add: run_syn_flood_def syn_inspect_def handle_syn_flood_def Let_def tables_wf_put split: prod.split option.split)
  assume a: "agree (src_ip info) d d'"
  obtain p r where s: "syn_step (syn_flood (td_config d)) (tcp_flags info) now
      (syn_get_or_create (ck_syn ck) (src_ip info) (td_syn d)) = (p, r)" by fastforce
  note st = agree_set_syn [OF a, of p]
  show "agree (src_ip info) (run_syn_flood ck info now d) (run_syn_flood ck info now d')"
    using a st agree_suppressed [OF st] agree_fire [OF st]
    by (auto simp: run_syn_flood_def syn_inspect_def agree_reads [OF a] s handle_syn_flood_def Let_def
        split: option.splits)
qed

interpretation scan_local: source_local run_port_scan PORT_SCAN
proof unfold_locales
  fix ck :: clocks and info :: packet_info and now and d d' :: detector
  show "tables_wf d \<Longrightarrow> tables_wf (run_port_scan ck info now d)"
    by (simp add: run_port_scan_def scan_inspect_def handle_port_scan_def Let_def tables_wf_put split: prod.split option.split)
  assume a: "agree (src_ip info) d d'"
  obtain p r where s: "scan_step (port_scan (td_config d)) (dst_port info)
      (if l4_proto info = L4_TCP then tcp_flags info else 0) now
      (scan_get_or_create (ck_scan ck) (src_ip info) (td_scan d)) = (p, r)" by fastforce
  note st = agree_set_scan [OF a, of p]
  show "agree (src_ip info) (run_port_scan ck info now d) (run_port_scan ck info now d')"
    using a st agree_suppressed [OF st] agree_fire [OF st]
    by (auto simp: run_port_scan_def scan_inspect_def agree_reads [OF a] s handle_port_scan_def Let_def
        split: option.splits)
qed

lemma tables_wf_other [simp]:
  "tables_wf (brute_store info w d) = tables_wf d"
  "tables_wf (d\<lparr>td_dns_txt := m\<rparr>) = tables_wf d"
  "tables_wf (d\<lparr>td_exfil := m\<rparr>) = tables_wf d"
  by (simp_all add: tables_wf_def brute_store_def Let_def)

interpretation brute_local: source_local run_brute_force BRUTE_FORCE
proof unfold_locales
  fix ck :: clocks and info :: packet_info and now and d d' :: detector
  show "tables_wf d \<Longrightarrow> tables_wf (run_brute_force ck info now d)"
    by (simp add: run_brute_force_def check_brute_force_def Let_def)
  assume a: "agree (src_ip info) d d'"
  have w: "brute_window ck info d' = brute_window ck info d"
    by (simp add: brute_window_def agree_reads [OF a])
  note st = agree_brute_store [OF a]
  show "agree (src_ip info) (run_brute_force ck info now d) (run_brute_force ck info now d')"
    using a by (simp add: run_brute_force_def check_brute_force_def is_sensitive_port_def Let_def w
        agree_reads [OF a] st agree_suppressed [OF st] agree_fire)
qed

interpretation dns_local: source_local run_dns DNS_TUNNELING
proof unfold_locales
  fix ck :: clocks and info :: packet_info and now and d d' :: detector
  show "tables_wf d \<Longrightarrow> tables_wf (run_dns ck info now d)"
    by (simp add: run_dns_def check_dns_tunneling_def check_dns_txt_def Let_def
        split: option.split prod.split)
  assume a: "agree (src_ip info) d d'"
  note st = agree_set_txt [OF a]
  show "agree (src_ip info) (run_dns ck info now d) (run_dns ck info now d')"
    using a by (simp add: run_dns_def check_dns_tunneling_def check_dns_txt_def Let_def
        agree_reads [OF a] st agree_suppressed [OF st] agree_suppressed [OF a] agree_fire
        split: option.split prod.split)
qed

interpretation exfil_local: source_local run_exfil DATA_EXFILTRATION
proof unfold_locales
  fix ck :: clocks and info :: packet_info and now and d d' :: detector
  show "tables_wf d \<Longrightarrow> tables_wf (run_exfil ck info now d)"
    by (simp add: run_exfil_def check_data_exfiltration_def Let_def split: prod.split)
  assume a: "agree (src_ip info) d d'"
  note st = agree_set_exfil [OF a]
  show "agree (src_ip info) (run_exfil ck info now d) (run_exfil ck info now d')"
    using a by (simp add: run_exfil_def check_data_exfiltration_def Let_def
        agree_reads [OF a] st agree_suppressed [OF st] agree_fire split: prod.split)
qed

section \<open>Runs\<close>

lemma inspect_keeps_agree: "agree src d d' \<Longrightarrow> agree src (inspect ck info now d) (inspect ck info now d')"
  by (simp add: inspect_eq inspect_rules_def ewma_local.keeps_agree syn_local.keeps_agree
      scan_local.keeps_agree brute_local.keeps_agree dns_local.keeps_agree exfil_local.keeps_agree)

lemma inspect_other_agree:
  assumes "src \<noteq> src_ip info"
  shows "agree src d (inspect ck info now d)"
proof -
  note agree_trans [trans]
  have "agree src d (run_ewma ck info now d)" by (rule ewma_local.other_agree [OF assms])
  also have "agree src \<dots> (run_syn_flood ck info now \<dots>)" by (rule syn_local.other_agree [OF assms])
  also have "agree src \<dots> (run_port_scan ck info now \<dots>)" by (rule scan_local.other_agree [OF assms])
  also have "agree src \<dots> (run_brute_force ck info now \<dots>)" by (rule brute_local.other_agree [OF assms])
  also have "agree src \<dots> (run_dns ck info now \<dots>)" by (rule dns_local.other_agree [OF assms])
  also have "agree src \<dots> (run_exfil ck info now \<dots>)" by (rule exfil_local.other_agree [OF assms])
  finally show ?thesis by (simp add: inspect_eq inspect_rules_def)
qed

lemma inspect_keeps_tables: "tables_wf d \<Longrightarrow> tables_wf (inspect ck info now d)"
  by (simp add: inspect_eq inspect_rules_def ewma_local.keeps_tables syn_local.keeps_tables
      scan_local.keeps_tables brute_local.keeps_tables dns_local.keeps_tables exfil_local.keeps_tables)

lemma evict_keeps_agree:
  "agree src d d' \<Longrightarrow> tables_wf d \<Longrightarrow> tables_wf d' \<Longrightarrow>
   agree src (evict_stale_state clk now d) (evict_stale_state clk now d')"
  by (simp add: agree_def same_source_def own_alerts_def tables_wf_def evict_stale_state_def
      evict_stale_profiles_def scan_evict_stale_def syn_evict_stale_def um.find_erase)

lemma evict_keeps_tables: "tables_wf d \<Longrightarrow> tables_wf (evict_stale_state clk now d)"
  by (simp add: tables_wf_def evict_stale_state_def evict_stale_profiles_def scan_evict_stale_def
      syn_evict_stale_def um.wf_erase)

lemma td_step_keeps_tables: "tables_wf d \<Longrightarrow> tables_wf (td_step e d)"
  by (cases e) (simp_all add: inspect_keeps_tables evict_keeps_tables)

lemma td_step_keeps_agree:
  "agree src d d' \<Longrightarrow> tables_wf d \<Longrightarrow> tables_wf d' \<Longrightarrow> agree src (td_step e d) (td_step e d')"
  by (cases e) (simp_all add: inspect_keeps_agree evict_keeps_agree)

text \<open>The events a source takes part in: its own packets, and the evictions.\<close>

fun concerns :: "string \<Rightarrow> td_event \<Rightarrow> bool" where
  "concerns src (Inspect ck info now) = (src_ip info = src)"
| "concerns src (Evict clk now) = True"

lemma td_step_unconcerned: "\<not> concerns src e \<Longrightarrow> agree src d (td_step e d)"
  by (cases e) (auto intro: inspect_other_agree)

lemma td_run_restrict:
  "agree src d d' \<Longrightarrow> tables_wf d \<Longrightarrow> tables_wf d' \<Longrightarrow>
   agree src (td_run (filter (concerns src) es) d) (td_run es d')"
proof (induction es arbitrary: d d')
  case (Cons e es)
  show ?case
  proof (cases "concerns src e")
    case True
    with Cons.IH [OF td_step_keeps_agree [OF Cons.prems, of e]] Cons.prems show ?thesis
      by (simp add: td_step_keeps_tables)
  next
    case False
    have "agree src d (td_step e d')"
      using agree_trans [OF Cons.prems(1) td_step_unconcerned [OF False]] .
    with Cons.IH [of d "td_step e d'"] Cons.prems False show ?thesis
      by (simp add: td_step_keeps_tables)
  qed
qed simp

text \<open>
  Claim C3. Sources are independent: whatever the traffic, the detector holds for a source the
  state, and has fired for it the alerts, of the detector that saw only this source's packets
  and the evictions. No other source's traffic can hide, delay or cause an alert for it.
\<close>

theorem detector_per_source:
  "agree src (td_run (filter (concerns src) es) (new_detector cfg)) (td_run es (new_detector cfg))"
  by (rule td_run_restrict) (simp_all add: tables_wf_def new_detector_def)

end
