(* ===== verification/RuleLogs.thy ===== *)
theory RuleLogs
  imports Isolation
begin

text \<open>
  The three rules of \<open>ThreatDetector\<close> that keep a one-second rate themselves: brute force per
  source and port, DNS TXT queries and outbound bytes per source. Their tables hold a window
  start and a counter; the specification is the log of what the packets of the window added to
  the counter. The locale \<open>rate_meter\<close> is the contract of such a table, the three tables are its
  interpretations, and the properties say exactly when each rule fires after any traffic, in
  terms of the packets of the window and of the alerts fired before.
\<close>

section \<open>The alerts of one call\<close>

definition new_kinds :: "detector \<Rightarrow> detector \<Rightarrow> attack_type set" where
  "new_kinds d d' = (\<lambda>(t, a). al_attack_type a) ` set (drop (length (td_fired d)) (td_fired d'))"

lemma new_kinds_append: "td_fired d' = td_fired d @ new \<Longrightarrow> new_kinds d d' = (\<lambda>(t, a). al_attack_type a) ` set new"
  by (simp add: new_kinds_def)

lemma new_kinds_trans:
  assumes "td_fired d' = td_fired d @ new" "td_fired d'' = td_fired d' @ new'"
  shows "new_kinds d d'' = new_kinds d d' \<union> new_kinds d' d''"
  using assms by (auto simp: new_kinds_def)

lemma new_kinds_fire: "td_fired d1 = td_fired d \<Longrightarrow> new_kinds d (fire a now d1) = {al_attack_type a}"
  by (simp add: new_kinds_def fire_def record_suppression_def Let_def)

lemma new_kinds_same: "td_fired d1 = td_fired d \<Longrightarrow> new_kinds d d1 = {}"
  by (simp add: new_kinds_def)

context alert_rule
begin

lemma new_kinds_le: "new_kinds d (rule ck info now d) \<subseteq> {kind}"
  using log_cases [of ck info now d] by (auto simp: new_kinds_append)

lemma new_kinds_after:
  assumes "\<exists>new. td_fired d = td_fired d0 @ new"
  shows "(\<exists>new. td_fired (rule ck info now d) = td_fired d0 @ new) \<and>
     new_kinds d0 (rule ck info now d) = new_kinds d0 d \<union> new_kinds d (rule ck info now d)"
  using log_cases [of ck info now d] assms by (auto simp: new_kinds_def)

end

section \<open>Suppression read off the log\<close>

text \<open>Whether an alert of a kind was fired for the source less than \<open>sec\<close> ago.\<close>

definition recent_alert :: "real \<Rightarrow> string \<Rightarrow> attack_type \<Rightarrow> ns \<Rightarrow> (ns \<times> threat_alert) list \<Rightarrow> bool" where
  "recent_alert sec src type now fired =
     list_ex (\<lambda>(t, a). al_src_ip a = src \<and> al_attack_type a = type \<and> seconds (now - t) < sec) fired"

definition logged :: "detector \<Rightarrow> bool" where
  "logged d \<longleftrightarrow> (\<forall>src type t. last_fired d src type = Some t \<longrightarrow>
     (\<exists>a. (t, a) \<in> set (td_fired d) \<and> al_src_ip a = src \<and> al_attack_type a = type))"

lemma logged_quiet: "quiet d d' \<Longrightarrow> logged d \<Longrightarrow> logged d'"
  by (simp add: logged_def quiet_def last_fired_def)

lemma logged_fires:
  assumes "fires_once src type now d d'" "logged d"
  shows "logged d'"
proof -
  have "last_fired d' s y = (if s = src \<and> y = type then Some now else last_fired d s y)" for s y
    using assms(1) last_fired_record [of src type now d s y] by (simp add: fires_once_def last_fired_def)
  then show ?thesis using assms by (fastforce simp: logged_def fires_once_def)
qed

lemma logged_new: "logged (new_detector cfg)"
  by (simp add: logged_def new_detector_def last_fired_def)

context alert_rule
begin

lemma keeps_logged: "logged d \<Longrightarrow> logged (rule ck info now d)"
  using effect [of info now d ck] logged_quiet logged_fires by (auto simp: rule_effect_def)

end

lemma td_run_logged: "logged d \<Longrightarrow> logged (td_run es d)"
proof (induction es d rule: td_run.induct)
  case (2 e es d)
  have "logged (td_step e d)"
    using 2(2) logged_quiet [OF evict_quiet]
    by (cases e) (simp_all add: inspect_eq inspect_rules_def ewma_rule.keeps_logged
        syn_rule.keeps_logged scan_rule.keeps_logged brute_rule.keeps_logged dns_rule.keeps_logged
        exfil_rule.keeps_logged)
  then show ?case using 2(1) by simp
qed simp

lemma suppressed_iff_recent:
  assumes "sup_inv t0 d" "logged d"
  shows "is_suppressed d src type now \<longleftrightarrow> recent_alert (suppression_sec d) src type now (td_fired d)"
proof
  assume "is_suppressed d src type now"
  then show "recent_alert (suppression_sec d) src type now (td_fired d)"
    using assms(2) by (fastforce simp: is_suppressed_iff recent_alert_def list_ex_iff logged_def)
next
  assume "recent_alert (suppression_sec d) src type now (td_fired d)"
  then obtain t a where a: "(t, a) \<in> set (td_fired d)" "al_src_ip a = src" "al_attack_type a = type"
    "seconds (now - t) < suppression_sec d" by (auto simp: recent_alert_def list_ex_iff)
  with assms(1) obtain t' where t': "last_fired d src type = Some t'" "t \<le> t'"
    unfolding sup_inv_def by fastforce
  then have "seconds (now - t') \<le> seconds (now - t)" by (intro seconds_mono) simp
  with a t' show "is_suppressed d src type now" by (auto simp: is_suppressed_iff)
qed

text \<open>The detector after any traffic in time order.\<close>

lemma td_run_suppressed:
  assumes "sorted (map event_time es)"
  shows "is_suppressed (td_run es (new_detector cfg)) src type now \<longleftrightarrow>
    recent_alert (alert_suppression_sec (delivery cfg)) src type now (td_fired (td_run es (new_detector cfg)))"
proof -
  have "sorted ((case es of [] \<Rightarrow> 0 | e # _ \<Rightarrow> event_time e) # map event_time es)"
    using assms by (cases es) simp_all
  from td_run_sup_inv [OF sup_inv_new this, of cfg]
  obtain t where "sup_inv t (td_run es (new_detector cfg))" by blast
  from suppressed_iff_recent [OF this td_run_logged [OF logged_new]] show ?thesis
    by (simp add: suppression_sec_def td_run_config new_detector_def)
qed

section \<open>The log of a meter\<close>

text \<open>
  A window of a meter: its start, and what each packet of the window added. \<open>keep\<close> tells whether
  the packet that closes a window is the first of the next one (brute force, TXT) or the last of
  the closed one (exfiltration).
\<close>

type_synonym meter_window = "ns \<times> nat list"

definition window_step :: "bool \<Rightarrow> nat \<Rightarrow> ns \<Rightarrow> meter_window \<Rightarrow> meter_window" where
  "window_step keep w now s =
     (if seconds (now - fst s) < 1 then (fst s, snd s @ [w]) else (now, if keep then [w] else []))"

definition window_cell :: "meter_window \<Rightarrow> ns \<times> u64" where
  "window_cell s = (fst s, of_nat (sum_list (snd s)))"

lemma of_nat_cell: "n < 2 ^ 64 \<Longrightarrow> unat (of_nat n :: u64) = n"
  by (simp add: unsigned_of_nat take_bit_nat_eq_self)

record 'k meter =
  m_feeds :: "config \<Rightarrow> 'k \<Rightarrow> packet_info \<Rightarrow> bool"
  m_regular :: "config \<Rightarrow> packet_info \<Rightarrow> bool"
  m_fresh :: "clocks \<Rightarrow> ns"
  m_weight :: "packet_info \<Rightarrow> nat"
  m_keep :: bool

text \<open>The window of a cell after a list of events, and the one a packet finds.\<close>

fun meter_step :: "'k meter \<Rightarrow> config \<Rightarrow> 'k \<Rightarrow> td_event \<Rightarrow> meter_window option \<Rightarrow> meter_window option" where
  "meter_step m cfg k (Inspect ck info now) w =
     (if m_feeds m cfg k info
      then Some (window_step (m_keep m) (m_weight m info) now
                  (case w of None \<Rightarrow> (m_fresh m ck, []) | Some s \<Rightarrow> s))
      else w)"
| "meter_step m cfg k (Evict clk now) w = w"

definition window_at :: "'k meter \<Rightarrow> config \<Rightarrow> 'k \<Rightarrow> clocks \<Rightarrow> td_event list \<Rightarrow> meter_window" where
  "window_at m cfg k ck es =
     (case fold (meter_step m cfg k) es None of None \<Rightarrow> (m_fresh m ck, []) | Some s \<Rightarrow> s)"

fun event_weight :: "'k meter \<Rightarrow> td_event \<Rightarrow> nat" where
  "event_weight m (Inspect ck info now) = m_weight m info"
| "event_weight m (Evict clk now) = 0"

fun regular_event :: "'k meter \<Rightarrow> config \<Rightarrow> td_event \<Rightarrow> bool" where
  "regular_event m cfg (Inspect ck info now) = m_regular m cfg info"
| "regular_event m cfg (Evict clk now) = True"

definition window_sum :: "meter_window option \<Rightarrow> nat" where
  "window_sum w = (case w of None \<Rightarrow> 0 | Some s \<Rightarrow> sum_list (snd s))"

lemma window_step_sum: "sum_list (snd (window_step keep w now s)) \<le> sum_list (snd s) + w"
  by (simp add: window_step_def)

lemma meter_step_sum: "window_sum (meter_step m cfg k e w) \<le> window_sum w + event_weight m e"
  by (cases e) (auto simp: window_sum_def split: option.split intro: order_trans [OF window_step_sum])

lemma meter_fold_sum:
  "window_sum (fold (meter_step m cfg k) es w) \<le> window_sum w + sum_list (map (event_weight m) es)"
proof (induction es arbitrary: w)
  case (Cons e es)
  from Cons [of "meter_step m cfg k e w"] meter_step_sum [of m cfg k e w] show ?case by simp
qed simp

lemma window_at_sum: "sum_list (snd (window_at m cfg k ck es)) \<le> sum_list (map (event_weight m) es)"
  using meter_fold_sum [of m cfg k es None] by (auto simp: window_at_def window_sum_def split: option.splits)

text \<open>
  The contract: the table of a meter is touched by \<open>inspect\<close> alone, only for the packets that feed
  the cell, and then as \<open>window_step\<close> says. \<open>m_regular\<close> excludes the packets for which another branch
  of the rule decides whether they are counted.
\<close>

locale rate_meter =
  fixes cell :: "'k \<Rightarrow> detector \<Rightarrow> (ns \<times> u64) option"
    and m :: "'k meter"
  assumes inspect_fed: "m_feeds m (td_config d) k info \<Longrightarrow> m_regular m (td_config d) info \<Longrightarrow>
      (case cell k d of None \<Rightarrow> (m_fresh m ck, 0) | Some c \<Rightarrow> c) = window_cell s \<Longrightarrow>
      cell k (inspect ck info now d) = Some (window_cell (window_step (m_keep m) (m_weight m info) now s))"
    and inspect_other: "\<not> m_feeds m (td_config d) k info \<Longrightarrow> cell k (inspect ck info now d) = cell k d"
    and evict_other: "cell k (evict_stale_state clk now d) = cell k d"
    and new_cell: "cell k (new_detector cfg) = None"
begin

lemma step_refines:
  assumes "regular_event m (td_config d) e" "cell k d = map_option window_cell w"
  shows "cell k (td_step e d) = map_option window_cell (meter_step m (td_config d) k e w)"
proof (cases e)
  case (Inspect ck info now)
  have "(case cell k d of None \<Rightarrow> (m_fresh m ck, 0) | Some c \<Rightarrow> c) =
      window_cell (case w of None \<Rightarrow> (m_fresh m ck, []) | Some s \<Rightarrow> s)"
    using assms(2) by (simp add: window_cell_def split: option.split)
  then show ?thesis
    using Inspect assms inspect_fed [of d k info] inspect_other [of d k info] by simp
qed (use assms evict_other in simp)

lemma fold_refines:
  "list_all (regular_event m (td_config d)) es \<Longrightarrow> cell k d = map_option window_cell w \<Longrightarrow>
   cell k (td_run es d) = map_option window_cell (fold (meter_step m (td_config d) k) es w)"
proof (induction es d arbitrary: w rule: td_run.induct)
  case (2 e es d)
  then show ?case using step_refines [of d e k w] by (simp add: td_step_config)
qed simp

text \<open>The counter a packet finds is the sum of its window.\<close>

lemma cell_at:
  assumes "list_all (regular_event m cfg) es"
  shows "(case cell k (td_run es (new_detector cfg)) of None \<Rightarrow> (m_fresh m ck, 0) | Some c \<Rightarrow> c) =
    window_cell (window_at m cfg k ck es)"
  using fold_refines [of "new_detector cfg" es k None] assms new_cell
  by (simp add: window_at_def window_cell_def new_detector_def split: option.split)

end

section \<open>The three meters\<close>

definition inspected :: "packet_info \<Rightarrow> bool" where
  "inspected info \<longleftrightarrow> valid info \<and> src_ip info \<noteq> []"

definition brute_meter :: "(string \<times> u16) meter" where
  "brute_meter = \<lparr> m_feeds = (\<lambda>cfg k info. inspected info \<and> k = (src_ip info, dst_port info) \<and>
       dst_port info \<noteq> 0 \<and> list_ex (\<lambda>p. p = dst_port info) (sensitive_ports (brute_force cfg))),
     m_regular = (\<lambda>_ _. True), m_fresh = ck_port, m_weight = (\<lambda>_. 1), m_keep = True \<rparr>"

definition exfil_meter :: "string meter" where
  "exfil_meter = \<lparr> m_feeds = (\<lambda>_ k info. inspected info \<and> k = src_ip info \<and> l7_payload_length info > 0),
     m_regular = (\<lambda>_ _. True), m_fresh = (\<lambda>_. 0), m_weight = l7_payload_length, m_keep = False \<rparr>"

definition txt_query :: "packet_info \<Rightarrow> bool" where
  "txt_query info = (case dns info of None \<Rightarrow> False | Some q \<Rightarrow> query_type q = DNS_QTYPE_TXT)"

definition plain_dns :: "config \<Rightarrow> packet_info \<Rightarrow> bool" where
  "plain_dns cfg info =
     (case dns info of None \<Rightarrow> True | Some q \<Rightarrow> \<not> dns_name_suspicious cfg (query_name q))"

definition txt_meter :: "string meter" where
  "txt_meter = \<lparr> m_feeds = (\<lambda>_ k info. inspected info \<and> k = src_ip info \<and> txt_query info),
     m_regular = plain_dns, m_fresh = (\<lambda>_. 0), m_weight = (\<lambda>_. 1), m_keep = True \<rparr>"

lemma meter_fresh:
  "m_fresh brute_meter = ck_port" "m_fresh exfil_meter = (\<lambda>_. 0)" "m_fresh txt_meter = (\<lambda>_. 0)"
  by (simp_all add: brute_meter_def exfil_meter_def txt_meter_def)

definition brute_cell :: "string \<times> u16 \<Rightarrow> detector \<Rightarrow> (ns \<times> u64) option" where
  "brute_cell k d = (case umap_find (td_brute d) (fst k) of None \<Rightarrow> None
     | Some ports \<Rightarrow> map_option (\<lambda>w. (pw_start w, pw_count w)) (umap_find ports (snd k)))"

definition exfil_cell :: "string \<Rightarrow> detector \<Rightarrow> (ns \<times> u64) option" where
  "exfil_cell k d = umap_find (td_exfil d) k"

definition txt_cell :: "string \<Rightarrow> detector \<Rightarrow> (ns \<times> u64) option" where
  "txt_cell k d = umap_find (td_dns_txt d) k"

text \<open>Each table is written by its own rule only.\<close>

lemma fire_tables [simp]:
  "td_brute (fire a now d) = td_brute d" "td_exfil (fire a now d) = td_exfil d"
  "td_dns_txt (fire a now d) = td_dns_txt d" "td_config (fire a now d) = td_config d"
  by (simp_all add: fire_def record_suppression_def Let_def)

lemmas rate_rule_defs = run_ewma_def handle_ewma_anomaly_def run_syn_flood_def handle_syn_flood_def
  run_port_scan_def handle_port_scan_def run_brute_force_def check_brute_force_def brute_store_def
  run_dns_def check_dns_tunneling_def check_dns_txt_def run_exfil_def check_data_exfiltration_def

lemma tables_ewma:
  "td_brute (run_ewma ck info now d) = td_brute d" "td_exfil (run_ewma ck info now d) = td_exfil d"
  "td_dns_txt (run_ewma ck info now d) = td_dns_txt d"
  by (simp_all add: rate_rule_defs Let_def split: prod.split option.split)

lemma tables_syn:
  "td_brute (run_syn_flood ck info now d) = td_brute d" "td_exfil (run_syn_flood ck info now d) = td_exfil d"
  "td_dns_txt (run_syn_flood ck info now d) = td_dns_txt d"
  by (simp_all add: rate_rule_defs Let_def split: prod.split option.split)

lemma tables_scan:
  "td_brute (run_port_scan ck info now d) = td_brute d" "td_exfil (run_port_scan ck info now d) = td_exfil d"
  "td_dns_txt (run_port_scan ck info now d) = td_dns_txt d"
  by (simp_all add: rate_rule_defs Let_def split: prod.split option.split)

lemma tables_brute:
  "td_exfil (run_brute_force ck info now d) = td_exfil d"
  "td_dns_txt (run_brute_force ck info now d) = td_dns_txt d"
  by (simp_all add: rate_rule_defs Let_def)

lemma tables_dns:
  "td_brute (run_dns ck info now d) = td_brute d" "td_exfil (run_dns ck info now d) = td_exfil d"
  by (simp_all add: rate_rule_defs Let_def split: prod.split option.split)

lemma tables_exfil:
  "td_brute (run_exfil ck info now d) = td_brute d" "td_dns_txt (run_exfil ck info now d) = td_dns_txt d"
  by (simp_all add: rate_rule_defs Let_def split: prod.split option.split)

lemmas other_tables = tables_ewma tables_syn tables_scan tables_brute tables_dns tables_exfil

lemma rules_config:
  "td_config (run_ewma ck info now d) = td_config d" "td_config (run_syn_flood ck info now d) = td_config d"
  "td_config (run_port_scan ck info now d) = td_config d"
  "td_config (run_brute_force ck info now d) = td_config d" "td_config (run_dns ck info now d) = td_config d"
  by (rule ewma_rule.config syn_rule.config scan_rule.config brute_rule.config dns_rule.config)+

lemma brute_window_cell:
  "(pw_start (brute_window ck info d), pw_count (brute_window ck info d)) =
     (case brute_cell (src_ip info, dst_port info) d of None \<Rightarrow> (ck_port ck, 0) | Some c \<Rightarrow> c)"
  by (simp add: brute_window_def brute_cell_def split: option.split)

lemma brute_cell_eqI: "td_brute d' = td_brute d \<Longrightarrow> brute_cell k d' = brute_cell k d"
  by (simp add: brute_cell_def)

lemma brute_window_eqI: "td_brute d' = td_brute d \<Longrightarrow> brute_window ck info d' = brute_window ck info d"
  by (simp add: brute_window_def)

lemma brute_cell_store:
  "brute_cell k (brute_store info w d) =
     (if k = (src_ip info, dst_port info) then Some (pw_start w, pw_count w) else brute_cell k d)"
  by (cases k) (auto simp: brute_cell_def brute_store_def Let_def um.find_put split: option.splits)

lemma run_brute_cell:
  "brute_cell k (run_brute_force ck info now d) =
     (if k = (src_ip info, dst_port info) \<and> dst_port info \<noteq> 0 \<and> is_sensitive_port d (dst_port info)
      then (let w = brute_window ck info d in
        if seconds (now - pw_start w) < 1 then Some (pw_start w, pw_count w + 1) else Some (now, 1))
      else brute_cell k d)"
  by (simp add: run_brute_force_def check_brute_force_def Let_def brute_cell_store
      brute_cell_eqI [OF fire_tables(1)] not_less)

lemma run_brute_cell_cong:
  assumes "td_brute d' = td_brute d" "td_config d' = td_config d"
  shows "brute_cell k (run_brute_force ck info now d') = brute_cell k (run_brute_force ck info now d)"
  using brute_cell_eqI [OF assms(1)] brute_window_eqI [OF assms(1)] assms(2)
  by (simp add: run_brute_cell is_sensitive_port_def)

lemma inspect_brute_cell:
  assumes "inspected info"
  shows "brute_cell k (inspect ck info now d) = brute_cell k (run_brute_force ck info now d)"
proof -
  let ?d3 = "run_port_scan ck info now (run_syn_flood ck info now (run_ewma ck info now d))"
  have "brute_cell k (run_exfil ck info now (run_dns ck info now (run_brute_force ck info now ?d3))) =
      brute_cell k (run_brute_force ck info now ?d3)"
    by (rule brute_cell_eqI) (simp only: tables_exfil tables_dns)
  also have "\<dots> = brute_cell k (run_brute_force ck info now d)"
    by (rule run_brute_cell_cong) (simp_all only: tables_scan tables_syn tables_ewma rules_config)
  finally show ?thesis using assms by (simp add: inspect_eq inspect_rules_def inspected_def)
qed

lemma not_inspected: "\<not> inspected info \<Longrightarrow> inspect ck info now d = d"
  by (auto simp: inspect_eq inspected_def)

lemma cell_Some: "(pw_start w, pw_count w) = window_cell s \<Longrightarrow>
    pw_start w = fst s \<and> pw_count w = of_nat (sum_list (snd s))"
  by (simp add: window_cell_def)

interpretation brute_log: rate_meter brute_cell brute_meter
proof unfold_locales
  fix d :: detector and ck info now s and k :: "string \<times> u16"
  assume f: "m_feeds brute_meter (td_config d) k info"
    and c: "(case brute_cell k d of None \<Rightarrow> (m_fresh brute_meter ck, 0) | Some c \<Rightarrow> c) = window_cell s"
  from f have i: "inspected info" and k: "k = (src_ip info, dst_port info)" and p: "dst_port info \<noteq> 0"
    "is_sensitive_port d (dst_port info)"
    by (simp_all add: brute_meter_def is_sensitive_port_def)
  have w: "pw_start (brute_window ck info d) = fst s"
    "pw_count (brute_window ck info d) = of_nat (sum_list (snd s))"
    using c cell_Some [of "brute_window ck info d" s]
    by (simp_all add: brute_window_cell k brute_meter_def cong del: option.case_cong_weak)
  show "brute_cell k (inspect ck info now d) =
      Some (window_cell (window_step (m_keep brute_meter) (m_weight brute_meter info) now s))"
    unfolding inspect_brute_cell [OF i] run_brute_cell
    using k p by (simp add: Let_def w window_cell_def window_step_def brute_meter_def)
next
  fix d :: detector and ck info now and k :: "string \<times> u16"
  assume "\<not> m_feeds brute_meter (td_config d) k info"
  then show "brute_cell k (inspect ck info now d) = brute_cell k d"
    by (cases "inspected info")
      (auto simp: not_inspected inspect_brute_cell run_brute_cell brute_meter_def is_sensitive_port_def)
next
  fix d :: detector and clk now and k :: "string \<times> u16" and cfg
  show "brute_cell k (evict_stale_state clk now d) = brute_cell k d"
    by (rule brute_cell_eqI) (simp add: evict_stale_state_def)
  show "brute_cell k (new_detector cfg) = None" by (simp add: brute_cell_def new_detector_def)
qed

lemma run_exfil_table:
  "td_exfil (run_exfil ck info now d) =
     (if l7_payload_length info > 0 then
        (let (ws, b) = rate_entry (td_exfil d) (src_ip info) in
         umap_put (src_ip info) (if seconds (now - ws) < 1 then (ws, b + of_nat (l7_payload_length info)) else (now, 0))
           (td_exfil d))
      else td_exfil d)"
  by (simp add: run_exfil_def check_data_exfiltration_def Let_def split: prod.split)

lemma inspect_exfil_table:
  "inspected info \<Longrightarrow> td_exfil (inspect ck info now d) = td_exfil (run_exfil ck info now d)"
  unfolding inspect_eq inspect_rules_def inspected_def by (simp add: run_exfil_table other_tables)

interpretation exfil_log: rate_meter exfil_cell exfil_meter
proof unfold_locales
  fix d :: detector and ck info now s k
  assume f: "m_feeds exfil_meter (td_config d) k info"
    and c: "(case exfil_cell k d of None \<Rightarrow> (m_fresh exfil_meter ck, 0) | Some c \<Rightarrow> c) = window_cell s"
  from f have i: "inspected info" and k: "k = src_ip info" and p: "l7_payload_length info > 0"
    by (simp_all add: exfil_meter_def)
  have e: "rate_entry (td_exfil d) (src_ip info) = (fst s, of_nat (sum_list (snd s)))"
    using c by (simp add: rate_entry_def exfil_cell_def k exfil_meter_def window_cell_def
        cong del: option.case_cong_weak)
  show "exfil_cell k (inspect ck info now d) =
      Some (window_cell (window_step (m_keep exfil_meter) (m_weight exfil_meter info) now s))"
    using k p by (simp add: exfil_cell_def inspect_exfil_table [OF i] run_exfil_table e um.find_put
        window_cell_def window_step_def exfil_meter_def)
next
  fix d :: detector and ck info now k
  assume "\<not> m_feeds exfil_meter (td_config d) k info"
  then show "exfil_cell k (inspect ck info now d) = exfil_cell k d"
    by (cases "inspected info")
      (auto simp: not_inspected exfil_cell_def inspect_exfil_table run_exfil_table um.find_put exfil_meter_def
        split: prod.split)
next
  fix d :: detector and clk now k cfg
  show "exfil_cell k (evict_stale_state clk now d) = exfil_cell k d"
    by (simp add: exfil_cell_def evict_stale_state_def)
  show "exfil_cell k (new_detector cfg) = None" by (simp add: exfil_cell_def new_detector_def)
qed

lemma run_dns_table:
  "plain_dns (td_config d) info \<Longrightarrow> td_dns_txt (run_dns ck info now d) =
     (if txt_query info then
        (let (ws, n) = rate_entry (td_dns_txt d) (src_ip info) in
         umap_put (src_ip info) (if seconds (now - ws) < 1 then (ws, n + 1) else (now, 1)) (td_dns_txt d))
      else td_dns_txt d)"
  by (simp add: run_dns_def check_dns_tunneling_def check_dns_txt_def plain_dns_def txt_query_def Let_def not_less
      split: prod.split option.splits)

lemma run_dns_table_other: "\<not> txt_query info \<Longrightarrow> td_dns_txt (run_dns ck info now d) = td_dns_txt d"
  by (simp add: run_dns_def check_dns_tunneling_def check_dns_txt_def txt_query_def Let_def split: option.splits)

lemma run_dns_table_find:
  "k \<noteq> src_ip info \<Longrightarrow> umap_find (td_dns_txt (run_dns ck info now d)) k = umap_find (td_dns_txt d) k"
  using dns_rule.isolated [of k info d ck now] by (simp add: same_source_def)

lemma inspect_dns_table:
  assumes "inspected info"
  obtains d' where "td_dns_txt (inspect ck info now d) = td_dns_txt (run_dns ck info now d')"
    "td_dns_txt d' = td_dns_txt d" "td_config d' = td_config d"
proof -
  let ?d4 = "run_brute_force ck info now (run_port_scan ck info now
      (run_syn_flood ck info now (run_ewma ck info now d)))"
  have "td_dns_txt (inspect ck info now d) = td_dns_txt (run_dns ck info now ?d4)"
    using assms by (simp add: inspect_eq inspect_rules_def inspected_def tables_exfil)
  moreover have "td_dns_txt ?d4 = td_dns_txt d" by (simp only: other_tables)
  moreover have "td_config ?d4 = td_config d" by (simp only: rules_config)
  ultimately show thesis by (rule that)
qed

interpretation txt_log: rate_meter txt_cell txt_meter
proof unfold_locales
  fix d :: detector and ck info now s k
  assume f: "m_feeds txt_meter (td_config d) k info" and r: "m_regular txt_meter (td_config d) info"
    and c: "(case txt_cell k d of None \<Rightarrow> (m_fresh txt_meter ck, 0) | Some c \<Rightarrow> c) = window_cell s"
  from f r have i: "inspected info" and k: "k = src_ip info" and p: "txt_query info"
    and r': "plain_dns (td_config d) info"
    by (simp_all add: txt_meter_def)
  obtain d' where d': "td_dns_txt (inspect ck info now d) = td_dns_txt (run_dns ck info now d')"
    "td_dns_txt d' = td_dns_txt d" "td_config d' = td_config d"
    using inspect_dns_table [OF i] by blast
  have e: "rate_entry (td_dns_txt d) (src_ip info) = (fst s, of_nat (sum_list (snd s)))"
    using c by (simp add: rate_entry_def txt_cell_def k txt_meter_def window_cell_def
        cong del: option.case_cong_weak)
  show "txt_cell k (inspect ck info now d) =
      Some (window_cell (window_step (m_keep txt_meter) (m_weight txt_meter info) now s))"
    using k p r' by (simp add: txt_cell_def d' run_dns_table e um.find_put window_cell_def
        window_step_def txt_meter_def)
next
  fix d :: detector and ck info now k
  assume n: "\<not> m_feeds txt_meter (td_config d) k info"
  show "txt_cell k (inspect ck info now d) = txt_cell k d"
  proof (cases "inspected info")
    case True
    obtain d' where d': "td_dns_txt (inspect ck info now d) = td_dns_txt (run_dns ck info now d')"
      "td_dns_txt d' = td_dns_txt d" "td_config d' = td_config d"
      using inspect_dns_table [OF True] by blast
    show ?thesis
      using n True run_dns_table_find [of k info ck now d'] run_dns_table_other [of info ck now d']
      by (auto simp: txt_cell_def d' txt_meter_def)
  qed (simp add: not_inspected)
next
  fix d :: detector and clk now k cfg
  show "txt_cell k (evict_stale_state clk now d) = txt_cell k d"
    by (simp add: txt_cell_def evict_stale_state_def)
  show "txt_cell k (new_detector cfg) = None" by (simp add: txt_cell_def new_detector_def)
qed

section \<open>When a rule fires\<close>

text \<open>The closing of a window: it is a second old, and its rate reaches the limit.\<close>

definition rate_reached :: "real \<Rightarrow> ns \<Rightarrow> meter_window \<Rightarrow> bool" where
  "rate_reached limit now s \<longleftrightarrow> 1 \<le> seconds (now - fst s) \<and>
     limit \<le> ddiv (dbl_of_nat (sum_list (snd s))) (seconds (now - fst s))"

text \<open>
  A kind of alert is fired by its own rule, from a state that has the configuration, the rate
  tables and the suppression entries of that kind of the state before the packet.
\<close>

definition same_for :: "attack_type \<Rightarrow> detector \<Rightarrow> detector \<Rightarrow> bool" where
  "same_for kind d d' \<longleftrightarrow> td_config d' = td_config d \<and> (\<forall>s. last_fired d' s kind = last_fired d s kind)"

lemma same_for_suppressed: "same_for kind d d' \<Longrightarrow> is_suppressed d' src kind now = is_suppressed d src kind now"
  by (simp add: same_for_def is_suppressed_iff suppression_sec_def)

context alert_rule
begin

lemma same_for_other: "k \<noteq> kind \<Longrightarrow> same_for k d0 d \<Longrightarrow> same_for k d0 (rule ck info now d)"
  by (simp add: same_for_def config other_kinds)

lemma extends: "\<exists>new. td_fired d = td_fired (d0 :: detector) @ new \<Longrightarrow> \<exists>new. td_fired (rule ck info now d) = td_fired d0 @ new"
  by (rule new_kinds_after [THEN conjunct1])

lemma in_new_kinds:
  assumes "\<exists>new. td_fired d = td_fired d0 @ new"
  shows "k \<in> new_kinds d0 (rule ck info now d) \<longleftrightarrow>
    k \<in> new_kinds d0 d \<or> k = kind \<and> kind \<in> new_kinds d (rule ck info now d)"
  using new_kinds_after [OF assms] new_kinds_le [of d ck info now] by blast

end

lemma same_for_refl [simp]: "same_for k d d"
  by (simp add: same_for_def)

fun rule_of :: "attack_type \<Rightarrow> clocks \<Rightarrow> packet_info \<Rightarrow> ns \<Rightarrow> detector \<Rightarrow> detector" where
  "rule_of UNKNOWN = (\<lambda>ck info now d. d)"
| "rule_of VOLUME_ANOMALY = run_ewma"
| "rule_of SYN_FLOOD = run_syn_flood"
| "rule_of PORT_SCAN = run_port_scan"
| "rule_of BRUTE_FORCE = run_brute_force"
| "rule_of DNS_TUNNELING = run_dns"
| "rule_of DATA_EXFILTRATION = run_exfil"

text \<open>The state in which \<open>inspect\<close> runs the rule of a kind.\<close>

fun before :: "attack_type \<Rightarrow> clocks \<Rightarrow> packet_info \<Rightarrow> ns \<Rightarrow> detector \<Rightarrow> detector" where
  "before UNKNOWN ck info now d = d"
| "before VOLUME_ANOMALY ck info now d = d"
| "before SYN_FLOOD ck info now d = run_ewma ck info now d"
| "before PORT_SCAN ck info now d = run_syn_flood ck info now (run_ewma ck info now d)"
| "before BRUTE_FORCE ck info now d =
     run_port_scan ck info now (run_syn_flood ck info now (run_ewma ck info now d))"
| "before DNS_TUNNELING ck info now d =
     run_brute_force ck info now (run_port_scan ck info now (run_syn_flood ck info now (run_ewma ck info now d)))"
| "before DATA_EXFILTRATION ck info now d =
     run_dns ck info now (run_brute_force ck info now (run_port_scan ck info now
       (run_syn_flood ck info now (run_ewma ck info now d))))"

lemma before_same_for: "same_for kind d (before kind ck info now d)"
  by (cases kind) (simp_all add: ewma_rule.same_for_other syn_rule.same_for_other
      scan_rule.same_for_other brute_rule.same_for_other dns_rule.same_for_other)

lemma before_tables:
  "td_brute (before BRUTE_FORCE ck info now d) = td_brute d"
  "td_dns_txt (before DNS_TUNNELING ck info now d) = td_dns_txt d"
  "td_exfil (before DATA_EXFILTRATION ck info now d) = td_exfil d"
  by (simp_all only: before.simps other_tables)

lemma inspect_new_kinds:
  assumes "inspected info"
  shows "kind \<in> new_kinds d (inspect ck info now d) \<longleftrightarrow>
    kind \<in> new_kinds (before kind ck info now d) (rule_of kind ck info now (before kind ck info now d))"
proof -
  define d1 where "d1 = run_ewma ck info now d"
  define d2 where "d2 = run_syn_flood ck info now d1"
  define d3 where "d3 = run_port_scan ck info now d2"
  define d4 where "d4 = run_brute_force ck info now d3"
  define d5 where "d5 = run_dns ck info now d4"
  define d6 where "d6 = run_exfil ck info now d5"
  note defs = d1_def d2_def d3_def d4_def d5_def d6_def
  have 0: "\<exists>new. td_fired d = td_fired d @ new" by simp
  have 1: "\<exists>new. td_fired d1 = td_fired d @ new" unfolding d1_def by (rule ewma_rule.extends [OF 0])
  have 2: "\<exists>new. td_fired d2 = td_fired d @ new" unfolding d2_def by (rule syn_rule.extends [OF 1])
  have 3: "\<exists>new. td_fired d3 = td_fired d @ new" unfolding d3_def by (rule scan_rule.extends [OF 2])
  have 4: "\<exists>new. td_fired d4 = td_fired d @ new" unfolding d4_def by (rule brute_rule.extends [OF 3])
  have 5: "\<exists>new. td_fired d5 = td_fired d @ new" unfolding d5_def by (rule dns_rule.extends [OF 4])
  note steps = ewma_rule.in_new_kinds [OF 0, of kind ck info now, folded d1_def]
    syn_rule.in_new_kinds [OF 1, of kind ck info now, folded d2_def]
    scan_rule.in_new_kinds [OF 2, of kind ck info now, folded d3_def]
    brute_rule.in_new_kinds [OF 3, of kind ck info now, folded d4_def]
    dns_rule.in_new_kinds [OF 4, of kind ck info now, folded d5_def]
    exfil_rule.in_new_kinds [OF 5, of kind ck info now, folded d6_def]
  have e: "inspect ck info now d = d6"
    using assms by (simp add: inspect_eq inspect_rules_def inspected_def defs)
  have "kind \<in> new_kinds d d6 \<longleftrightarrow> kind \<in> new_kinds (before kind ck info now d)
      (rule_of kind ck info now (before kind ck info now d))"
    using steps by (cases kind) (simp_all add: new_kinds_same defs [symmetric])
  then show ?thesis by (simp only: e)
qed

lemma suppressed_store [simp]:
  "is_suppressed (brute_store info w d) = is_suppressed d"
  "is_suppressed (d\<lparr>td_dns_txt := m\<rparr>) = is_suppressed d"
  "is_suppressed (d\<lparr>td_exfil := m\<rparr>) = is_suppressed d"
  by (auto intro!: quiet_suppressed simp: brute_store_quiet dns_txt_quiet exfil_quiet)

lemma fired_store [simp]: "td_fired (brute_store info w d) = td_fired d"
  by (simp add: brute_store_def Let_def)

lemma run_brute_fires:
  assumes "(pw_start (brute_window ck info d), pw_count (brute_window ck info d)) = window_cell s"
    and "dst_port info \<noteq> 0" "is_sensitive_port d (dst_port info)" "sum_list (snd s) < 2 ^ 64"
  shows "BRUTE_FORCE \<in> new_kinds d (run_brute_force ck info now d) \<longleftrightarrow>
    rate_reached (rate_pps (brute_force (td_config d))) now s \<and> \<not> is_suppressed d (src_ip info) BRUTE_FORCE now"
  using cell_Some [OF assms(1)] of_nat_cell [OF assms(4)] assms(2,3)
  by (auto simp: run_brute_force_def check_brute_force_def Let_def new_kinds_fire new_kinds_same
      rate_reached_def dbl_of_word_def)

lemma run_txt_fires:
  assumes "rate_entry (td_dns_txt d) (src_ip info) = window_cell s"
    and "txt_query info" "plain_dns (td_config d) info" "sum_list (snd s) < 2 ^ 64"
  shows "DNS_TUNNELING \<in> new_kinds d (run_dns ck info now d) \<longleftrightarrow>
    rate_reached (txt_rate_pps (dns_tunneling (td_config d))) now s \<and>
    \<not> is_suppressed d (src_ip info) DNS_TUNNELING now"
  using assms of_nat_cell [OF assms(4)]
  by (auto simp: run_dns_def check_dns_tunneling_def check_dns_txt_def txt_query_def plain_dns_def Let_def
      new_kinds_fire new_kinds_same rate_reached_def dbl_of_word_def window_cell_def split: option.splits)

lemma run_exfil_fires:
  assumes "rate_entry (td_exfil d) (src_ip info) = window_cell s"
    and "0 < l7_payload_length info" "sum_list (snd s) + l7_payload_length info < 2 ^ 64"
  shows "DATA_EXFILTRATION \<in> new_kinds d (run_exfil ck info now d) \<longleftrightarrow>
    rate_reached exfil_medium now (fst s, snd s @ [l7_payload_length info]) \<and>
    \<not> is_suppressed d (src_ip info) DATA_EXFILTRATION now"
  using assms(1,2) of_nat_cell [OF assms(3)]
  by (auto simp: run_exfil_def check_data_exfiltration_def Let_def
      new_kinds_fire new_kinds_same rate_reached_def dbl_of_word_def window_cell_def not_less)

lemma window_length: "sum_list (snd (window_at brute_meter cfg k ck es)) \<le> length es"
    "sum_list (snd (window_at txt_meter cfg k' ck es)) \<le> length es"
proof -
  have b: "sum_list (map (event_weight brute_meter) es) \<le> length es"
    and t: "sum_list (map (event_weight txt_meter) es) \<le> length es"
  proof (induction es)
    case (Cons e es)
    { case 1 then show ?case using Cons by (cases e) (simp_all add: brute_meter_def) }
    { case 2 then show ?case using Cons by (cases e) (simp_all add: txt_meter_def) }
  qed simp_all
  show "sum_list (snd (window_at brute_meter cfg k ck es)) \<le> length es"
    by (rule order_trans [OF window_at_sum b])
  show "sum_list (snd (window_at txt_meter cfg k' ck es)) \<le> length es"
    by (rule order_trans [OF window_at_sum t])
qed

lemma no_evictions [simp]: "list_all (regular_event brute_meter cfg) es" "list_all (regular_event exfil_meter cfg) es"
proof -
  have "regular_event brute_meter cfg e" "regular_event exfil_meter cfg e" for e
    by (cases e; simp add: brute_meter_def exfil_meter_def)+
  then show "list_all (regular_event brute_meter cfg) es" "list_all (regular_event exfil_meter cfg) es"
    by (simp_all add: list_all_iff)
qed

section \<open>A burst and a pause\<close>

definition fired_kinds :: "detector \<Rightarrow> attack_type set" where
  "fired_kinds d = (\<lambda>(t, a). al_attack_type a) ` set (td_fired d)"

lemma td_run_append: "td_run (xs @ ys) d = td_run ys (td_run xs d)"
  by (induction xs d rule: td_run.induct) simp_all

lemma td_step_extends: "\<exists>new. td_fired (td_step e d) = td_fired d @ new"
  using td_run_total [of "[e]" d] by auto

lemma fired_kinds_step: "fired_kinds (td_step e d) = fired_kinds d \<union> new_kinds d (td_step e d)"
  using td_step_extends [of e d] by (auto simp: fired_kinds_def new_kinds_def)

lemma fired_kinds_new [simp]: "fired_kinds (new_detector cfg) = {}"
  by (simp add: fired_kinds_def new_detector_def)

lemma not_recent: "type \<notin> fired_kinds d \<Longrightarrow> \<not> recent_alert sec src type now (td_fired d)"
  by (auto simp: recent_alert_def fired_kinds_def list_ex_iff)

text \<open>\<open>n\<close> packets at one instant stay in the window they open.\<close>

lemma window_burst:
  assumes "m_feeds brute_meter cfg k info"
  shows "fold (meter_step brute_meter cfg k) (replicate n (Inspect ck info (ck_port ck))) (Some (ck_port ck, ws)) =
    Some (ck_port ck, ws @ replicate n 1)"
proof (induction n arbitrary: ws)
  case (Suc n)
  have "meter_step brute_meter cfg k (Inspect ck info (ck_port ck)) (Some (ck_port ck, ws)) =
      Some (ck_port ck, ws @ [1])"
    using assms by (simp add: window_step_def) (simp add: brute_meter_def)
  with Suc [of "ws @ [1]"] show ?case by simp
qed simp

lemma window_at_burst:
  assumes "m_feeds brute_meter cfg k info"
  shows "window_at brute_meter cfg k ck (replicate n (Inspect ck info (ck_port ck))) = (ck_port ck, replicate n 1)"
proof (cases n)
  case (Suc j)
  have "meter_step brute_meter cfg k (Inspect ck info (ck_port ck)) None = Some (ck_port ck, [1])"
    using assms by (simp add: window_step_def meter_fresh) (simp add: brute_meter_def)
  with window_burst [OF assms, of j ck "[1]"] Suc show ?thesis by (simp add: window_at_def)
qed (simp add: window_at_def meter_fresh)

lemma brute_alert_iff:
  assumes "sorted (map event_time es)" "length es < 2 ^ 64" "inspected info" "dst_port info \<noteq> 0"
    and "dst_port info \<in> set (sensitive_ports (brute_force cfg))"
  shows "BRUTE_FORCE \<in> new_kinds (td_run es (new_detector cfg)) (inspect ck info now (td_run es (new_detector cfg))) \<longleftrightarrow>
    rate_reached (rate_pps (brute_force cfg)) now (window_at brute_meter cfg (src_ip info, dst_port info) ck es) \<and>
    \<not> recent_alert (alert_suppression_sec (delivery cfg)) (src_ip info) BRUTE_FORCE now
        (td_fired (td_run es (new_detector cfg)))"
proof -
  define d where "d = td_run es (new_detector cfg)"
  define d' where "d' = before BRUTE_FORCE ck info now d"
  have cfg: "td_config d' = cfg"
    using before_same_for [of BRUTE_FORCE d ck info now]
    by (simp add: same_for_def d'_def d_def td_run_config new_detector_def)
  have "(pw_start (brute_window ck info d'), pw_count (brute_window ck info d')) =
      window_cell (window_at brute_meter cfg (src_ip info, dst_port info) ck es)"
    using brute_log.cell_at [where cfg = cfg and es = es and k = "(src_ip info, dst_port info)" and ck = ck]
      brute_cell_eqI [OF before_tables(1) [of ck info now d]]
    by (simp add: brute_window_cell d'_def d_def meter_fresh cong del: option.case_cong_weak)
  from run_brute_fires [OF this, of now] show ?thesis
    using assms cfg window_length(1) [of cfg "(src_ip info, dst_port info)" ck es]
      same_for_suppressed [OF before_same_for [of BRUTE_FORCE d ck info now]]
      td_run_suppressed [OF assms(1), of cfg "src_ip info" BRUTE_FORCE now]
    by (simp add: inspect_new_kinds is_sensitive_port_def list_ex_iff d'_def d_def)
qed

lemma brute_burst_quiet:
  assumes "inspected info" "dst_port info \<noteq> 0" "dst_port info \<in> set (sensitive_ports (brute_force cfg))" "n < 2 ^ 64"
  shows "BRUTE_FORCE \<notin> fired_kinds (td_run (replicate n (Inspect ck info (ck_port ck))) (new_detector cfg))"
  using assms(4)
proof (induction n)
  case (Suc n)
  let ?es = "replicate n (Inspect ck info (ck_port ck))"
  have f: "m_feeds brute_meter cfg (src_ip info, dst_port info) info"
    using assms by (simp add: brute_meter_def list_ex_iff)
  have "replicate (Suc n) (Inspect ck info (ck_port ck)) = ?es @ [Inspect ck info (ck_port ck)]"
    by (simp add: replicate_append_same)
  moreover have "BRUTE_FORCE \<notin> new_kinds (td_run ?es (new_detector cfg))
      (inspect ck info (ck_port ck) (td_run ?es (new_detector cfg)))"
    using Suc(2) assms by (subst brute_alert_iff) (simp_all add: window_at_burst [OF f] rate_reached_def sorted_replicate)
  ultimately show ?case
    using Suc fired_kinds_step [of "Inspect ck info (ck_port ck)" "td_run ?es (new_detector cfg)"]
    by (simp only: td_run_append td_run.simps td_step.simps) auto
qed simp

text \<open>
  Claim C14. The brute-force rule against the traffic: after any events in time order, a packet to a
  monitored port raises a brute-force alert exactly when the window of its source and port is at
  least a second old, the packets counted in it (those since the last reset, this one excluded)
  divided by its age reach the configured rate, and no brute-force alert was fired for the source
  within the suppression time.
\<close>

theorem brute_force_iff:
  assumes "sorted (map event_time es)" "length es < 2 ^ 64" "inspected info" "dst_port info \<noteq> 0"
    and "dst_port info \<in> set (sensitive_ports (brute_force cfg))"
  shows "BRUTE_FORCE \<in> new_kinds (td_run es (new_detector cfg)) (inspect ck info now (td_run es (new_detector cfg))) \<longleftrightarrow>
    rate_reached (rate_pps (brute_force cfg)) now (window_at brute_meter cfg (src_ip info, dst_port info) ck es) \<and>
    \<not> recent_alert (alert_suppression_sec (delivery cfg)) (src_ip info) BRUTE_FORCE now
        (td_fired (td_run es (new_detector cfg)))"
  by (rule brute_alert_iff) (rule assms)+

definition ssh_packet :: packet_info where "ssh_packet = sample_tcp_packet ''10.0.0.1''"

lemma ssh_packet_sel [simp]:
  "inspected ssh_packet" "src_ip ssh_packet = ''10.0.0.1''" "dst_port ssh_packet = 22"
  by (simp_all add: ssh_packet_def sample_tcp_packet_def inspected_def)

lemma monitored_22 [simp]: "22 \<in> set (sensitive_ports (brute_force default_config))"
  by (simp add: default_config_def default_brute_force_def)

lemma default_rates:
  "rate_pps (brute_force default_config) = 20" "txt_rate_pps (dns_tunneling default_config) = 5"
  by (simp_all add: default_config_def default_brute_force_def default_dns_tunneling_def)

lemma ssh_feeds: "m_feeds brute_meter default_config (''10.0.0.1'', 22) ssh_packet"
  by (simp add: brute_meter_def list_ex_iff)

lemma brute_force_iff_witness:
  "BRUTE_FORCE \<in> new_kinds
     (td_run (replicate 20 (Inspect sample_clocks ssh_packet 0)) (new_detector default_config))
     (inspect sample_clocks ssh_packet 1000000000
       (td_run (replicate 20 (Inspect sample_clocks ssh_packet 0)) (new_detector default_config)))"
proof -
  have ck: "ck_port sample_clocks = 0" by (simp add: sample_clocks_def)
  note w = window_at_burst [OF ssh_feeds, of sample_clocks 20, unfolded ck]
  have "rate_reached 20 1000000000 (0, replicate 20 1)"
    using seconds_whole [of 1] dbl_of_nat_exact [of 20] by (simp add: rate_reached_def ddiv_def sum_list_replicate)
  moreover have "BRUTE_FORCE \<notin> fired_kinds
      (td_run (replicate 20 (Inspect sample_clocks ssh_packet 0)) (new_detector default_config))"
    using brute_burst_quiet [of ssh_packet default_config 20 sample_clocks] ck by simp
  ultimately show ?thesis
    by (subst brute_force_iff)
      (simp_all add: w not_recent default_rates)
qed

text \<open>
  A burst followed by a pause is not reported: any number of packets to a monitored port at
  one instant raise no brute-force alert, and neither does the next packet when the pause before it
  brings the average to 19 packets a second or less: the rate is taken over the age of the window,
  however long nothing arrived.
\<close>

theorem paused_burst_unreported:
  assumes "inspected info" "dst_port info \<noteq> 0" "dst_port info \<in> set (sensitive_ports default_brute_force)"
    and "ck_port ck = 0" "1 \<le> k" "k \<le> 9000000" "n \<le> 19 * k"
  shows "BRUTE_FORCE \<notin> fired_kinds (td_run (replicate n (Inspect ck info 0) @ [Inspect ck info (int k * 1000000000)])
    (new_detector default_config))"
proof -
  let ?es = "replicate n (Inspect ck info 0)"
  let ?d = "td_run ?es (new_detector default_config)"
  have port: "dst_port info \<in> set (sensitive_ports (brute_force default_config))"
    using assms(3) by (simp add: default_config_def)
  have f: "m_feeds brute_meter default_config (src_ip info, dst_port info) info"
    using assms(1,2) port by (simp add: brute_meter_def list_ex_iff)
  have n: "n < 2 ^ 53" using assms(6,7) by simp
  have w: "window_at brute_meter default_config (src_ip info, dst_port info) ck ?es = (0, replicate n 1)"
    using window_at_burst [OF f, of ck n] assms(4) by simp
  have "real n / real k \<le> 19"
    using assms(5,7) by (simp add: divide_le_eq)
  then have "ddiv (real n) (real k) \<le> 19" using rnd_mono [of "real n / real k" 19] rnd_of_nat [of 19]
    by (simp add: ddiv_def)
  then have "\<not> rate_reached 20 (int k * 1000000000) (0, replicate n 1)"
    using seconds_whole [OF assms(6)] dbl_of_nat_exact [of n] n
    by (simp add: rate_reached_def sum_list_replicate)
  then have "BRUTE_FORCE \<notin> new_kinds ?d (inspect ck info (int k * 1000000000) ?d)"
    using assms port n by (subst brute_alert_iff)
      (simp_all add: w default_rates)
  moreover have "BRUTE_FORCE \<notin> fired_kinds ?d"
    using brute_burst_quiet [OF assms(1,2) port, of n ck] n assms(4) by simp
  ultimately show ?thesis
    using fired_kinds_step [of "Inspect ck info (int k * 1000000000)" ?d] by (simp add: td_run_append)
qed

lemma paused_burst_unreported_witness:
  "BRUTE_FORCE \<notin> fired_kinds (td_run (replicate 1000 (Inspect sample_clocks ssh_packet 0) @
     [Inspect sample_clocks ssh_packet (int 60 * 1000000000)]) (new_detector default_config))"
  by (rule paused_burst_unreported) (simp_all add: default_brute_force_def sample_clocks_def)

text \<open>
  The TXT-query rule against the traffic: when no query of the traffic has a suspicious name, a TXT
  query raises a tunnelling alert exactly when its source's window is at least a second old, the TXT
  queries counted in it divided by its age reach the configured rate, and no tunnelling alert was
  fired for the source within the suppression time.
\<close>

theorem txt_rate_iff:
  assumes "sorted (map event_time es)" "length es < 2 ^ 64" "inspected info" "txt_query info"
    and "list_all (regular_event txt_meter cfg) es" "plain_dns cfg info"
  shows "DNS_TUNNELING \<in> new_kinds (td_run es (new_detector cfg)) (inspect ck info now (td_run es (new_detector cfg))) \<longleftrightarrow>
    rate_reached (txt_rate_pps (dns_tunneling cfg)) now (window_at txt_meter cfg (src_ip info) ck es) \<and>
    \<not> recent_alert (alert_suppression_sec (delivery cfg)) (src_ip info) DNS_TUNNELING now
        (td_fired (td_run es (new_detector cfg)))"
proof -
  define d where "d = td_run es (new_detector cfg)"
  define d' where "d' = before DNS_TUNNELING ck info now d"
  have cfg: "td_config d' = cfg"
    using before_same_for [of DNS_TUNNELING d ck info now]
    by (simp add: same_for_def d'_def d_def td_run_config new_detector_def)
  have "rate_entry (td_dns_txt d') (src_ip info) = window_cell (window_at txt_meter cfg (src_ip info) ck es)"
    using txt_log.cell_at [OF assms(5), where k = "src_ip info" and ck = ck] before_tables(2) [of ck info now d]
    by (simp add: rate_entry_def txt_cell_def d'_def d_def meter_fresh cong del: option.case_cong_weak)
  from run_txt_fires [OF this assms(4), of ck now] show ?thesis
    using assms cfg window_length(2) [of cfg "src_ip info" ck es]
      same_for_suppressed [OF before_same_for [of DNS_TUNNELING d ck info now]]
      td_run_suppressed [OF assms(1), of cfg "src_ip info" DNS_TUNNELING now]
    by (simp add: inspect_new_kinds d'_def d_def)
qed

definition txt_packet :: packet_info where
  "txt_packet = empty_info\<lparr> valid := True, src_ip := ''10.0.0.1'',
     dns := Some \<lparr> query_name = ''a.b'', query_type = DNS_QTYPE_TXT, is_response = False \<rparr> \<rparr>"

definition txt_config :: config where
  "txt_config = default_config\<lparr> dns_tunneling := default_dns_tunneling\<lparr> txt_rate_pps := 1 \<rparr> \<rparr>"

lemma txt_packet_sel [simp]:
  "inspected txt_packet" "src_ip txt_packet = ''10.0.0.1''" "txt_query txt_packet" "plain_dns txt_config txt_packet"
  by (simp_all add: txt_packet_def inspected_def txt_query_def plain_dns_def dns_name_suspicious_def
      txt_config_def default_dns_tunneling_def max_label_def)

lemma fired_kinds_one: "fired_kinds (td_run [e] (new_detector cfg)) = new_kinds (new_detector cfg) (td_step e (new_detector cfg))"
  by (simp add: fired_kinds_step)

lemma txt_rate_iff_witness:
  "DNS_TUNNELING \<in> new_kinds (td_run [Inspect sample_clocks txt_packet 0] (new_detector txt_config))
     (inspect sample_clocks txt_packet 1000000000 (td_run [Inspect sample_clocks txt_packet 0] (new_detector txt_config)))"
proof -
  have reg: "m_regular txt_meter txt_config txt_packet" by (simp add: txt_meter_def)
  have w: "window_at txt_meter txt_config ''10.0.0.1'' sample_clocks [Inspect sample_clocks txt_packet 0] = (0, [1])"
    by (simp add: window_at_def window_step_def txt_meter_def)
  have "DNS_TUNNELING \<notin> new_kinds (new_detector txt_config) (inspect sample_clocks txt_packet 0 (new_detector txt_config))"
    using txt_rate_iff [of "[]" txt_packet txt_config sample_clocks 0]
    by (simp add: window_at_def meter_fresh rate_reached_def)
  then have "DNS_TUNNELING \<notin> fired_kinds (td_run [Inspect sample_clocks txt_packet 0] (new_detector txt_config))"
    by (simp only: fired_kinds_one td_step.simps) simp
  moreover have "rate_reached 1 1000000000 (0, [1])"
    using seconds_whole [of 1] dbl_of_nat_exact [of 1] by (simp add: rate_reached_def ddiv_def)
  moreover have "txt_rate_pps (dns_tunneling txt_config) = 1" by (simp add: txt_config_def)
  ultimately show ?thesis
    using txt_rate_iff [of "[Inspect sample_clocks txt_packet 0]" txt_packet txt_config sample_clocks 1000000000]
      reg w not_recent by simp
qed

text \<open>
  Claim C29. The exfiltration rule against the traffic: after any events in time order, a packet with payload
  raises an exfiltration alert exactly when its source's window is at least a second old, the payload
  bytes of the window (this packet's included) divided by its age reach 5 MB/s, and no such alert was
  fired for the source within the suppression time.
\<close>

theorem exfiltration_iff:
  assumes "sorted (map event_time es)" "inspected info" "0 < l7_payload_length info"
    and "sum_list (map (event_weight exfil_meter) es) + l7_payload_length info < 2 ^ 64"
  shows "DATA_EXFILTRATION \<in> new_kinds (td_run es (new_detector cfg)) (inspect ck info now (td_run es (new_detector cfg))) \<longleftrightarrow>
    (let (start, bytes) = window_at exfil_meter cfg (src_ip info) ck es
     in rate_reached exfil_medium now (start, bytes @ [l7_payload_length info])) \<and>
    \<not> recent_alert (alert_suppression_sec (delivery cfg)) (src_ip info) DATA_EXFILTRATION now
        (td_fired (td_run es (new_detector cfg)))"
proof -
  define d where "d = td_run es (new_detector cfg)"
  define d' where "d' = before DATA_EXFILTRATION ck info now d"
  have cfg: "td_config d' = cfg"
    using before_same_for [of DATA_EXFILTRATION d ck info now]
    by (simp add: same_for_def d'_def d_def td_run_config new_detector_def)
  have "rate_entry (td_exfil d') (src_ip info) = window_cell (window_at exfil_meter cfg (src_ip info) ck es)"
    using exfil_log.cell_at [where cfg = cfg and es = es and k = "src_ip info" and ck = ck] before_tables(3) [of ck info now d]
    by (simp add: rate_entry_def exfil_cell_def d'_def d_def meter_fresh cong del: option.case_cong_weak)
  from run_exfil_fires [OF this assms(3), of ck now] show ?thesis
    using assms cfg window_at_sum [of exfil_meter cfg "src_ip info" ck es]
      same_for_suppressed [OF before_same_for [of DATA_EXFILTRATION d ck info now]]
      td_run_suppressed [OF assms(1), of cfg "src_ip info" DATA_EXFILTRATION now]
    by (simp add: inspect_new_kinds d'_def d_def case_prod_beta)
qed

definition bulk_packet :: "nat \<Rightarrow> packet_info" where
  "bulk_packet n = empty_info\<lparr> valid := True, src_ip := ''10.0.0.1'', l7_payload_length := n \<rparr>"

lemma bulk_packet_sel [simp]:
  "inspected (bulk_packet n)" "src_ip (bulk_packet n) = ''10.0.0.1''" "l7_payload_length (bulk_packet n) = n"
  by (simp_all add: bulk_packet_def inspected_def)

lemma exfiltration_iff_witness:
  "DATA_EXFILTRATION \<in> new_kinds
     (td_run [Inspect sample_clocks (bulk_packet 5000000) 0] (new_detector default_config))
     (inspect sample_clocks (bulk_packet 1400) 1000000000
       (td_run [Inspect sample_clocks (bulk_packet 5000000) 0] (new_detector default_config)))"
proof -
  let ?e = "Inspect sample_clocks (bulk_packet 5000000) 0"
  have w: "window_at exfil_meter default_config ''10.0.0.1'' sample_clocks [?e] = (0, [5000000])"
    by (simp add: window_at_def window_step_def exfil_meter_def)
  have wt: "event_weight exfil_meter ?e = 5000000" by (simp add: exfil_meter_def)
  have "DATA_EXFILTRATION \<notin> new_kinds (new_detector default_config) (td_step ?e (new_detector default_config))"
    using exfiltration_iff [of "[]" "bulk_packet 5000000" default_config sample_clocks 0]
    by (simp add: window_at_def meter_fresh rate_reached_def)
  then have "DATA_EXFILTRATION \<notin> fired_kinds (td_run [?e] (new_detector default_config))"
    by (simp only: fired_kinds_one) simp
  moreover have "rate_reached exfil_medium 1000000000 (0, [5000000, 1400])"
    using seconds_whole [of 1] dbl_of_nat_exact [of 5001400] rnd_of_nat [of 5001400]
    by (simp add: rate_reached_def ddiv_def exfil_medium_def)
  ultimately show ?thesis
    using exfiltration_iff [of "[?e]" "bulk_packet 1400" default_config sample_clocks 1000000000]
      w wt not_recent by simp
qed

end
