(* ===== verification/LabelSpec.thy ===== *)
theory LabelSpec
  imports Detector
begin

text \<open>
  The label scan of \<open>check_dns_tunneling\<close> against a reference definition: the name cut at its dots, and
  the length of the longest part.
\<close>

section \<open>The reference\<close>

fun split_dots :: "string \<Rightarrow> string list" where
  "split_dots [] = [[]]"
| "split_dots (c # cs) =
     (if c = CHR ''.'' then [] # split_dots cs
      else case split_dots cs of [] \<Rightarrow> [[c]] | l # ls \<Rightarrow> (c # l) # ls)"

definition longest_label :: "string \<Rightarrow> nat" where
  "longest_label q = Max (length ` set (split_dots q))"

text \<open>The parts, joined with dots, are the name; none of them holds a dot.\<close>

fun join_dots :: "string list \<Rightarrow> string" where
  "join_dots [] = []"
| "join_dots [l] = l"
| "join_dots (l # ls) = l @ CHR ''.'' # join_dots ls"

lemma split_dots_nonempty [simp]: "split_dots cs \<noteq> []"
  by (cases cs) (auto split: list.splits)

lemma join_split: "join_dots (split_dots cs) = cs"
proof (induction cs rule: split_dots.induct)
  case (2 c cs)
  obtain l ls where s: "split_dots cs = l # ls" by (cases "split_dots cs") auto
  show ?case
  proof (cases "c = CHR ''.''")
    case True
    then show ?thesis using 2 s by simp
  next
    case False
    then show ?thesis using 2 s by (cases ls) auto
  qed
qed simp

lemma split_no_dot: "l \<in> set (split_dots cs) \<Longrightarrow> CHR ''.'' \<notin> set l"
  by (induction cs arbitrary: l rule: split_dots.induct) (auto split: if_splits list.splits)

section \<open>The scan\<close>

lemma max_label_loop_split:
  "ls \<le> i \<Longrightarrow> max_label_loop cs i ls m =
     Max (insert m (insert (i - ls + length (hd (split_dots cs))) (length ` set (tl (split_dots cs)))))"
proof (induction cs i ls m rule: max_label_loop.induct)
  case (2 c cs i ls m)
  obtain l rest where s: "split_dots cs = l # rest" by (cases "split_dots cs") auto
  show ?case
  proof (cases "c = CHR ''.''")
    case True
    have "max_label_loop (c # cs) i ls m = max_label_loop cs (i + 1) (i + 1) (max m (i - ls))"
      using True by simp
    also have "\<dots> = Max (insert (max m (i - ls)) (insert (length l) (length ` set rest)))"
      using 2(1) [OF True] s by simp
    also have "\<dots> = max m (max (i - ls) (Max (insert (length l) (length ` set rest))))"
      by (simp add: max.assoc)
    finally show ?thesis using True s by simp
  next
    case False
    then show ?thesis using 2(2) [OF False] 2(3) s by (simp add: Suc_diff_le)
  qed
qed simp

section \<open>Properties\<close>

text \<open>
  Claim C33. The label scan is equivalent to its reference: for every name, dots at its ends and in a row
  included, the loop computes the length of the longest of the parts between the dots.
\<close>

theorem max_label_eq: "max_label q = longest_label q"
proof -
  obtain l ls where s: "split_dots q = l # ls" by (cases "split_dots q") auto
  then show ?thesis
    using max_label_loop_split [of 0 0 q 0] by (simp add: max_label_def longest_label_def)
qed

end
