(* ===== verification/AddrFormat.thy ===== *)
theory AddrFormat
  imports Text Prelude
begin

text \<open>
  \<open>format_ipv4\<close> and \<open>format_ipv6\<close> of \<open>src/ProtocolDissector.cpp\<close>: the text of an address, which is
  also the identity of a source in every per-source table of the detector. Two addresses
  with one text would share their profiles: \<open>format_ipv4_inj_lemma\<close> and \<open>format_ipv6_inj_lemma\<close> show that this
  cannot happen. \<open>sscanf_ipv4\<close> is the scan with which \<open>FlowTracker\<close> reads the text back.
\<close>

section \<open>IPv4\<close>

definition octet :: "u32 \<Rightarrow> nat \<Rightarrow> nat" where
  "octet a s = unat (and (drop_bit s a) 0xFF)"

definition format_ipv4 :: "u32 \<Rightarrow> string" where
  "format_ipv4 a = snprintf_buf 16
     (dec_string (octet a 24) @ ''.'' @ dec_string (octet a 16) @ ''.'' @
      dec_string (octet a 8) @ ''.'' @ dec_string (octet a 0))"

text \<open>The conversions of \<open>"%u.%u.%u.%u"\<close> that succeed; a failure ends the scan.\<close>

fun scan_dotted :: "nat \<Rightarrow> string \<Rightarrow> u32 list" where
  "scan_dotted 0 s = []"
| "scan_dotted (Suc n) s =
     (case scan_unsigned s of None \<Rightarrow> []
      | Some (v, rest) \<Rightarrow>
          v # (case scan_dot rest of None \<Rightarrow> [] | Some rest' \<Rightarrow> scan_dotted n rest'))"

definition sscanf_ipv4 :: "string \<Rightarrow> u32" where
  "sscanf_ipv4 ip =
     (let vs = scan_dotted 4 (c_str ip);
          v = (\<lambda>i. if i < length vs then vs ! i else 0)
      in or (or (or (push_bit 24 (v 0)) (push_bit 16 (v 1))) (push_bit 8 (v 2))) (v 3))"

section \<open>IPv6\<close>

definition ipv6_groups :: "u8 list \<Rightarrow> u16 list" where
  "ipv6_groups a = map (\<lambda>i. be16_of (a ! (2 * i)) (a ! (2 * i + 1))) [0..<8]"

text \<open>
  The search for the longest run of zero groups. The arguments are the groups from \<open>i\<close> on,
  \<open>i\<close>, \<open>best_start\<close>, \<open>best_len\<close>, \<open>cur_start\<close> and \<open>cur_len\<close>.
\<close>

fun zero_run_loop :: "u16 list \<Rightarrow> int \<Rightarrow> int \<Rightarrow> nat \<Rightarrow> int \<Rightarrow> nat \<Rightarrow> int \<times> nat" where
  "zero_run_loop [] i bs bl cs cl = (bs, bl)"
| "zero_run_loop (g # gs) i bs bl cs cl =
     (if g = 0 then
        (let cs' = (if cs = -1 then i else cs); cl' = cl + 1
         in if cl' > bl then zero_run_loop gs (i + 1) cs' cl' cs' cl'
            else zero_run_loop gs (i + 1) bs bl cs' cl')
      else zero_run_loop gs (i + 1) bs bl (-1) 0)"

definition best_zero_run :: "u16 list \<Rightarrow> int \<times> nat" where
  "best_zero_run gs =
     (let (bs, bl) = zero_run_loop gs 0 (-1) 0 (-1) 0 in (if bl < 2 then -1 else bs, bl))"

definition hex_group :: "u16 \<Rightarrow> string" where
  "hex_group g = hex_string (unat g)"

function emit_groups :: "u16 list \<Rightarrow> int \<Rightarrow> nat \<Rightarrow> nat \<Rightarrow> string \<Rightarrow> string" where
  "emit_groups gs bs bl i out =
     (if i < 8 then
        if int i = bs then
          (if i + bl \<ge> 8 then out @ ''::''
           else emit_groups gs bs bl (i + bl + 1) (out @ ''::'' @ hex_group (gs ! (i + bl))))
        else if i \<noteq> 0 \<and> \<not> (int i = bs + int bl \<and> bs = 0) then
          emit_groups gs bs bl (i + 1) (out @ '':'' @ hex_group (gs ! i))
        else emit_groups gs bs bl (i + 1) (out @ hex_group (gs ! i))
      else out)"
  by pat_completeness auto
termination by (relation "measure (\<lambda>(gs, bs, bl, i, out). 8 - i)") auto

declare emit_groups.simps [simp del]

definition format_ipv6 :: "u8 list \<Rightarrow> string" where
  "format_ipv6 a =
     (let gs = ipv6_groups a; (bs, bl) = best_zero_run gs in emit_groups gs bs bl 0 [])"

section \<open>IPv4 text\<close>

lemma octet_less: "octet a s < 256"
proof -
  have "and (drop_bit s a) 0xFF = take_bit 8 (drop_bit s a)"
    by (simp add: take_bit_eq_mask mask_eq_exp_minus_1)
  then have "octet a s = take_bit 8 (unat (drop_bit s a))"
    by (simp add: octet_def unsigned_take_bit_eq)
  then show ?thesis by (simp add: take_bit_eq_mod)
qed

lemma format_ipv4_full:
  "format_ipv4 a = dec_string (octet a 24) @ ''.'' @ dec_string (octet a 16) @ ''.'' @
      dec_string (octet a 8) @ ''.'' @ dec_string (octet a 0)"
proof -
  have "length (dec_string (octet a s)) \<le> 3" for s
    by (rule length_dec_string_le3) (use octet_less [of a s] in simp)
  from this [of 24] this [of 16] this [of 8] this [of 0] show ?thesis
    by (simp add: format_ipv4_def snprintf_buf_def)
qed

lemma c_str_id: "(\<And>c. c \<in> set s \<Longrightarrow> is_digit c \<or> c = CHR ''.'') \<Longrightarrow> c_str s = s"
  unfolding c_str_def by (rule takeWhile_eq_all_conv [THEN iffD2]) (fastforce simp: is_digit_def)

lemma octets_word:
  "or (or (or (push_bit 24 (of_nat (octet a 24))) (push_bit 16 (of_nat (octet a 16))))
     (push_bit 8 (of_nat (octet a 8)))) (of_nat (octet a 0)) = (a :: u32)"
proof -
  have "(of_nat (octet a s) :: u32) = and (drop_bit s a) 0xFF" for s
    by (simp add: octet_def)
  moreover have "and (drop_bit s a) 0xFF = take_bit 8 (drop_bit s a)" for s
    by (simp add: take_bit_eq_mask mask_eq_exp_minus_1)
  ultimately have o: "(of_nat (octet a s) :: u32) = take_bit 8 (drop_bit s a)" for s by simp
  show ?thesis
  proof (rule bit_word_eqI)
    fix n assume "n < LENGTH(32)"
    then have "n < 32" by simp
    then consider "n < 8" | "8 \<le> n" "n < 16" | "16 \<le> n" "n < 24" | "24 \<le> n" "n < 32"
      by linarith
    then show "bit (or (or (or (push_bit 24 (of_nat (octet a 24))) (push_bit 16 (of_nat (octet a 16))))
       (push_bit 8 (of_nat (octet a 8)))) (of_nat (octet a 0)) :: u32) n = bit a n"
      unfolding o by cases (auto simp: bit_or_iff bit_push_bit_iff bit_take_bit_iff bit_drop_bit_eq)
  qed
qed

lemma scan_dotted_format:
  "scan_dotted 4 (format_ipv4 a) =
     [of_nat (octet a 24), of_nat (octet a 16), of_nat (octet a 8), of_nat (octet a 0)]"
proof -
  have dot: "case (CHR ''.'' # r) of [] \<Rightarrow> True | c # _ \<Rightarrow> \<not> is_digit c" for r
    by (simp add: is_digit_def)
  have "scan_unsigned (dec_string n @ CHR ''.'' # r) = Some (of_nat n, CHR ''.'' # r)" for n r
    by (rule scan_dec_string [OF dot])
  moreover have "scan_unsigned (dec_string n) = Some (of_nat n, [])" for n
    using scan_dec_string [of "[]" n] by simp
  ultimately show ?thesis
    by (simp add: format_ipv4_full scan_dot_def numeral_eq_Suc)
qed

lemma sscanf_format_ipv4: "sscanf_ipv4 (format_ipv4 a) = a"
proof -
  have "c_str (format_ipv4 a) = format_ipv4 a"
    by (rule c_str_id) (auto simp: format_ipv4_full dest: dec_string_digits)
  then show ?thesis
    using octets_word [of a]
    unfolding sscanf_ipv4_def Let_def
    by (simp only: scan_dotted_format) (simp add: nth_Cons')
qed

lemma format_ipv4_inj_lemma: "format_ipv4 a = format_ipv4 b \<Longrightarrow> a = b"
  by (metis sscanf_format_ipv4)

lemma format_ipv4_nonempty [simp]: "format_ipv4 a \<noteq> []"
  by (simp add: format_ipv4_full)

section \<open>The longest run of zero groups\<close>

text \<open>
  What the search holds after the first \<open>i\<close> groups of \<open>xs\<close>: the current run is the zeros that end
  there, the best run lies inside, and no run of zeros inside is longer than the best one.
\<close>

definition zero_run :: "u16 list \<Rightarrow> nat \<Rightarrow> nat \<Rightarrow> bool" where
  "zero_run xs j l \<longleftrightarrow> j + l \<le> length xs \<and> (\<forall>k < l. xs ! (j + k) = 0)"

definition run_inv :: "u16 list \<Rightarrow> nat \<Rightarrow> int \<Rightarrow> nat \<Rightarrow> int \<Rightarrow> nat \<Rightarrow> bool" where
  "run_inv xs i bs bl cs cl \<longleftrightarrow> i \<le> length xs \<and> cl \<le> i \<and> cl \<le> bl \<and>
     (if cl = 0 then cs = -1 else cs = int i - int cl) \<and> zero_run xs (i - cl) cl \<and>
     (cl < i \<longrightarrow> xs ! (i - cl - 1) \<noteq> 0) \<and>
     (if bl = 0 then bs = -1 else 0 \<le> bs \<and> nat bs + bl \<le> i \<and> zero_run xs (nat bs) bl) \<and>
     (\<forall>j l. zero_run xs j l \<and> j + l \<le> i \<longrightarrow> l \<le> bl)"

lemma zero_run_snoc_bound:
  assumes "zero_run xs (i - cl) cl" "cl < i \<longrightarrow> xs ! (i - cl - 1) \<noteq> 0" "cl \<le> i"
    and "zero_run xs j l" "j + l = i"
  shows "l \<le> cl"
proof (rule ccontr)
  assume "\<not> l \<le> cl"
  then have l: "cl < l" by simp
  then have "cl < i" using assms(5) by linarith
  moreover have "l - cl - 1 < l" using l by simp
  then have "xs ! (j + (l - cl - 1)) = 0" using assms(4) unfolding zero_run_def by blast
  moreover have "j + (l - cl - 1) = i - cl - 1" using assms(5) l by linarith
  ultimately show False using assms(2) by simp
qed

lemma zero_run_prefix: "zero_run xs j (Suc l) \<Longrightarrow> zero_run xs j l"
  by (simp add: zero_run_def)

lemma run_inv_nonzero:
  assumes inv: "run_inv xs i bs bl cs cl" and i: "i < length xs" "xs ! i \<noteq> 0"
  shows "run_inv xs (Suc i) bs bl (-1) 0"
proof -
  have "l \<le> bl" if "zero_run xs j l" "j + l \<le> Suc i" for j l
  proof (cases "j + l \<le> i \<or> l = 0")
    case True
    then show ?thesis using that inv by (auto simp: run_inv_def)
  next
    case False
    then have "j + l = Suc i" "0 < l" using that by auto
    then have "j + (l - 1) = i" "l - 1 < l" by auto
    then have "xs ! i = 0" using that(1) unfolding zero_run_def by metis
    then show ?thesis using i by simp
  qed
  then show ?thesis
    using inv i by (auto simp: run_inv_def zero_run_def split: if_splits)
qed

lemma run_inv_zero:
  assumes inv: "run_inv xs i bs bl cs cl" and i: "i < length xs" "xs ! i = 0"
    and cs': "cs' = (if cs = -1 then int i else cs)"
    and b: "if cl + 1 > bl then bs' = cs' \<and> bl' = cl + 1 else bs' = bs \<and> bl' = bl"
  shows "run_inv xs (Suc i) bs' bl' cs' (cl + 1)"
proof -
  have cl: "cl \<le> i" "cl \<le> bl" "zero_run xs (i - cl) cl" "cl < i \<longrightarrow> xs ! (i - cl - 1) \<noteq> 0"
    "if cl = 0 then cs = -1 else cs = int i - int cl"
    and max: "\<And>j l. zero_run xs j l \<Longrightarrow> j + l \<le> i \<Longrightarrow> l \<le> bl"
    and best: "if bl = 0 then bs = -1 else 0 \<le> bs \<and> nat bs + bl \<le> i \<and> zero_run xs (nat bs) bl"
    using inv by (auto simp: run_inv_def)
  have cs: "cs' = int i - int cl"
    using cl(1,5) cs' by (cases "cl = 0") auto
  have cur: "zero_run xs (i - cl) (cl + 1)"
    using cl(1,3) i by (auto simp: zero_run_def less_Suc_eq)
  have "l \<le> bl'" if z: "zero_run xs j l" "j + l \<le> Suc i" for j l
  proof (cases "j + l \<le> i \<or> l = 0")
    case True
    then have "l \<le> bl" using z max by auto
    then show ?thesis using b by (auto split: if_splits)
  next
    case False
    then obtain l' where l': "l = Suc l'" "j + l' = i" using z by (cases l) auto
    then have "l' \<le> cl" using zero_run_snoc_bound [OF cl(3,4,1)] z(1) zero_run_prefix by blast
    then show ?thesis using b l' by (auto split: if_splits)
  qed
  moreover have "0 \<le> bs' \<and> nat bs' + bl' \<le> Suc i \<and> zero_run xs (nat bs') bl' \<and> bl' \<noteq> 0 \<and> cl + 1 \<le> bl'"
  proof (cases "cl + 1 > bl")
    case True
    moreover have "nat (int i - int cl) = i - cl" using cl(1) by simp
    ultimately show ?thesis using b cs cur cl(1) by simp
  next
    case False
    then show ?thesis using b best by auto
  qed
  moreover have "Suc i - (cl + 1) = i - cl" by simp
  ultimately show ?thesis
    unfolding run_inv_def using cl i cur cs by auto
qed

lemma zero_run_loop_inv:
  "run_inv xs i bs bl cs cl \<Longrightarrow>
   \<exists>cs' cl'. run_inv xs (length xs) (fst (zero_run_loop (drop i xs) (int i) bs bl cs cl))
     (snd (zero_run_loop (drop i xs) (int i) bs bl cs cl)) cs' cl'"
proof (induction "length xs - i" arbitrary: i bs bl cs cl)
  case 0
  then have "i = length xs" by (auto simp: run_inv_def)
  then show ?case using 0 by auto
next
  case (Suc n)
  then have i: "i < length xs" by simp
  have d: "drop i xs = xs ! i # drop (Suc i) xs" using i by (rule Cons_nth_drop_Suc [symmetric])
  have n: "n = length xs - Suc i" using Suc(2) by simp
  show ?case
  proof (cases "xs ! i = 0")
    case False
    from Suc(1) [OF n run_inv_nonzero [OF Suc(3) i False]]
    show ?thesis using False by (simp add: d add.commute)
  next
    case True
    define cs' where "cs' = (if cs = -1 then int i else cs)"
    show ?thesis
    proof (cases "cl + 1 > bl")
      case gt: True
      have "run_inv xs (Suc i) cs' (cl + 1) cs' (cl + 1)"
        by (rule run_inv_zero [OF Suc(3) i True cs'_def]) (use gt in simp)
      from Suc(1) [OF n this] show ?thesis
        using True gt by (simp add: d add.commute cs'_def Let_def split del: if_split)
    next
      case le: False
      have "run_inv xs (Suc i) bs bl cs' (cl + 1)"
        by (rule run_inv_zero [OF Suc(3) i True cs'_def]) (use le in simp)
      from Suc(1) [OF n this] show ?thesis
        using True le by (simp add: d add.commute cs'_def Let_def split del: if_split)
    qed
  qed
qed

text \<open>The search finds a longest run of zeros, or none of two groups or more exists.\<close>

lemma best_zero_run_spec:
  assumes "best_zero_run gs = (bs, bl)"
  shows "bs = -1 \<and> bl < 2 \<or> 2 \<le> bl \<and> 0 \<le> bs \<and> zero_run gs (nat bs) bl"
    and "zero_run gs j l \<Longrightarrow> l \<le> bl"
proof -
  obtain s l0 where r: "zero_run_loop gs 0 (-1) 0 (-1) 0 = (s, l0)" by fastforce
  have "run_inv gs 0 (-1) 0 (-1) 0" by (simp add: run_inv_def zero_run_def)
  from zero_run_loop_inv [OF this] r obtain c l' where inv: "run_inv gs (length gs) s l0 c l'"
    by auto
  have eq: "l0 = bl" "bs = (if bl < 2 then -1 else s)"
    using assms r by (auto simp: best_zero_run_def split: if_splits)
  show "bs = -1 \<and> bl < 2 \<or> 2 \<le> bl \<and> 0 \<le> bs \<and> zero_run gs (nat bs) bl"
    using inv eq by (auto simp: run_inv_def split: if_splits)
  show "zero_run gs j l \<Longrightarrow> l \<le> bl"
    using inv eq by (auto simp: run_inv_def zero_run_def split: if_splits)
qed

section \<open>The text of an IPv6 address\<close>

text \<open>
  \<open>colons gs\<close> is every group behind a colon, \<open>join_groups\<close> the groups with colons between. The
  emission writes the groups, or the groups before the run, \<open>::\<close> and the groups after it.
\<close>

definition colons :: "u16 list \<Rightarrow> string" where
  "colons gs = concat (map (\<lambda>g. '':'' @ hex_group g) gs)"

definition join_groups :: "u16 list \<Rightarrow> string" where
  "join_groups gs = (case gs of [] \<Rightarrow> [] | g # rest \<Rightarrow> hex_group g @ colons rest)"

lemma colons_simps [simp]: "colons [] = []" "colons (g # gs) = '':'' @ hex_group g @ colons gs"
  by (simp_all add: colons_def)

lemma join_groups_simps [simp]:
  "join_groups [] = []" "join_groups (g # gs) = hex_group g @ colons gs"
  by (simp_all add: join_groups_def)

lemma emit_tail:
  assumes "length gs = 8" "1 \<le> i" "i \<le> 8" "\<forall>k. i \<le> k \<and> k < 8 \<longrightarrow> int k \<noteq> bs" "bs = 0 \<longrightarrow> bl < i"
  shows "emit_groups gs bs bl i out = out @ colons (drop i gs)"
  using assms(2-)
proof (induction "8 - i" arbitrary: i out)
  case 0
  then show ?case using assms(1) by (subst emit_groups.simps) simp
next
  case (Suc n)
  then have i: "i < 8" by simp
  have d: "drop i gs = gs ! i # drop (Suc i) gs"
    using i assms(1) by (simp add: Cons_nth_drop_Suc)
  have "emit_groups gs bs bl (Suc i) (out @ '':'' @ hex_group (gs ! i)) =
      (out @ '':'' @ hex_group (gs ! i)) @ colons (drop (Suc i) gs)"
    by (rule Suc(1)) (use Suc(2-) i in auto)
  moreover have "int i \<noteq> bs" "\<not> (int i = bs + int bl \<and> bs = 0)" using Suc(5,6) i by auto
  ultimately show ?case
    using i Suc(3) by (subst emit_groups.simps) (auto simp: d)
qed

lemma emit_head:
  assumes "length gs = 8" "1 \<le> i" "i \<le> b" "b < 8"
  shows "emit_groups gs (int b) bl i out = emit_groups gs (int b) bl b (out @ colons (take (b - i) (drop i gs)))"
  using assms(2-)
proof (induction "b - i" arbitrary: i out)
  case 0
  then show ?case by simp
next
  case (Suc n)
  then have i: "i < b" by simp
  have d: "take (b - i) (drop i gs) = gs ! i # take (b - Suc i) (drop (Suc i) gs)"
    using i assms(1,4) by (simp add: Cons_nth_drop_Suc [symmetric] Suc_diff_Suc [symmetric])
  have "emit_groups gs (int b) bl (Suc i) (out @ '':'' @ hex_group (gs ! i)) =
     emit_groups gs (int b) bl b ((out @ '':'' @ hex_group (gs ! i)) @ colons (take (b - Suc i) (drop (Suc i) gs)))"
    by (rule Suc(1)) (use Suc(2-) i in auto)
  then show ?case
    using i Suc(3,5) by (subst emit_groups.simps) (simp add: d)
qed

lemma emit_run:
  assumes "length gs = 8" "b < 8"
  shows "emit_groups gs (int b) bl b out = out @ ''::'' @ join_groups (drop (b + bl) gs)"
proof (cases "b + bl \<ge> 8")
  case True
  then show ?thesis using assms by (subst emit_groups.simps) simp
next
  case False
  then have d: "drop (b + bl) gs = gs ! (b + bl) # drop (b + bl + 1) gs"
    using assms(1) by (simp add: Cons_nth_drop_Suc)
  have "emit_groups gs (int b) bl (b + bl + 1) o' = o' @ colons (drop (b + bl + 1) gs)" for o'
    by (rule emit_tail) (use assms False in auto)
  then show ?thesis using False assms by (subst emit_groups.simps) (simp add: d)
qed

lemma format_ipv6_text:
  assumes "length a = 16" and r: "best_zero_run (ipv6_groups a) = (bs, bl)"
  shows "format_ipv6 a = (if bs = -1 then join_groups (ipv6_groups a)
     else join_groups (take (nat bs) (ipv6_groups a)) @ ''::'' @
          join_groups (drop (nat bs + bl) (ipv6_groups a)))"
proof -
  define gs where "gs = ipv6_groups a"
  have len: "length gs = 8" by (simp add: gs_def ipv6_groups_def)
  then have gs0: "gs = gs ! 0 # drop (Suc 0) gs" by (simp add: Cons_nth_drop_Suc)
  have f: "format_ipv6 a = emit_groups gs bs bl 0 []" using r by (simp add: format_ipv6_def gs_def)
  consider "bs = -1" "bl < 2" | "2 \<le> bl" "0 \<le> bs" "zero_run gs (nat bs) bl"
    using best_zero_run_spec(1) [OF r] gs_def by blast
  then show ?thesis
  proof cases
    case 1
    have "emit_groups gs bs bl (Suc 0) (hex_group (gs ! 0)) = hex_group (gs ! 0) @ colons (drop (Suc 0) gs)"
      by (rule emit_tail) (use 1 len in auto)
    then have "format_ipv6 a = join_groups (gs ! 0 # drop (Suc 0) gs)"
      unfolding f using 1 by (subst emit_groups.simps) simp
    then show ?thesis using 1 by (simp add: gs_def [symmetric] gs0 [symmetric])
  next
    case 2
    define b where "b = nat bs"
    have b: "b < 8" "bs = int b" using 2 len by (auto simp: b_def zero_run_def)
    show ?thesis
    proof (cases "b = 0")
      case True
      then show ?thesis using emit_run [OF len b(1), of bl "[]"] by (simp add: f b gs_def)
    next
      case False
      have "take b gs = gs ! 0 # take (b - Suc 0) (drop (Suc 0) gs)"
        using gs0 False by (metis take_Cons' One_nat_def)
      moreover have "emit_groups gs (int b) bl 0 [] = emit_groups gs (int b) bl (Suc 0) (hex_group (gs ! 0))"
        using False by (subst emit_groups.simps) simp
      moreover have "emit_groups gs (int b) bl (Suc 0) (hex_group (gs ! 0)) = emit_groups gs (int b) bl b
          (hex_group (gs ! 0) @ colons (take (b - Suc 0) (drop (Suc 0) gs)))"
        by (rule emit_head) (use False b len in auto)
      ultimately have "format_ipv6 a = join_groups (take b gs) @ ''::'' @ join_groups (drop (b + bl) gs)"
        using emit_run [OF len b(1)] by (simp add: f b)
      then show ?thesis by (simp add: b gs_def)
    qed
  qed
qed

lemma format_ipv6_nonempty:
  assumes "length a = 16"
  shows "format_ipv6 a \<noteq> []"
proof -
  obtain bs bl where r: "best_zero_run (ipv6_groups a) = (bs, bl)" by fastforce
  have "hex_group g \<noteq> []" for g by (simp add: hex_group_def)
  moreover have "ipv6_groups a \<noteq> []" by (simp add: ipv6_groups_def)
  ultimately have "join_groups (ipv6_groups a) \<noteq> []" by (cases "ipv6_groups a") simp_all
  then show ?thesis by (simp add: format_ipv6_text [OF assms r])
qed

section \<open>Reading the text back\<close>

fun split_colon :: "string \<Rightarrow> string list" where
  "split_colon [] = [[]]"
| "split_colon (c # cs) =
     (if c = CHR '':'' then [] # split_colon cs
      else (case split_colon cs of [] \<Rightarrow> [[c]] | t # ts \<Rightarrow> (c # t) # ts))"

lemma split_colon_nonempty [simp]: "split_colon s \<noteq> []"
  by (cases s) (auto split: list.splits)

lemma split_colon_field:
  "CHR '':'' \<notin> set s \<Longrightarrow> split_colon s = [s] \<and> split_colon (s @ CHR '':'' # r) = s # split_colon r"
  by (induction s) auto

lemma hex_group_no_colon: "CHR '':'' \<notin> set (hex_group g)"
proof
  assume "CHR '':'' \<in> set (hex_group g)"
  then obtain d where "d < 16" "CHR '':'' = digit_char d"
    using set_radix_string [of 16 "unat g"] by (auto simp: hex_group_def hex_string_def)
  then have "(of_char (CHR '':'') :: nat) = (if d < 10 then 48 + d else 87 + d)"
    using of_char_hex_digit [of d] by simp
  then show False by (auto split: if_splits)
qed

lemma hex_group_nonempty [simp]: "hex_group g \<noteq> []"
  by (simp add: hex_group_def)

lemma hex_group_inj: "hex_group g = hex_group h \<Longrightarrow> g = h"
  unfolding hex_group_def by (drule hex_string_inj) (simp only: word_unat_eq_iff)

lemma split_colons: "CHR '':'' \<notin> set s \<Longrightarrow> split_colon (s @ colons gs) = s # map hex_group gs"
proof (induction gs arbitrary: s)
  case Nil
  then show ?case by (simp add: split_colon_field)
next
  case (Cons g gs)
  then show ?case using hex_group_no_colon [of g] by (simp add: split_colon_field)
qed

lemma split_colon_append: "split_colon (s @ CHR '':'' # r) = split_colon s @ split_colon r"
  by (induction s) (auto split: list.splits)

definition field_list :: "u16 list \<Rightarrow> string list" where
  "field_list gs = (if gs = [] then [[]] else map hex_group gs)"

lemma split_join: "split_colon (join_groups gs) = field_list gs"
  using split_colons [OF hex_group_no_colon] by (cases gs) (simp_all add: field_list_def)

lemma split_run:
  "split_colon (join_groups l @ ''::'' @ join_groups r) = field_list l @ [[]] @ field_list r"
  using split_colon_append [of "join_groups l" "CHR '':'' # join_groups r"]
  by (simp add: split_join)

lemma map_hex_group_inj: "map hex_group gs = map hex_group hs \<Longrightarrow> gs = hs"
  by (rule list.inj_map_strong [OF hex_group_inj])

lemma field_list_inj: "field_list gs = field_list hs \<Longrightarrow> gs = hs"
proof -
  assume eq: "field_list gs = field_list hs"
  have "(gs = []) = (field_list gs = [[]])" for gs
    by (cases gs) (auto simp: field_list_def)
  with eq show "gs = hs" using map_hex_group_inj by (metis field_list_def)
qed

lemma fields_run_inj:
  assumes "field_list l @ [[]] @ field_list r = field_list l' @ [[]] @ field_list r'"
  shows "l = l' \<and> r = r'"
proof -
  have hd_empty: "hd (field_list l @ xs) = [] \<longleftrightarrow> l = []" for l xs
    by (cases l) (auto simp: field_list_def)
  have same: "l = [] \<longleftrightarrow> l' = []"
    using hd_empty [of l "[[]] @ field_list r"] hd_empty [of l' "[[]] @ field_list r'"] assms by simp
  have tw: "takeWhile (\<lambda>t. t \<noteq> []) (map hex_group l @ [] # xs) = map hex_group l" for l xs
    by (induction l) auto
  have dw: "dropWhile (\<lambda>t. t \<noteq> []) (map hex_group l @ [] # xs) = [] # xs" for l xs
    by (induction l) auto
  show ?thesis
  proof (cases "l = []")
    case True
    then show ?thesis using same assms field_list_inj by (simp add: field_list_def [of "[]"])
  next
    case False
    then have eq: "map hex_group l @ [] # field_list r = map hex_group l' @ [] # field_list r'"
      using assms same by (simp add: field_list_def [of l] field_list_def [of l'])
    from arg_cong [OF eq, of "takeWhile (\<lambda>t. t \<noteq> [])"] have "l = l'"
      unfolding tw by (rule map_hex_group_inj)
    moreover from arg_cong [OF eq, of "dropWhile (\<lambda>t. t \<noteq> [])"] have "r = r'"
      unfolding dw by (auto dest: field_list_inj)
    ultimately show ?thesis by simp
  qed
qed

lemma be16_of_inj: "be16_of a b = be16_of c d \<Longrightarrow> a = c \<and> b = d"
proof -
  assume eq: "be16_of a b = be16_of c d"
  have bits: "bit (be16_of x y) n = (n < 16 \<and> (if n < 8 then bit y n else bit x (n - 8)))" for x y n
    by (auto simp: be16_of_def bit_word_cat_iff)
  have "bit a n = bit c n" if "n < 8" for n
    using bits [of a b "n + 8"] bits [of c d "n + 8"] eq that by simp
  moreover have "bit b n = bit d n" if "n < 8" for n
    using bits [of a b n] bits [of c d n] eq that by simp
  ultimately show "a = c \<and> b = d" by (intro conjI bit_word_eqI) simp_all
qed

lemma ipv6_groups_inj:
  assumes "length a = 16" "length b = 16" "ipv6_groups a = ipv6_groups b"
  shows "a = b"
proof (rule nth_equalityI)
  show "length a = length b" using assms by simp
  fix i assume i: "i < length a"
  define k where "k = i div 2"
  have k: "k < 8" using i assms(1) by (simp add: k_def)
  then have "ipv6_groups a ! k = ipv6_groups b ! k" using assms(3) by simp
  then have "a ! (2 * k) = b ! (2 * k) \<and> a ! (2 * k + 1) = b ! (2 * k + 1)"
    using k by (auto simp: ipv6_groups_def dest!: be16_of_inj)
  moreover have "i = 2 * k \<or> i = 2 * k + 1" unfolding k_def by presburger
  ultimately show "a ! i = b ! i" by auto
qed

lemma zero_run_groups:
  assumes "length gs = 8" "zero_run gs b n"
  shows "gs = take b gs @ replicate n 0 @ drop (b + n) gs"
proof -
  have "take n (drop b gs) = replicate n 0"
    using assms by (intro nth_equalityI) (auto simp: zero_run_def)
  then show ?thesis by (metis append_take_drop_id drop_drop add.commute)
qed

lemma format_ipv6_fields:
  assumes "length a = 16"
  shows "split_colon (format_ipv6 a) = map hex_group (ipv6_groups a) \<or>
     (\<exists>l n r. ipv6_groups a = l @ replicate n 0 @ r \<and> length l + n + length r = 8 \<and>
        split_colon (format_ipv6 a) = field_list l @ [[]] @ field_list r)"
proof -
  obtain bs bl where r: "best_zero_run (ipv6_groups a) = (bs, bl)" by fastforce
  have len: "length (ipv6_groups a) = 8" by (simp add: ipv6_groups_def)
  show ?thesis
  proof (cases "bs = -1")
    case True
    have "field_list (ipv6_groups a) = map hex_group (ipv6_groups a)"
      using len by (auto simp: field_list_def)
    then show ?thesis using format_ipv6_text [OF assms r] True split_join by simp
  next
    case False
    then have z: "zero_run (ipv6_groups a) (nat bs) bl" using best_zero_run_spec(1) [OF r] by auto
    then have "nat bs + bl \<le> 8" using len by (simp add: zero_run_def)
    then show ?thesis
      using format_ipv6_text [OF assms r] False split_run zero_run_groups [OF len z] len
      by (intro disjI2 exI [of _ "take (nat bs) (ipv6_groups a)"] exI [of _ bl]
          exI [of _ "drop (nat bs + bl) (ipv6_groups a)"]) simp
  qed
qed

lemma format_ipv6_inj_lemma:
  assumes a: "length a = 16" and b: "length b = 16" and eq: "format_ipv6 a = format_ipv6 b"
  shows "a = b"
proof -
  have no_empty: "[] \<notin> set (map hex_group gs)" for gs
    using hex_group_nonempty by (metis ex_map_conv)
  have has_empty: "[] \<in> set (field_list l @ [[]] @ field_list r)" for l r by simp
  consider "map hex_group (ipv6_groups a) = map hex_group (ipv6_groups b)"
    | l n r l' n' r' where "ipv6_groups a = l @ replicate n 0 @ r" "length l + n + length r = 8"
        "ipv6_groups b = l' @ replicate n' 0 @ r'" "length l' + n' + length r' = 8"
        "field_list l @ [[]] @ field_list r = field_list l' @ [[]] @ field_list r'"
    using format_ipv6_fields [OF a] format_ipv6_fields [OF b] unfolding eq
    by (metis no_empty has_empty)
  then have "ipv6_groups a = ipv6_groups b"
  proof cases
    case 1
    then show ?thesis by (rule map_hex_group_inj)
  next
    case 2
    then have "l = l'" "r = r'" using fields_run_inj by blast+
    moreover from this have "n = n'" using 2(2,4) by simp
    ultimately show ?thesis using 2(1,3) by simp
  qed
  then show ?thesis by (rule ipv6_groups_inj [OF a b])
qed

section \<open>Properties\<close>

text \<open>
  Claim C34. Two different IPv6 addresses never have the same text, so no two IPv6 sources share
  detector state: the compression of the longest zero run loses nothing.
\<close>

theorem format_ipv6_injective:
  assumes "length a = 16" "length b = 16"
  shows "format_ipv6 a = format_ipv6 b \<longleftrightarrow> a = b"
  using format_ipv6_inj_lemma [OF assms] by blast

lemma format_ipv6_injective_witness:
  "format_ipv6 (replicate 15 0 @ [1]) \<noteq> format_ipv6 (replicate 14 0 @ [1, 0])"
  using format_ipv6_injective [of "replicate 15 0 @ [1]" "replicate 14 0 @ [1, 0]"]
  by (auto simp: numeral_nat)

end
