(* ===== verification/AppLayer.thy ===== *)
theory AppLayer
  imports Packet
begin

text \<open>
  The application-layer extractors of \<open>src/ProtocolDissector.cpp\<close>: \<open>extract_dns\<close>,
  \<open>extract_http\<close> and \<open>extract_tls\<close>.

  A payload is the list of the bytes from the pointer to the end of the allocation, \<open>len\<close> the
  length the caller passes. A read past the end of the allocation is \<open>None\<close>; an early \<open>return\<close> of
  the code is \<open>Some info\<close> with \<open>info\<close> unchanged. Inside a helper \<open>Some None\<close> is the early return of
  its caller. \<open>extract_dns_safe_lemma\<close>, \<open>extract_http_safe_lemma\<close> and \<open>extract_tls_safe_lemma\<close> show
  that no read is out of bounds, whatever the bytes are.
\<close>

section \<open>DNS\<close>

definition append_label :: "string \<Rightarrow> string \<Rightarrow> string" where
  "append_label name l = (if name \<noteq> [] then name @ ''.'' else name) @ l"

function dns_labels :: "u8 list \<Rightarrow> nat \<Rightarrow> nat \<Rightarrow> nat \<Rightarrow> string \<Rightarrow> (string \<times> nat) option option" where
  "dns_labels p len off hops name =
     (if off < len \<and> hops < DNS_MAX_LABEL_HOPS then
        do { label_len \<leftarrow> byte_at p off;
             if label_len = 0 then Some (Some (name, off + 1))
             else if and label_len 0xC0 = 0xC0 then Some None
             else if off + 1 + unat label_len > len then Some None
             else do { l \<leftarrow> bytes_at p (off + 1) (unat label_len);
                       dns_labels p len (off + 1 + unat label_len) (hops + 1)
                         (append_label name (chars_of l)) } }
      else Some (Some (name, off)))"
  by pat_completeness auto
termination by (relation "measure (\<lambda>(p, len, off, hops, name). DNS_MAX_LABEL_HOPS - hops)") auto

declare dns_labels.simps [simp del]

definition extract_dns :: "u8 list \<Rightarrow> nat \<Rightarrow> packet_info \<Rightarrow> packet_info option" where
  "extract_dns p len info =
     (if len < DNS_HEADER_SIZE + 5 then Some info
      else do {
        flags \<leftarrow> byte_at p 2;
        qdcount \<leftarrow> be16_at p 4;
        if qdcount = 0 then Some info
        else do {
          r \<leftarrow> dns_labels p len DNS_HEADER_SIZE 0 [];
          case r of
            None \<Rightarrow> Some info
          | Some (name, off) \<Rightarrow>
              if name = [] \<or> off + 2 > len then Some info
              else do {
                qtype \<leftarrow> be16_at p off;
                Some (info\<lparr> dns := Some \<lparr> query_name = name, query_type = qtype,
                                           is_response = (and flags 0x80 \<noteq> 0) \<rparr>,
                            l7_proto := L7_DNS \<rparr>) } } })"

section \<open>HTTP\<close>

definition http_methods :: "string list" where
  "http_methods = [''GET '', ''POST '', ''PUT '', ''DELETE '', ''HEAD '', ''OPTIONS '', ''PATCH '',
     ''CONNECT '', ''TRACE '']"

text \<open>\<open>len >= n && memcmp(p + i, s, n) == 0\<close>.\<close>

definition prefix_at :: "u8 list \<Rightarrow> nat \<Rightarrow> nat \<Rightarrow> string \<Rightarrow> bool option" where
  "prefix_at p len i s =
     (if len - i \<ge> length s then do { bs \<leftarrow> bytes_at p i (length s); Some (chars_of bs = s) }
      else Some False)"

fun find_method :: "string list \<Rightarrow> u8 list \<Rightarrow> nat \<Rightarrow> string option" where
  "find_method [] p len = Some []"
| "find_method (m # ms) p len =
     do { b \<leftarrow> prefix_at p len 0 m;
          if b then Some (take (length m - 1) m) else find_method ms p len }"

function find_space :: "u8 list \<Rightarrow> nat \<Rightarrow> nat \<Rightarrow> nat option" where
  "find_space p len i =
     (if i < len then do { b \<leftarrow> byte_at p i; if b \<noteq> 32 then find_space p len (i + 1) else Some i }
      else Some i)"
  by pat_completeness auto
termination by (relation "measure (\<lambda>(p, len, i). len - i)") auto

definition crlf_at :: "u8 list \<Rightarrow> nat \<Rightarrow> bool option" where
  "crlf_at p i =
     do { a \<leftarrow> byte_at p i;
          if a = 13 then do { b \<leftarrow> byte_at p (i + 1); Some (b = 10) } else Some False }"

function find_crlf :: "u8 list \<Rightarrow> nat \<Rightarrow> nat \<Rightarrow> nat option" where
  "find_crlf p len i =
     (if i + 1 < len then do { b \<leftarrow> crlf_at p i; if \<not> b then find_crlf p len (i + 1) else Some i }
      else Some i)"
  by pat_completeness auto
termination by (relation "measure (\<lambda>(p, len, i). len - i)") auto

declare find_space.simps [simp del] find_crlf.simps [simp del]

lemma find_crlf_bounds: "find_crlf p len i = Some j \<Longrightarrow> i \<le> j \<and> (i \<le> len \<longrightarrow> j \<le> len)"
proof (induction p len i rule: find_crlf.induct)
  case (1 p len i)
  show ?case
  proof (cases "i + 1 < len")
    case False
    then show ?thesis using 1(2) by (subst (asm) find_crlf.simps) auto
  next
    case True
    then obtain b where b: "crlf_at p i = Some b"
      using 1(2) by (subst (asm) find_crlf.simps) (auto simp: bind_eq_Some_conv)
    show ?thesis
    proof (cases b)
      case False
      then have "find_crlf p len (i + 1) = Some j"
        using 1(2) b True by (subst (asm) find_crlf.simps) simp
      from 1(1) [OF True b False this] True show ?thesis by simp
    next
      case t: True
      then show ?thesis using 1(2) b True by (subst (asm) find_crlf.simps) simp
    qed
  qed
qed

function http_host_loop :: "u8 list \<Rightarrow> nat \<Rightarrow> nat \<Rightarrow> string option" where
  "http_host_loop p len pos =
     (if pos + 1 < len then
        do { end_of_headers \<leftarrow> crlf_at p pos;
             if end_of_headers then Some []
             else do {
               is_host \<leftarrow> prefix_at p len pos ''Host: '';
               if is_host then
                 do { val_end \<leftarrow> find_crlf p len (pos + 6);
                      bs \<leftarrow> bytes_at p (pos + 6) (val_end - (pos + 6));
                      Some (chars_of bs) }
               else do { q \<leftarrow> find_crlf p len pos; http_host_loop p len (q + 2) } } }
      else Some [])"
  by pat_completeness auto
termination
  by (relation "measure (\<lambda>(p, len, pos). len - pos)") (auto dest!: find_crlf_bounds)

declare http_host_loop.simps [simp del]

definition extract_http :: "u8 list \<Rightarrow> nat \<Rightarrow> packet_info \<Rightarrow> packet_info option" where
  "extract_http p len info =
     (if len < 16 then Some info
      else do {
        meth \<leftarrow> find_method http_methods p len;
        if meth = [] then Some info
        else do {
          uri_end \<leftarrow> find_space p len (length meth + 1);
          uri \<leftarrow> bytes_at p (length meth + 1) (uri_end - (length meth + 1));
          pos \<leftarrow> find_crlf p len 0;
          host \<leftarrow> http_host_loop p len (pos + 2);
          Some (info\<lparr> http := Some \<lparr> http_method = meth, http_host = host, http_uri = chars_of uri \<rparr>,
                      l7_proto := L7_HTTP \<rparr>) } })"

section \<open>TLS\<close>

function sni_name_loop :: "u8 list \<Rightarrow> nat \<Rightarrow> nat \<Rightarrow> string option option" where
  "sni_name_loop p sni_end off =
     (if off + 3 \<le> sni_end then
        do { name_type \<leftarrow> byte_at p off;
             name_len \<leftarrow> be16_at p (off + 1);
             if off + 3 + unat name_len > sni_end then Some None
             else if name_type = 0 then
               do { bs \<leftarrow> bytes_at p (off + 3) (unat name_len); Some (Some (chars_of bs)) }
             else sni_name_loop p sni_end (off + 3 + unat name_len) }
      else Some None)"
  by pat_completeness auto
termination by (relation "measure (\<lambda>(p, se, off). se - off)") auto

function tls_ext_loop :: "u8 list \<Rightarrow> nat \<Rightarrow> nat \<Rightarrow> string option option" where
  "tls_ext_loop p ext_end off =
     (if off + 4 \<le> ext_end then
        do { ext_type \<leftarrow> be16_at p off;
             ext_len \<leftarrow> be16_at p (off + 2);
             if off + 4 + unat ext_len > ext_end then Some None
             else if ext_type = TLS_EXTENSION_SNI then
               if off + 4 + 2 > ext_end then Some None
               else do {
                 list_len \<leftarrow> be16_at p (off + 4);
                 if off + 4 + 2 + unat list_len > ext_end then Some None
                 else sni_name_loop p (off + 4 + 2 + unat list_len) (off + 4 + 2) }
             else tls_ext_loop p ext_end (off + 4 + unat ext_len) }
      else Some None)"
  by pat_completeness auto
termination by (relation "measure (\<lambda>(p, ee, off). ee - off)") auto

declare sni_name_loop.simps [simp del] tls_ext_loop.simps [simp del]

text \<open>
  A length-prefixed field: the check that the prefix is there, the prefix, the check that the
  field is there. The result is the offset behind the field.
\<close>

definition skip_vec8 :: "u8 list \<Rightarrow> nat \<Rightarrow> nat \<Rightarrow> nat option option" where
  "skip_vec8 p len off =
     (if off + 1 > len then Some None
      else do { n \<leftarrow> byte_at p off;
                if off + 1 + unat n > len then Some None else Some (Some (off + 1 + unat n)) })"

definition skip_vec16 :: "u8 list \<Rightarrow> nat \<Rightarrow> nat \<Rightarrow> nat option option" where
  "skip_vec16 p len off =
     (if off + 2 > len then Some None
      else do { n \<leftarrow> be16_at p off;
                if off + 2 + unat n > len then Some None else Some (Some (off + 2 + unat n)) })"

text \<open>
  The header part of \<open>extract_tls\<close>, up to the extension list: the record and handshake headers,
  version and random, session id, cipher suites and compression methods. The result is the record
  version, the offset of the extension list's length and the end of the handshake message.
\<close>

definition tls_client_hello :: "u8 list \<Rightarrow> nat \<Rightarrow> (u16 \<times> nat \<times> nat) option option" where
  "tls_client_hello p len =
     (if len < 43 then Some None
      else do {
        content_type \<leftarrow> byte_at p 0;
        if content_type \<noteq> TLS_CONTENT_HANDSHAKE then Some None
        else do {
          version \<leftarrow> be16_at p 1;
          record_len \<leftarrow> be16_at p 3;
          if 5 + unat record_len > len then Some None
          else do {
            hs_type \<leftarrow> byte_at p 5;
            if hs_type \<noteq> TLS_HANDSHAKE_CLIENT_HELLO then Some None
            else do {
              b1 \<leftarrow> byte_at p 6; b2 \<leftarrow> byte_at p 7; b3 \<leftarrow> byte_at p 8;
              let hs_len = or (or (push_bit 16 (ucast b1)) (push_bit 8 (ucast b2))) (ucast b3) :: u32;
                  hs_end = 9 + unat hs_len
              in if hs_end > len then Some None
                 else if 9 + 34 > len then Some None
                 else do {
                   r1 \<leftarrow> skip_vec8 p len 43;
                   case r1 of None \<Rightarrow> Some None | Some off1 \<Rightarrow> do {
                     r2 \<leftarrow> skip_vec16 p len off1;
                     case r2 of None \<Rightarrow> Some None | Some off2 \<Rightarrow> do {
                       r3 \<leftarrow> skip_vec8 p len off2;
                       case r3 of None \<Rightarrow> Some None
                       | Some off3 \<Rightarrow> Some (Some (version, off3, hs_end)) } } } } } } })"

definition extract_tls :: "u8 list \<Rightarrow> nat \<Rightarrow> packet_info \<Rightarrow> packet_info option" where
  "extract_tls p len info =
     do { h \<leftarrow> tls_client_hello p len;
          case h of None \<Rightarrow> Some info
          | Some (version, off, hs_end) \<Rightarrow>
              if off + 2 > len then Some info
              else do {
                ext_total \<leftarrow> be16_at p off;
                let ext_end = off + 2 + unat ext_total
                in if ext_end > len \<or> ext_end > hs_end then Some info
                   else do {
                     r \<leftarrow> tls_ext_loop p ext_end (off + 2);
                     case r of None \<Rightarrow> Some info
                     | Some name \<Rightarrow>
                         Some (info\<lparr> tls := Some \<lparr> sni = name, record_version = version \<rparr>,
                                     l7_proto := L7_TLS \<rparr>) } } }"

section \<open>Memory safety\<close>

text \<open>What an extractor may change: nothing, or one application record together with \<open>l7_proto\<close>.\<close>

definition only_l7 :: "packet_info \<Rightarrow> packet_info \<Rightarrow> bool" where
  "only_l7 info info' \<longleftrightarrow> info' = info \<or>
     (\<exists>x. info' = info\<lparr> dns := Some x, l7_proto := L7_DNS \<rparr>) \<or>
     (\<exists>x. info' = info\<lparr> http := Some x, l7_proto := L7_HTTP \<rparr>) \<or>
     (\<exists>x. info' = info\<lparr> tls := Some x, l7_proto := L7_TLS \<rparr>)"

lemma only_l7_intros [simp, intro]:
  "only_l7 info info"
  "only_l7 info (info\<lparr> dns := Some d, l7_proto := L7_DNS \<rparr>)"
  "only_l7 info (info\<lparr> http := Some h, l7_proto := L7_HTTP \<rparr>)"
  "only_l7 info (info\<lparr> tls := Some t, l7_proto := L7_TLS \<rparr>)"
  unfolding only_l7_def by blast+

lemma dns_labels_safe:
  "len \<le> length p \<Longrightarrow> off \<le> len \<Longrightarrow>
   returns (\<lambda>r. \<forall>name o'. r = Some (name, o') \<longrightarrow> o' \<le> len) (dns_labels p len off hops name)"
proof (induction p len off hops name rule: dns_labels.induct)
  case (1 p len off hops name)
  show ?case
  proof (cases "off < len \<and> hops < DNS_MAX_LABEL_HOPS")
    case False
    then show ?thesis using 1(3) by (subst dns_labels.simps) (auto intro: returns_Some)
  next
    case True
    have eq: "byte_at p off = Some (p ! off)" using 1(2) True by (simp add: byte_at_def)
    have step: "returns (\<lambda>r. \<forall>name o'. r = Some (name, o') \<longrightarrow> o' \<le> len)
        (dns_labels p len (off + 1 + unat (p ! off)) (hops + 1)
          (append_label name (chars_of (take (unat (p ! off)) (drop (off + 1) p)))))"
      if "p ! off \<noteq> 0" "and (p ! off) 0xC0 \<noteq> 0xC0" "\<not> off + 1 + unat (p ! off) > len"
      by (rule 1(1) [OF True eq that]) (use that 1(2) in \<open>simp_all add: bytes_at_def\<close>)
    show ?thesis
      unfolding dns_labels.simps [of p len off hops name] eq
      by (intro returns_intros; (use True 1(2) in simp)?)
        (use True 1(2) step in \<open>auto intro!: returns_intros\<close>)
  qed
qed

lemma extract_dns_safe_lemma:
  assumes "len \<le> length p"
  shows "returns (only_l7 info) (extract_dns p len info)"
proof (cases "len < DNS_HEADER_SIZE + 5")
  case True
  then show ?thesis by (simp add: extract_dns_def returns_Some)
next
  case False
  have d: "returns (\<lambda>r. \<forall>name o'. r = Some (name, o') \<longrightarrow> o' \<le> len) (dns_labels p len DNS_HEADER_SIZE 0 [])"
    by (rule dns_labels_safe) (use assms False in auto)
  show ?thesis
    unfolding extract_dns_def using False assms
    by (auto intro!: returns_intros returns_bind [OF d] split: option.splits)
qed

lemma prefix_at_eq:
  "len \<le> length p \<Longrightarrow> s \<noteq> [] \<Longrightarrow>
   prefix_at p len i s = Some (i + length s \<le> len \<and> chars_of (take (length s) (drop i p)) = s)"
  by (cases s) (auto simp: prefix_at_def bytes_at_def)

lemma crlf_at_eq: "i + 1 < length p \<Longrightarrow> crlf_at p i = Some (p ! i = 13 \<and> p ! (i + 1) = 10)"
  by (simp add: crlf_at_def byte_at_def)

lemma find_method_safe:
  "len \<le> length p \<Longrightarrow> [] \<notin> set ms \<Longrightarrow> returns (\<lambda>m. m = [] \<or> length m + 1 \<le> len) (find_method ms p len)"
proof (induction ms)
  case Nil
  then show ?case by (simp add: returns_Some)
next
  case (Cons m ms)
  then have "m \<noteq> []" by auto
  then show ?case using Cons by (auto simp: prefix_at_eq returns_def)
qed

lemma find_space_safe:
  "len \<le> length p \<Longrightarrow> i \<le> len \<Longrightarrow> returns (\<lambda>j. i \<le> j \<and> j \<le> len) (find_space p len i)"
proof (induction p len i rule: find_space.induct)
  case (1 p len i)
  show ?case
  proof (cases "i < len")
    case False
    then show ?thesis using 1(3) by (subst find_space.simps) (simp add: returns_Some)
  next
    case True
    have eq: "byte_at p i = Some (p ! i)" using 1(2) True by (simp add: byte_at_def)
    show ?thesis
    proof (cases "p ! i = 32")
      case sp: True
      then show ?thesis using True by (subst find_space.simps) (simp add: eq returns_Some)
    next
      case False
      then have "returns (\<lambda>j. i + 1 \<le> j \<and> j \<le> len) (find_space p len (i + 1))"
        using 1(1) [OF True eq False] 1(2) True by simp
      then have "returns (\<lambda>j. i \<le> j \<and> j \<le> len) (find_space p len (i + 1))"
        by (rule returns_mono) simp
      then show ?thesis using True False by (subst find_space.simps) (simp add: eq)
    qed
  qed
qed

lemma find_crlf_safe: "len \<le> length p \<Longrightarrow> \<exists>j. find_crlf p len i = Some j"
proof (induction p len i rule: find_crlf.induct)
  case (1 p len i)
  show ?case
  proof (cases "i + 1 < len")
    case False
    then show ?thesis by (subst find_crlf.simps) simp
  next
    case True
    then have eq: "crlf_at p i = Some (p ! i = 13 \<and> p ! (i + 1) = 10)"
      using 1(2) by (simp add: crlf_at_eq)
    show ?thesis
    proof (cases "p ! i = 13 \<and> p ! (i + 1) = 10")
      case found: True
      then show ?thesis using eq by (subst find_crlf.simps) simp
    next
      case False
      then show ?thesis using 1(1) [OF True eq False 1(2)] True eq
        by (subst find_crlf.simps) simp
    qed
  qed
qed

lemma returns_find_crlf:
  assumes "len \<le> length p" "\<And>j. i \<le> j \<Longrightarrow> i \<le> len \<longrightarrow> j \<le> len \<Longrightarrow> returns P (f j)"
  shows "returns P (find_crlf p len i \<bind> f)"
proof -
  obtain j where j: "find_crlf p len i = Some j" using find_crlf_safe [OF assms(1)] by blast
  then show ?thesis using find_crlf_bounds [OF j] assms(2) by simp
qed

lemma http_host_loop_safe: "len \<le> length p \<Longrightarrow> returns (\<lambda>_. True) (http_host_loop p len pos)"
proof (induction p len pos rule: http_host_loop.induct)
  case (1 p len pos)
  show ?case
  proof (cases "pos + 1 < len")
    case False
    then show ?thesis by (subst http_host_loop.simps) (simp add: returns_Some)
  next
    case True
    let ?crlf = "p ! pos = 13 \<and> p ! (pos + 1) = 10"
    let ?host = "pos + 6 \<le> len \<and> chars_of (take 6 (drop pos p)) = ''Host: ''"
    have eq: "crlf_at p pos = Some ?crlf" using 1(2) True by (simp add: crlf_at_eq)
    have pre: "prefix_at p len pos ''Host: '' = Some ?host" using prefix_at_eq [OF 1(2), of "''Host: ''" pos] by (simp add: numeral_eq_Suc)
    show ?thesis
    proof (cases ?crlf)
      case t: True
      then show ?thesis using True by (subst http_host_loop.simps) (simp add: eq returns_Some)
    next
      case nocrlf: False
      show ?thesis
      proof (cases ?host)
        case host: True
        have "returns (\<lambda>_. True) (find_crlf p len (pos + 6) \<bind>
            (\<lambda>val_end. bytes_at p (pos + 6) (val_end - (pos + 6)) \<bind> (\<lambda>bs. Some (chars_of bs))))"
          by (rule returns_find_crlf [OF 1(2)]) (use host 1(2) in \<open>auto intro!: returns_intros\<close>)
        then show ?thesis using True nocrlf host
          unfolding http_host_loop.simps [of p len pos] eq pre by (simp add: returns_Some)
      next
        case nohost: False
        have "returns (\<lambda>_. True) (find_crlf p len pos \<bind> (\<lambda>q. http_host_loop p len (q + 2)))"
        proof -
          obtain q where q: "find_crlf p len pos = Some q" using find_crlf_safe [OF 1(2)] by blast
          show ?thesis using 1(1) [OF True eq nocrlf pre nohost q 1(2)] q by simp
        qed
        then show ?thesis using True nocrlf nohost
          unfolding http_host_loop.simps [of p len pos] eq pre by (auto simp: returns_Some)
      qed
    qed
  qed
qed

lemma extract_http_safe_lemma:
  assumes "len \<le> length p"
  shows "returns (only_l7 info) (extract_http p len info)"
proof -
  have m: "returns (\<lambda>m. m = [] \<or> length m + 1 \<le> len) (find_method http_methods p len)"
    by (rule find_method_safe [OF assms]) (simp add: http_methods_def)
  have tail: "returns (only_l7 info) (do {
      uri_end \<leftarrow> find_space p len (length meth + 1);
      uri \<leftarrow> bytes_at p (length meth + 1) (uri_end - (length meth + 1));
      pos \<leftarrow> find_crlf p len 0;
      host \<leftarrow> http_host_loop p len (pos + 2);
      Some (info\<lparr> http := Some \<lparr> http_method = meth, http_host = host, http_uri = chars_of uri \<rparr>,
                  l7_proto := L7_HTTP \<rparr>) })" if "length meth + 1 \<le> len" for meth
    by (rule returns_bind [OF find_space_safe [OF assms that]], rule returns_bytes_at,
        use assms that in simp, rule returns_find_crlf [OF assms],
        rule returns_bind [OF http_host_loop_safe [OF assms]], rule returns_Some)
      simp
  show ?thesis
    unfolding extract_http_def
    by (rule returns_if, simp add: returns_Some, rule returns_bind [OF m], rule returns_if,
        simp add: returns_Some, rule tail, simp)
qed

lemma be16_at_some: "i + 1 < length p \<Longrightarrow> \<exists>w. be16_at p i = Some w"
  by (simp add: be16_at_def byte_at_def)

lemma sni_name_loop_safe: "sni_end \<le> length p \<Longrightarrow> returns (\<lambda>_. True) (sni_name_loop p sni_end off)"
proof (induction p sni_end off rule: sni_name_loop.induct)
  case (1 p sni_end off)
  show ?case
  proof (cases "off + 3 \<le> sni_end")
    case False
    then show ?thesis by (subst sni_name_loop.simps) (simp add: returns_Some)
  next
    case True
    have t: "byte_at p off = Some (p ! off)" using 1(2) True by (simp add: byte_at_def)
    obtain n where n: "be16_at p (off + 1) = Some n" using be16_at_some 1(2) True by fastforce
    have step: "returns (\<lambda>_. True) (sni_name_loop p sni_end (off + 3 + unat n))"
      if "\<not> off + 3 + unat n > sni_end" "p ! off \<noteq> 0"
      by (rule 1(1) [OF True t n that 1(2)])
    show ?thesis
      unfolding sni_name_loop.simps [of p sni_end off] t n using True 1(2) step
      by (simp add: returns_Some bytes_at_def)
  qed
qed

lemma tls_ext_loop_safe: "ext_end \<le> length p \<Longrightarrow> returns (\<lambda>_. True) (tls_ext_loop p ext_end off)"
proof (induction p ext_end off rule: tls_ext_loop.induct)
  case (1 p ext_end off)
  show ?case
  proof (cases "off + 4 \<le> ext_end")
    case False
    then show ?thesis by (subst tls_ext_loop.simps) (simp add: returns_Some)
  next
    case True
    obtain t where t: "be16_at p off = Some t" using be16_at_some 1(2) True by fastforce
    obtain n where n: "be16_at p (off + 2) = Some n" using be16_at_some 1(2) True by fastforce
    have step: "returns (\<lambda>_. True) (tls_ext_loop p ext_end (off + 4 + unat n))"
      if "\<not> off + 4 + unat n > ext_end" "t \<noteq> TLS_EXTENSION_SNI"
      by (rule 1(1) [OF True t n that 1(2)])
    have names: "returns (\<lambda>_. True) (do {
         list_len \<leftarrow> be16_at p (off + 4);
         if off + 4 + 2 + unat list_len > ext_end then Some None
         else sni_name_loop p (off + 4 + 2 + unat list_len) (off + 4 + 2) })"
      if "\<not> off + 4 + 2 > ext_end"
      by (rule returns_be16_at, use that 1(2) in simp, rule returns_if, simp add: returns_Some,
          rule sni_name_loop_safe, use 1(2) in simp)
    show ?thesis
      unfolding tls_ext_loop.simps [of p ext_end off] t n using True step names
      by (simp add: returns_Some)
  qed
qed

lemma skip_vec8_safe:
  "len \<le> length p \<Longrightarrow> returns (\<lambda>r. \<forall>o'. r = Some o' \<longrightarrow> o' \<le> len) (skip_vec8 p len off)"
  unfolding skip_vec8_def by (auto intro!: returns_intros)

lemma skip_vec16_safe:
  "len \<le> length p \<Longrightarrow> returns (\<lambda>r. \<forall>o'. r = Some o' \<longrightarrow> o' \<le> len) (skip_vec16 p len off)"
  unfolding skip_vec16_def by (auto intro!: returns_intros)

lemma returns_opt_bind:
  assumes "returns (\<lambda>r. \<forall>x. r = Some x \<longrightarrow> Q x) m" "returns P n" "\<And>x. Q x \<Longrightarrow> returns P (f x)"
  shows "returns P (m \<bind> (\<lambda>r. case r of None \<Rightarrow> n | Some x \<Rightarrow> f x))"
proof -
  obtain r where m: "m = Some r" "\<forall>x. r = Some x \<longrightarrow> Q x" using assms(1) by (auto simp: returns_iff)
  then show ?thesis using assms(2,3) by (cases r) simp_all
qed

lemma tls_client_hello_safe:
  assumes len: "len \<le> length p"
  shows "returns (\<lambda>r. \<forall>x. r = Some x \<longrightarrow> fst (snd x) \<le> len) (tls_client_hello p len)"
proof -
  have tail: "returns (\<lambda>r. \<forall>x. r = Some x \<longrightarrow> fst (snd x) \<le> len) (do {
       r1 \<leftarrow> skip_vec8 p len 43;
       case r1 of None \<Rightarrow> Some None | Some off1 \<Rightarrow> do {
         r2 \<leftarrow> skip_vec16 p len off1;
         case r2 of None \<Rightarrow> Some None | Some off2 \<Rightarrow> do {
           r3 \<leftarrow> skip_vec8 p len off2;
           case r3 of None \<Rightarrow> Some None
           | Some off3 \<Rightarrow> Some (Some (version, off3, hs_end)) } } })" for version :: u16 and hs_end :: nat
    by (rule returns_opt_bind [OF skip_vec8_safe [OF len]], simp add: returns_Some,
        rule returns_opt_bind [OF skip_vec16_safe [OF len]], simp add: returns_Some,
        rule returns_opt_bind [OF skip_vec8_safe [OF len]]) (auto intro: returns_Some)
  show ?thesis
    unfolding tls_client_hello_def Let_def
    by (rule returns_if, simp add: returns_Some)
      (intro returns_intros tail; (use len in linarith)?; simp)
qed

lemma extract_tls_safe_lemma:
  assumes len: "len \<le> length p"
  shows "returns (only_l7 info) (extract_tls p len info)"
proof -
  have tail: "returns (only_l7 info) (if off + 2 > len then Some info
        else do {
          ext_total \<leftarrow> be16_at p off;
          let ext_end = off + 2 + unat ext_total
          in if ext_end > len \<or> ext_end > hs_end then Some info
             else do {
               r \<leftarrow> tls_ext_loop p ext_end (off + 2);
               case r of None \<Rightarrow> Some info
               | Some name \<Rightarrow>
                   Some (info\<lparr> tls := Some \<lparr> sni = name, record_version = version \<rparr>,
                               l7_proto := L7_TLS \<rparr>) } })" for off hs_end version
    unfolding Let_def
    by (rule returns_if, simp add: returns_Some, rule returns_be16_at, use len in simp,
        rule returns_if, simp add: returns_Some, rule returns_bind [OF tls_ext_loop_safe])
      (use len in \<open>auto simp: returns_def split: option.splits\<close>)
  show ?thesis
    unfolding extract_tls_def
    by (rule returns_opt_bind [OF tls_client_hello_safe [OF len]], simp add: returns_Some)
      (simp only: split_paired_all prod.case tail)
qed

end
