(* ===== verification/AppLayerSpec.thy ===== *)
theory AppLayerSpec
  imports AppLayer
begin

text \<open>
  What the extractors of \<open>AppLayer\<close> recover: the wire encoders of a DNS question and of a TLS
  ClientHello with a server name, and the round trips through the extractors.
\<close>

section \<open>Encoders\<close>

definition be16_bytes :: "nat \<Rightarrow> u8 list" where
  "be16_bytes n = [of_nat (n div 256), of_nat (n mod 256)]"

definition vec8 :: "u8 list \<Rightarrow> u8 list" where
  "vec8 v = of_nat (length v) # v"

definition vec16 :: "u8 list \<Rightarrow> u8 list" where
  "vec16 v = be16_bytes (length v) @ v"

lemma unat_be16_of: "unat (be16_of a b) = unat a * 256 + unat b"
proof -
  have lt: "uint a < 256" "uint b < 256" using uint_lt2p [of a] uint_lt2p [of b] by simp_all
  have "take_bit 8 (uint b) = uint b" using lt by (simp add: take_bit_eq_mod)
  then have "uint (be16_of a b) = take_bit 16 (uint b + 256 * uint a)"
    unfolding be16_of_def word_cat_eq'
    by (simp only: concat_bit_eq unsigned_of_int) (simp add: push_bit_eq_mult mult.commute)
  with lt have "uint (be16_of a b) = uint b + 256 * uint a"
    by (simp add: take_bit_eq_mod)
  then have "int (unat (be16_of a b)) = int (unat a * 256 + unat b)" by simp
  then show ?thesis by (simp only: of_nat_eq_iff)
qed

lemma unat_of_nat_u8: "n < 256 \<Longrightarrow> unat (of_nat n :: u8) = n"
  by (simp add: unsigned_of_nat take_bit_eq_mod)

lemma length_be16_bytes [simp]: "length (be16_bytes n) = 2"
  by (simp add: be16_bytes_def)

lemma byte_at_append: "byte_at (pre @ b # rest) (length pre) = Some b"
  by (simp add: byte_at_def)

lemma be16_at_append:
  "n < 65536 \<Longrightarrow> \<exists>w. be16_at (pre @ be16_bytes n @ rest) (length pre) = Some w \<and> unat w = n"
  by (simp add: be16_at_def byte_at_def be16_bytes_def nth_append unat_be16_of unat_of_nat_u8)

lemma bytes_at_append: "bytes_at (pre @ v @ rest) (length pre) (length v) = Some v"
  by (simp add: bytes_at_def)

section \<open>DNS names\<close>

text \<open>A name on the wire: labels of 1 to 63 bytes, each behind its length, and an empty label.\<close>

definition dns_label_ok :: "u8 list \<Rightarrow> bool" where
  "dns_label_ok l \<longleftrightarrow> 1 \<le> length l \<and> length l \<le> 63"

definition dns_name_bytes :: "u8 list list \<Rightarrow> u8 list" where
  "dns_name_bytes ls = concat (map vec8 ls) @ [0]"

fun dotted :: "string list \<Rightarrow> string" where
  "dotted [] = []"
| "dotted [l] = l"
| "dotted (l # ls) = l @ ''.'' @ dotted ls"

lemma dotted_snoc: "ls \<noteq> [] \<Longrightarrow> dotted (ls @ [l]) = dotted ls @ ''.'' @ l"
  by (induction ls rule: dotted.induct) auto

lemma foldl_append_label: "[] \<notin> set ls \<Longrightarrow> foldl append_label [] ls = dotted ls"
proof (induction ls rule: rev_induct)
  case Nil
  then show ?case by simp
next
  case (snoc l ls)
  then have IH: "foldl append_label [] ls = dotted ls" by simp
  show ?case
  proof (cases "ls = []")
    case True
    then show ?thesis by (simp add: append_label_def)
  next
    case False
    then have "dotted ls \<noteq> []" using snoc.prems by (cases ls rule: dotted.cases) auto
    moreover have "foldl append_label [] (ls @ [l]) = append_label (dotted ls) l"
      using IH by simp
    ultimately show ?thesis using False by (simp add: append_label_def [of "dotted ls"] dotted_snoc)
  qed
qed

lemma label_len_no_pointer:
  assumes "n \<le> 63"
  shows "and (of_nat n :: u8) 0xC0 \<noteq> 0xC0"
proof
  assume eq: "and (of_nat n :: u8) 0xC0 = 0xC0"
  have "n = take_bit 6 n" using assms by (simp add: take_bit_eq_mod)
  then have "\<not> bit n 6" by (metis bit_take_bit_iff less_irrefl)
  then have "\<not> bit (of_nat n :: u8) 6" by (simp add: bit_of_nat_iff)
  moreover have "bit (0xC0 :: u8) 6" by simp
  ultimately show False using eq by (metis bit_and_iff)
qed

lemma dns_labels_encoded:
  assumes "p = pre @ concat (map vec8 ls) @ 0 # rest" "len \<le> length p"
    and "length pre + length (concat (map vec8 ls)) < len"
    and "\<forall>l \<in> set ls. dns_label_ok l" "hops + length ls < DNS_MAX_LABEL_HOPS"
  shows "dns_labels p len (length pre) hops name =
     Some (Some (foldl append_label name (map chars_of ls),
       length pre + length (concat (map vec8 ls)) + 1))"
  using assms
proof (induction ls arbitrary: pre hops name)
  case Nil
  then show ?case by (subst dns_labels.simps) (simp add: byte_at_append)
next
  case (Cons l ls)
  let ?pre' = "pre @ vec8 l"
  have l: "1 \<le> length l" "length l \<le> 63" using Cons.prems(4) by (auto simp: dns_label_ok_def)
  have u: "unat (of_nat (length l) :: u8) = length l" using l by (intro unat_of_nat_u8) simp
  have p1: "p = pre @ of_nat (length l) # (l @ concat (map vec8 ls) @ 0 # rest)"
    using Cons.prems(1) by (simp add: vec8_def [of l])
  have p2: "p = (pre @ [of_nat (length l)]) @ l @ (concat (map vec8 ls) @ 0 # rest)"
    using p1 by simp
  have b: "byte_at p (length pre) = Some (of_nat (length l))"
    unfolding p1 by (rule byte_at_append)
  have bs: "bytes_at p (length pre + 1) (length l) = Some l"
    using bytes_at_append [of "pre @ [of_nat (length l)]" l "concat (map vec8 ls) @ 0 # rest"]
    unfolding p2 by simp
  have nz: "(of_nat (length l) :: u8) \<noteq> 0" using u l by (metis unat_0 not_one_le_zero)
  have IH: "dns_labels p len (length ?pre') (hops + 1) (append_label name (chars_of l)) =
     Some (Some (foldl append_label (append_label name (chars_of l)) (map chars_of ls),
       length ?pre' + length (concat (map vec8 ls)) + 1))"
    by (rule Cons.IH) (use Cons.prems in \<open>auto simp: vec8_def\<close>)
  have fits: "length pre < len" "length pre + 1 + length l \<le> len" "hops < DNS_MAX_LABEL_HOPS"
    using Cons.prems(3,5) by (auto simp: vec8_def)
  have "length ?pre' = length pre + 1 + length l" by (simp add: vec8_def)
  then show ?case
    using IH fits nz label_len_no_pointer [OF l(2)]
    by (subst dns_labels.simps) (simp add: b bs [simplified] u vec8_def [of l])
qed

text \<open>A DNS message with a question: the extractor recovers its name, type and direction.\<close>

lemma extract_dns_encoded:
  assumes hdr: "length hdr = 12" "be16_of (hdr ! 4) (hdr ! 5) \<noteq> 0"
    and ls: "ls \<noteq> []" "length ls < DNS_MAX_LABEL_HOPS" "\<forall>l \<in> set ls. dns_label_ok l"
    and p: "p = hdr @ dns_name_bytes ls @ [q1, q2] @ rest"
  shows "extract_dns p (length p) info =
     Some (info\<lparr> dns := Some \<lparr> query_name = dotted (map chars_of ls), query_type = be16_of q1 q2,
                               is_response = (and (hdr ! 2) 0x80 \<noteq> 0) \<rparr>,
                 l7_proto := L7_DNS \<rparr>)"
proof -
  obtain l ls' where l: "ls = l # ls'" using ls(1) by (cases ls) auto
  have nonempty: "[] \<notin> set (map chars_of ls)"
    using ls(3) by (auto simp: dns_label_ok_def chars_of_def)
  have name: "foldl append_label [] (map chars_of ls) = dotted (map chars_of ls)"
    by (rule foldl_append_label [OF nonempty])
  then have name_ne: "dotted (map chars_of ls) \<noteq> []"
    using nonempty l by (cases "map chars_of ls" rule: dotted.cases) auto
  have "dns_labels p (length p) (length hdr) 0 [] = Some (Some (foldl append_label [] (map chars_of ls),
       length hdr + length (concat (map vec8 ls)) + 1))"
    by (rule dns_labels_encoded) (use ls p in \<open>auto simp: dns_name_bytes_def\<close>)
  then have labels: "dns_labels p (length p) 12 0 [] =
      Some (Some (dotted (map chars_of ls), 12 + length (dns_name_bytes ls)))"
    by (simp add: hdr name dns_name_bytes_def)
  have qt: "be16_at p (12 + length (dns_name_bytes ls)) = Some (be16_of q1 q2)"
    using hdr by (simp add: p be16_at_def byte_at_def nth_append)
  have qd: "be16_at p 4 = Some (be16_of (hdr ! 4) (hdr ! 5))" and fl: "byte_at p 2 = Some (hdr ! 2)"
    using hdr by (simp_all add: p be16_at_def byte_at_def nth_append)
  have "1 \<le> length l" using ls(3) l by (simp add: dns_label_ok_def)
  then have "3 \<le> length (dns_name_bytes ls)" by (simp add: dns_name_bytes_def l vec8_def)
  then have len: "17 \<le> length p" "12 + length (dns_name_bytes ls) + 2 \<le> length p"
    using hdr by (simp_all add: p)
  show ?thesis
    unfolding extract_dns_def using len hdr(2) by (simp add: qd fl labels qt name_ne)
qed

section \<open>TLS ClientHello\<close>

text \<open>
  The extensions in front of the server name (any type but 0), the server-name extension with one
  host name, and the message around them: the record header, the handshake header, version and
  random (34 bytes), session id, cipher suites, compression methods, extensions.
\<close>

definition tls_ext :: "nat \<Rightarrow> u8 list \<Rightarrow> u8 list" where
  "tls_ext t body = be16_bytes t @ vec16 body"

definition tls_sni_body :: "u8 list \<Rightarrow> u8 list" where
  "tls_sni_body host = vec16 (0 # vec16 host)"

definition tls_exts :: "(nat \<times> u8 list) list \<Rightarrow> u8 list \<Rightarrow> u8 list" where
  "tls_exts es host = concat (map (\<lambda>(t, b). tls_ext t b) es) @ tls_ext 0 (tls_sni_body host)"

definition ext_ok :: "nat \<times> u8 list \<Rightarrow> bool" where
  "ext_ok e \<longleftrightarrow> 0 < fst e \<and> fst e < 65536 \<and> length (snd e) < 65536"

lemma length_vec8 [simp]: "length (vec8 v) = 1 + length v"
  by (simp add: vec8_def)

lemma length_vec16 [simp]: "length (vec16 v) = 2 + length v"
  by (simp add: vec16_def)

lemma length_tls_ext [simp]: "length (tls_ext t b) = 4 + length b"
  by (simp add: tls_ext_def)

lemma skip_vec8_encoded:
  assumes "p = pre @ vec8 v @ rest" "length v < 256" "len = length p" "off = length pre"
  shows "skip_vec8 p len off = Some (Some (length pre + 1 + length v))"
proof -
  have "byte_at p (length pre) = Some (of_nat (length v))"
    using assms(1) byte_at_append by (simp add: vec8_def)
  then show ?thesis using assms by (simp add: skip_vec8_def unat_of_nat_u8)
qed

lemma skip_vec16_encoded:
  assumes "p = pre @ vec16 v @ rest" "length v < 65536" "len = length p" "off = length pre"
  shows "skip_vec16 p len off = Some (Some (length pre + 2 + length v))"
proof -
  obtain w where "be16_at p (length pre) = Some w" "unat w = length v"
    using assms(1) be16_at_append [OF assms(2)] by (auto simp: vec16_def)
  then show ?thesis using assms by (simp add: skip_vec16_def)
qed

lemma sni_name_loop_encoded:
  assumes p: "p = pre @ 0 # vec16 host @ rest" and h: "length host < 65536"
    and e: "sni_end = length pre + 3 + length host"
  shows "sni_name_loop p sni_end (length pre) = Some (Some (chars_of host))"
proof -
  have "byte_at p (length pre) = Some 0" unfolding p by (rule byte_at_append)
  moreover obtain w where "be16_at p (length pre + 1) = Some w" "unat w = length host"
    using be16_at_append [OF h, of "pre @ [0]" "host @ rest"] by (auto simp: p vec16_def)
  moreover have "bytes_at p (length pre + 3) (length host) = Some host"
    using bytes_at_append [of "pre @ 0 # be16_bytes (length host)" host rest]
    by (simp add: p vec16_def)
  ultimately show ?thesis using e by (subst sni_name_loop.simps) simp
qed

lemma tls_ext_loop_sni:
  assumes p: "p = pre @ tls_ext 0 (tls_sni_body host) @ rest" and h: "length host < 65500"
    and e: "ext_end = length pre + 9 + length host"
  shows "tls_ext_loop p ext_end (length pre) = Some (Some (chars_of host))"
proof -
  define n1 where "n1 = 5 + length host"
  define n2 where "n2 = 3 + length host"
  have n12: "n1 < 65536" "n2 < 65536" using h by (simp_all add: n1_def n2_def)
  have l2: "length (0 # vec16 host) = n2" by (simp add: n2_def)
  have l1: "length (tls_sni_body host) = n1" by (simp add: n1_def tls_sni_body_def)
  have p': "p = pre @ be16_bytes 0 @ be16_bytes n1 @ be16_bytes n2 @ 0 # vec16 host @ rest"
    unfolding p tls_ext_def vec16_def [of "tls_sni_body host"] l1
    unfolding tls_sni_body_def vec16_def [of "0 # vec16 host"] l2 by simp
  obtain t where t: "be16_at p (length pre) = Some t" "unat t = 0"
    using be16_at_append [of 0 pre] unfolding p' by fastforce
  obtain n where n: "be16_at p (length pre + 2) = Some n" "unat n = n1"
    using be16_at_append [OF n12(1), of "pre @ be16_bytes 0"] by (auto simp: p')
  obtain m where m: "be16_at p (length pre + 4) = Some m" "unat m = n2"
    using be16_at_append [OF n12(2), of "pre @ be16_bytes 0 @ be16_bytes n1"] by (auto simp: p')
  have "sni_name_loop p ext_end (length (pre @ be16_bytes 0 @ be16_bytes n1 @ be16_bytes n2)) =
      Some (Some (chars_of host))"
    by (rule sni_name_loop_encoded [of _ _ host rest]) (use h e in \<open>simp_all add: p'\<close>)
  then have s: "sni_name_loop p ext_end (length pre + 4 + 2) = Some (Some (chars_of host))"
    by (simp add: add.commute)
  have "t = 0" using t(2) by (simp add: unat_eq_zero)
  moreover have "length pre + 4 + 2 + unat m = ext_end" using m(2) e by (simp add: n2_def)
  moreover have "length pre + 4 + unat n = ext_end" using n(2) e by (simp add: n1_def)
  ultimately show ?thesis
    unfolding tls_ext_loop.simps [of p ext_end "length pre"] t(1) n(1)
    using m(1) s by simp
qed

lemma tls_ext_loop_encoded:
  assumes "p = pre @ tls_exts es host @ rest" "length host < 65500" "\<forall>x \<in> set es. ext_ok x"
    and "ext_end = length pre + length (tls_exts es host)"
  shows "tls_ext_loop p ext_end (length pre) = Some (Some (chars_of host))"
  using assms
proof (induction es arbitrary: pre)
  case Nil
  then show ?case by (intro tls_ext_loop_sni) (auto simp: tls_exts_def tls_sni_body_def)
next
  case (Cons x es)
  obtain t b where x: "x = (t, b)" by (cases x)
  have ok: "0 < t" "t < 65536" "length b < 65536" using Cons.prems(3) x by (auto simp: ext_ok_def)
  have exts: "tls_exts (x # es) host = tls_ext t b @ tls_exts es host"
    by (simp add: tls_exts_def x)
  have IH: "tls_ext_loop p ext_end (length (pre @ tls_ext t b)) = Some (Some (chars_of host))"
    by (rule Cons.IH) (use Cons.prems exts in auto)
  obtain w where w: "be16_at p (length pre) = Some w" "unat w = t"
    using be16_at_append [OF ok(2), of pre] by (auto simp: Cons.prems(1) exts tls_ext_def)
  obtain n where n: "be16_at p (length pre + 2) = Some n" "unat n = length b"
    using be16_at_append [OF ok(3), of "pre @ be16_bytes t"]
    by (auto simp: Cons.prems(1) exts tls_ext_def vec16_def)
  have "w \<noteq> 0" using w ok(1) by auto
  moreover have "length pre + 4 + length b \<le> ext_end" using Cons.prems(4) exts by simp
  ultimately show ?case
    using IH w n by (subst tls_ext_loop.simps) (simp add: add.assoc)
qed

text \<open>The message, with the length fields the extractor checks.\<close>

definition tls_hello_body :: "u8 list \<Rightarrow> u8 list \<Rightarrow> u8 list \<Rightarrow> u8 list \<Rightarrow> u8 list \<Rightarrow> u8 list" where
  "tls_hello_body version_random sid suites methods exts =
     version_random @ vec8 sid @ vec16 suites @ vec8 methods @ vec16 exts"

definition be24_bytes :: "nat \<Rightarrow> u8 list" where
  "be24_bytes n = [of_nat (n div 65536), of_nat (n div 256 mod 256), of_nat (n mod 256)]"

definition tls_hello :: "u8 \<Rightarrow> u8 \<Rightarrow> u8 list \<Rightarrow> u8 list" where
  "tls_hello v1 v2 body =
     [0x16, v1, v2] @ be16_bytes (4 + length body) @ [0x01] @ be24_bytes (length body) @ body"

lemma be24_value:
  assumes "n < 65536"
  shows "unat (or (or (push_bit 16 (ucast (of_nat (n div 65536) :: u8)))
      (push_bit 8 (ucast (of_nat (n div 256 mod 256) :: u8))))
      (ucast (of_nat (n mod 256) :: u8)) :: u32) = n"
proof -
  have "or (push_bit 8 (ucast a)) (ucast b) = (ucast (be16_of a b) :: u32)" for a b :: u8
    by (rule bit_word_eqI) (auto simp: bit_simps be16_of_def bit_word_cat_iff dest: bit_imp_le_length)
  moreover have "unat (be16_of (of_nat (n div 256 mod 256)) (of_nat (n mod 256))) = n"
    using assms by (simp add: unat_be16_of unat_of_nat_u8)
  ultimately show ?thesis using assms by (simp add: unsigned_ucast_eq take_bit_eq_mod)
qed

text \<open>The offset of the extensions in a message built with \<open>tls_hello\<close>.\<close>

definition exts_offset :: "u8 list \<Rightarrow> u8 list \<Rightarrow> u8 list \<Rightarrow> nat" where
  "exts_offset sid suites methods = 43 + 1 + length sid + 2 + length suites + 1 + length methods"

lemma tls_client_hello_encoded:
  assumes sizes: "length vr = 34" "length sid < 256" "length suites < 65536" "length methods < 256"
      "length (tls_hello_body vr sid suites methods exts) < 65532"
    and p: "p = tls_hello v1 v2 (tls_hello_body vr sid suites methods exts) @ rest"
  shows "tls_client_hello p (length p) = Some (Some (be16_of v1 v2, exts_offset sid suites methods,
     9 + length (tls_hello_body vr sid suites methods exts)))"
proof -
  define body where "body = tls_hello_body vr sid suites methods exts"
  define n where "n = length body"
  define hdr where "hdr = [0x16, v1, v2] @ be16_bytes (4 + n) @ [0x01] @ be24_bytes n"
  have n: "n < 65532" "4 + n < 65536" using sizes(5) by (simp_all add: n_def body_def)
  have lhdr: "length hdr = 9" by (simp add: hdr_def be24_bytes_def)
  have p1: "p = hdr @ body @ rest" by (simp add: p tls_hello_def hdr_def n_def body_def)
  define o1 where "o1 = 43 + 1 + length sid"
  define o2 where "o2 = o1 + 2 + length suites"
  define o3 where "o3 = o2 + 1 + length methods"
  have pb: "p = hdr @ vr @ vec8 sid @ vec16 suites @ vec8 methods @ vec16 exts @ rest"
    by (simp add: p1 body_def tls_hello_body_def)
  have lb: "43 \<le> n + 9" "o3 + 2 + length exts = 9 + n"
    using sizes(1) by (simp_all add: n_def body_def tls_hello_body_def o3_def o2_def o1_def)
  have lp: "length p = 9 + n + length rest" by (simp add: p1 lhdr n_def)
  have s1: "skip_vec8 p (length p) 43 = Some (Some o1)"
    by (rule skip_vec8_encoded [of p "hdr @ vr" sid "vec16 suites @ vec8 methods @ vec16 exts @ rest",
          THEN trans]) (use pb sizes lhdr in \<open>simp_all add: o1_def\<close>)
  have s2: "skip_vec16 p (length p) o1 = Some (Some o2)"
    by (rule skip_vec16_encoded [of p "hdr @ vr @ vec8 sid" suites "vec8 methods @ vec16 exts @ rest",
          THEN trans]) (use pb sizes lhdr in \<open>simp_all add: o1_def o2_def\<close>)
  have s3: "skip_vec8 p (length p) o2 = Some (Some o3)"
    by (rule skip_vec8_encoded [of p "hdr @ vr @ vec8 sid @ vec16 suites" methods "vec16 exts @ rest",
          THEN trans]) (use pb sizes lhdr in \<open>simp_all add: o1_def o2_def o3_def\<close>)
  have fields: "byte_at p 0 = Some 0x16" "be16_at p 1 = Some (be16_of v1 v2)" "byte_at p 5 = Some 0x01"
    "byte_at p 6 = Some (of_nat (n div 65536))" "byte_at p 7 = Some (of_nat (n div 256 mod 256))"
    "byte_at p 8 = Some (of_nat (n mod 256))"
    unfolding p1 hdr_def be16_bytes_def be24_bytes_def by (simp_all add: byte_at_def be16_at_def)
  obtain r where r: "be16_at p 3 = Some r" "unat r = 4 + n"
    using be16_at_append [OF n(2), of "[0x16, v1, v2]"] by (auto simp: p1 hdr_def eval_nat_numeral)
  have be24: "unat (or (or (push_bit 16 (ucast (of_nat (n div 65536) :: u8)))
      (push_bit 8 (ucast (of_nat (n div 256 mod 256) :: u8))))
      (ucast (of_nat (n mod 256) :: u8)) :: u32) = n"
    by (rule be24_value) (use n in simp)
  have "tls_client_hello p (length p) = Some (Some (be16_of v1 v2, o3, 9 + n))"
    unfolding tls_client_hello_def Let_def fields r(1)
    using lp lb n s1 s2 s3 be24 by (simp add: r(2))
  then show ?thesis by (simp add: exts_offset_def o1_def o2_def o3_def n_def body_def)
qed

lemma tls_exts_encoded:
  assumes sizes: "length vr = 34" "length sid < 256" "length suites < 65536" "length methods < 256"
      "length (tls_hello_body vr sid suites methods (tls_exts es host)) < 65532"
    and es: "\<forall>x \<in> set es. ext_ok x"
    and p: "p = tls_hello v1 v2 (tls_hello_body vr sid suites methods (tls_exts es host)) @ rest"
  defines "off \<equiv> exts_offset sid suites methods" and "n \<equiv> length (tls_exts es host)"
  shows "\<exists>x. be16_at p off = Some x \<and> unat x = n" "tls_ext_loop p (off + 2 + n) (off + 2) = Some (Some (chars_of host))"
    and "off + 2 + n = 9 + length (tls_hello_body vr sid suites methods (tls_exts es host))"
    and "off + 2 + n \<le> length p"
proof -
  define hdr where "hdr = [0x16, v1, v2] @ be16_bytes (4 + length (tls_hello_body vr sid suites methods
      (tls_exts es host))) @ [0x01] @ be24_bytes (length (tls_hello_body vr sid suites methods (tls_exts es host)))"
  define pre where "pre = hdr @ vr @ vec8 sid @ vec16 suites @ vec8 methods"
  have pb: "p = pre @ vec16 (tls_exts es host) @ rest"
    by (simp add: p tls_hello_def tls_hello_body_def hdr_def pre_def)
  have lpre: "length pre = off"
    using sizes(1) by (simp add: pre_def hdr_def be24_bytes_def off_def exts_offset_def)
  show body: "off + 2 + n = 9 + length (tls_hello_body vr sid suites methods (tls_exts es host))"
    using sizes(1) by (simp add: off_def n_def exts_offset_def tls_hello_body_def)
  have n: "n < 65536" "n < 65508" using body sizes(5) by (simp_all add: off_def exts_offset_def)
  show "\<exists>x. be16_at p off = Some x \<and> unat x = n"
    using be16_at_append [of n pre "tls_exts es host @ rest"] n(1) lpre
    by (auto simp: pb vec16_def n_def)
  show "off + 2 + n \<le> length p" by (simp add: pb lpre n_def)
  have "tls_ext_loop p (off + 2 + n) (length (pre @ be16_bytes n)) = Some (Some (chars_of host))"
  proof (rule tls_ext_loop_encoded [OF _ _ es])
    show "p = (pre @ be16_bytes n) @ tls_exts es host @ rest" by (simp add: pb vec16_def n_def)
    show "length host < 65500" using n(2) by (simp add: n_def tls_exts_def tls_sni_body_def)
  qed (simp add: lpre n_def)
  then show "tls_ext_loop p (off + 2 + n) (off + 2) = Some (Some (chars_of host))" by (simp add: lpre)
qed

lemma extract_tls_encoded:
  assumes "length vr = 34" "length sid < 256" "length suites < 65536" "length methods < 256"
    and "length (tls_hello_body vr sid suites methods (tls_exts es host)) < 65532"
    and "\<forall>x \<in> set es. ext_ok x"
    and "p = tls_hello v1 v2 (tls_hello_body vr sid suites methods (tls_exts es host)) @ rest"
  shows "extract_tls p (length p) info =
     Some (info\<lparr> tls := Some \<lparr> sni = chars_of host, record_version = be16_of v1 v2 \<rparr>,
                 l7_proto := L7_TLS \<rparr>)"
proof -
  note exts = tls_exts_encoded [OF assms]
  obtain x where x: "be16_at p (exts_offset sid suites methods) = Some x" "unat x = length (tls_exts es host)"
    using exts(1) by blast
  show ?thesis
    unfolding extract_tls_def tls_client_hello_encoded [OF assms(1-5,7)]
    using x exts(2,3,4) by (simp add: Let_def)
qed

section \<open>Properties\<close>

text \<open>
  Claim C18. The server name of a TLS ClientHello is recovered, whatever session id, cipher suites,
  compression methods and extensions stand in front of it, and whatever follows the message.
\<close>

theorem extract_tls_server_name:
  assumes "length vr = 34" "length sid < 256" "length suites < 65536" "length methods < 256"
    and "length (tls_hello_body vr sid suites methods (tls_exts es host)) < 65532"
    and "\<forall>x \<in> set es. ext_ok x"
    and "p = tls_hello v1 v2 (tls_hello_body vr sid suites methods (tls_exts es host)) @ rest"
  shows "extract_tls p (length p) info =
     Some (info\<lparr> tls := Some \<lparr> sni = chars_of host, record_version = be16_of v1 v2 \<rparr>,
                 l7_proto := L7_TLS \<rparr>)"
  by (rule extract_tls_encoded [OF assms])

definition sample_hello :: "u8 list" where
  "sample_hello = tls_hello 3 1 (tls_hello_body (replicate 34 7) [9] [0, 47] [0]
     (tls_exts [(10, [0, 2])] [97, 46, 98])) @ [1]"

lemma extract_tls_server_name_witness:
  "extract_tls sample_hello (length sample_hello) empty_info =
     Some (empty_info\<lparr> tls := Some \<lparr> sni = chars_of [97, 46, 98], record_version = be16_of 3 1 \<rparr>,
                       l7_proto := L7_TLS \<rparr>)"
  by (rule extract_tls_server_name [OF _ _ _ _ _ _ sample_hello_def])
    (simp_all add: tls_hello_body_def tls_exts_def tls_sni_body_def ext_ok_def)

end
