(* ===== verification/HttpSpec.thy ===== *)
theory HttpSpec
  imports AppLayerSpec
begin

text \<open>
  \<open>extract_http\<close> against requests as clients write them: a request line, header lines, the \<open>Host\<close>
  header and anything behind it. The property is a round trip over all requests of this form.
\<close>

section \<open>Requests\<close>

definition ascii :: "string \<Rightarrow> u8 list" where
  "ascii s = map (\<lambda>c. of_nat (of_char c)) s"

definition crlf :: "u8 list" where
  "crlf = [13, 10]"

definition header_lines :: "u8 list list \<Rightarrow> u8 list" where
  "header_lines hs = concat (map (\<lambda>h. h @ crlf) hs)"

definition request_line :: "string \<Rightarrow> u8 list \<Rightarrow> u8 list \<Rightarrow> u8 list" where
  "request_line meth uri version = ascii meth @ [32] @ uri @ [32] @ version"

definition http_request :: "string \<Rightarrow> u8 list \<Rightarrow> u8 list \<Rightarrow> u8 list list \<Rightarrow> u8 list \<Rightarrow> u8 list \<Rightarrow> u8 list" where
  "http_request meth uri version hs host rest =
     request_line meth uri version @ crlf @ header_lines hs @ ascii ''Host: '' @ host @ crlf @ rest"

text \<open>A header line that is neither the end of the headers nor a \<open>Host\<close> header.\<close>

definition header_ok :: "u8 list \<Rightarrow> bool" where
  "header_ok h \<longleftrightarrow> h \<noteq> [] \<and> 13 \<notin> set h \<and> take 6 h \<noteq> ascii ''Host: ''"

section \<open>The scanners\<close>

lemma length_ascii [simp]: "length (ascii s) = length s"
  by (simp add: ascii_def)

lemma chars_of_ascii [simp]: "chars_of (ascii s) = s"
proof -
  have "unat (of_nat (of_char c) :: u8) = of_char c" for c
    using nat_of_char_less_256 [of c] by (simp add: unsigned_of_nat take_bit_nat_eq_self)
  then show ?thesis by (simp add: chars_of_def ascii_def comp_def)
qed

lemma chars_of_inj: "chars_of xs = chars_of ys \<Longrightarrow> xs = ys"
proof -
  have "inj (\<lambda>b :: u8. char_of (unat b))"
  proof (rule injI)
    fix a b :: u8
    assume "char_of (unat a) = (char_of (unat b) :: char)"
    then have "unat a mod 256 = unat b mod 256" by (simp add: char_of_eq_iff take_bit_eq_mod)
    moreover have "unat a < 2 ^ LENGTH(8)" "unat b < 2 ^ LENGTH(8)" by (rule unsigned_less)+
    ultimately show "a = b" by (simp add: unat_arith_simps)
  qed
  then show "chars_of xs = chars_of ys \<Longrightarrow> xs = ys"
    by (simp add: chars_of_def inj_map_eq_map)
qed

lemma find_space_encoded:
  "p = pre @ v @ 32 # rest \<Longrightarrow> 32 \<notin> set v \<Longrightarrow> find_space p (length p) (length pre) = Some (length pre + length v)"
proof (induction v arbitrary: pre)
  case Nil
  then show ?case by (subst find_space.simps) (simp add: byte_at_append)
next
  case (Cons x v)
  have "find_space p (length p) (length (pre @ [x])) = Some (length (pre @ [x]) + length v)"
    by (rule Cons.IH) (use Cons.prems in simp_all)
  moreover have "byte_at p (length pre) = Some x" using Cons.prems(1) byte_at_append [of pre x "v @ 32 # rest"] by simp
  ultimately show ?case using Cons.prems by (subst find_space.simps) simp
qed

lemma crlf_at_encoded: "crlf_at (pre @ crlf @ rest) (length pre) = Some True"
  using byte_at_append [of pre 13 "10 # rest"] byte_at_append [of "pre @ [13]" 10 rest]
  by (simp add: crlf_at_def crlf_def)

lemma crlf_at_other: "x \<noteq> 13 \<Longrightarrow> crlf_at (pre @ x # rest) (length pre) = Some False"
  by (simp add: crlf_at_def byte_at_append)

lemma find_crlf_encoded:
  "p = pre @ v @ crlf @ rest \<Longrightarrow> 13 \<notin> set v \<Longrightarrow> find_crlf p (length p) (length pre) = Some (length pre + length v)"
proof (induction v arbitrary: pre)
  case Nil
  then show ?case using crlf_at_encoded [of pre rest] by (subst find_crlf.simps) (simp add: crlf_def)
next
  case (Cons x v)
  have "find_crlf p (length p) (length (pre @ [x])) = Some (length (pre @ [x]) + length v)"
    by (rule Cons.IH) (use Cons.prems in simp_all)
  moreover have "crlf_at p (length pre) = Some False"
    using Cons.prems crlf_at_other [of x pre "v @ crlf @ rest"] by simp
  ultimately show ?case using Cons.prems by (subst find_crlf.simps) (simp add: crlf_def)
qed

lemma prefix_at_append: "length s \<le> length d \<Longrightarrow>
    prefix_at (pre @ d) (length (pre @ d)) (length pre) s = Some (chars_of (take (length s) d) = s)"
  by (simp add: prefix_at_def bytes_at_def)

lemma prefix_at_short: "length d < length s \<Longrightarrow> prefix_at (pre @ d) (length (pre @ d)) (length pre) s = Some False"
  by (simp add: prefix_at_def)

section \<open>Methods\<close>

definition clash :: "string \<Rightarrow> string \<Rightarrow> bool" where
  "clash m m' \<longleftrightarrow> take (min (length m) (length m')) m = take (min (length m) (length m')) m'"

lemma prefix_method:
  assumes "p = ascii m @ r" "prefix_at p (length p) 0 m' = Some True"
  shows "clash m m'"
proof -
  have "chars_of (take (length m') (ascii m @ r)) = m'"
    using assms prefix_at_append [of m' "ascii m @ r" "[]"] prefix_at_short [of "ascii m @ r" m' "[]"]
    by (cases "length m' \<le> length (ascii m @ r)") auto
  then have "take (min (length m) (length m')) (chars_of (take (length m') (ascii m @ r))) =
      take (min (length m) (length m')) m'" by simp
  moreover have "take (min (length m) (length m')) (chars_of (take (length m') (ascii m @ r))) =
      take (min (length m) (length m')) (chars_of (ascii m))"
    unfolding chars_of_def take_map by (simp add: min_def)
  ultimately show ?thesis by (simp add: clash_def)
qed

lemma find_method_encoded:
  "m \<in> set ms \<Longrightarrow> \<forall>m' \<in> set ms. clash m m' \<longrightarrow> m' = m \<Longrightarrow> p = ascii m @ r \<Longrightarrow>
   find_method ms p (length p) = Some (take (length m - 1) m)"
proof (induction ms)
  case (Cons m' ms)
  show ?case
  proof (cases "m' = m")
    case True
    have "prefix_at p (length p) 0 m = Some True"
      using prefix_at_append [of m "ascii m @ r" "[]"] Cons.prems(3) by simp
    then show ?thesis using True by simp
  next
    case False
    have "prefix_at p (length p) 0 m' = Some False"
      using prefix_method [OF Cons.prems(3), of m'] Cons.prems(2) False
        prefix_at_append [of m' p "[]"] prefix_at_short [of p m' "[]"]
      by (cases "length m' \<le> length p") auto
    then show ?thesis using Cons False by simp
  qed
qed simp

lemma methods_no_clash: "\<forall>m \<in> set http_methods. \<forall>m' \<in> set http_methods. clash m m' \<longrightarrow> m' = m"
  by (simp add: http_methods_def clash_def)

section \<open>Headers\<close>

lemma ascii_host: "ascii ''Host: '' = [72, 111, 115, 116, 58, 32]"
  by (simp add: ascii_def)

lemma header_not_host:
  assumes "header_ok h"
  shows "prefix_at (pre @ h @ crlf @ rest) (length (pre @ h @ crlf @ rest)) (length pre) ''Host: '' = Some False"
proof (cases "6 \<le> length (h @ crlf @ rest)")
  case True
  have "take 6 (h @ crlf @ rest) \<noteq> ascii ''Host: ''"
  proof (cases "6 \<le> length h")
    case True
    then show ?thesis using assms by (simp add: header_ok_def)
  next
    case False
    then have "13 \<in> set (take 6 (h @ crlf @ rest))"
      by (simp add: crlf_def take_Cons')
    moreover have "13 \<notin> set (ascii ''Host: '')" by (simp add: ascii_host)
    ultimately show ?thesis by metis
  qed
  then have "chars_of (take 6 (h @ crlf @ rest)) \<noteq> ''Host: ''"
    using chars_of_inj [of "take 6 (h @ crlf @ rest)" "ascii ''Host: ''"] by auto
  then have "chars_of (take (length ''Host: '') (h @ crlf @ rest)) \<noteq> ''Host: ''" by (simp add: eval_nat_numeral)
  then have "(chars_of (take (length ''Host: '') (h @ crlf @ rest)) = ''Host: '') = False" by (simp only: not_False_eq_True)
  moreover have len: "length ''Host: '' \<le> length (h @ crlf @ rest)" using True by simp
  ultimately show ?thesis by (simp only: prefix_at_append [OF len])
next
  case False
  then show ?thesis using prefix_at_short [of "h @ crlf @ rest" "''Host: ''" pre] by simp
qed

lemma http_host_encoded:
  "list_all header_ok hs \<Longrightarrow> 13 \<notin> set host \<Longrightarrow>
   p = pre @ header_lines hs @ ascii ''Host: '' @ host @ crlf @ rest \<Longrightarrow>
   http_host_loop p (length p) (length pre) = Some (chars_of host)"
proof (induction hs arbitrary: pre)
  case Nil
  have p: "p = pre @ ascii ''Host: '' @ host @ crlf @ rest" using Nil.prems by (simp add: header_lines_def)
  have "crlf_at p (length pre) = Some False"
    using crlf_at_other [of 72 pre] by (simp add: p ascii_host)
  moreover have "prefix_at p (length p) (length pre) ''Host: '' = Some True"
    using prefix_at_append [of "''Host: ''" "ascii ''Host: '' @ host @ crlf @ rest" pre] by (simp add: p)
  moreover have "find_crlf p (length p) (length pre + 6) = Some (length pre + 6 + length host)"
    using find_crlf_encoded [of p "pre @ ascii ''Host: ''" host rest] Nil.prems(2)
    by (simp add: p eval_nat_numeral)
  moreover have "bytes_at p (length pre + 6) (length host) = Some host"
    using bytes_at_append [of "pre @ ascii ''Host: ''" host "crlf @ rest"] by (simp add: p eval_nat_numeral)
  moreover have "length pre + 1 < length p" by (simp add: p)
  ultimately show ?case by (subst http_host_loop.simps) simp
next
  case (Cons h hs)
  define tl where "tl = header_lines hs @ ascii ''Host: '' @ host @ crlf @ rest"
  have p: "p = pre @ h @ crlf @ tl" using Cons.prems by (simp add: header_lines_def tl_def)
  have h: "header_ok h" using Cons.prems by simp
  obtain x h' where hx: "h = x # h'" "x \<noteq> 13" using h by (cases h) (auto simp: header_ok_def)
  have "crlf_at p (length pre) = Some False"
    using crlf_at_other [OF hx(2), of pre "h' @ crlf @ tl"] by (simp add: p hx)
  moreover have "prefix_at p (length p) (length pre) ''Host: '' = Some False"
    using header_not_host [OF h, of pre tl] by (simp add: p)
  moreover have "find_crlf p (length p) (length pre) = Some (length pre + length h)"
    by (rule find_crlf_encoded [OF p]) (use h in \<open>simp add: header_ok_def\<close>)
  moreover have "http_host_loop p (length p) (length (pre @ h @ crlf)) = Some (chars_of host)"
    by (rule Cons.IH) (use Cons.prems p in \<open>simp_all add: tl_def\<close>)
  moreover have "length pre + 1 < length p" by (simp add: p hx crlf_def)
  ultimately show ?case by (subst http_host_loop.simps) (simp add: crlf_def)
qed

section \<open>Properties\<close>

text \<open>
  Claim C20. An HTTP request is read back: for each of the nine methods, the method, the URI and the value of
  the \<open>Host\<close> header are those of the request, whatever headers stand in front of it and whatever
  follows it.
\<close>

theorem extract_http_request:
  assumes "meth @ '' '' \<in> set http_methods" "32 \<notin> set uri" "13 \<notin> set uri" "13 \<notin> set version"
    and "list_all header_ok hs" "13 \<notin> set host" "p = http_request meth uri version hs host rest" "16 \<le> length p"
  shows "extract_http p (length p) info =
     Some (info\<lparr> http := Some \<lparr> http_method = meth, http_host = chars_of host, http_uri = chars_of uri \<rparr>,
                 l7_proto := L7_HTTP \<rparr>)"
proof -
  define body where "body = header_lines hs @ ascii ''Host: '' @ host @ crlf @ rest"
  have p1: "p = ascii (meth @ '' '') @ uri @ 32 # version @ crlf @ body"
    using assms(7) by (simp add: http_request_def request_line_def ascii_def body_def)
  have p2: "p = [] @ request_line meth uri version @ crlf @ body"
    using assms(7) by (simp add: http_request_def body_def)
  have p3: "p = (request_line meth uri version @ crlf) @ body"
    using p2 by simp
  have m: "13 \<notin> set (ascii meth)" "meth \<noteq> []"
    using assms(1) by (auto simp: http_methods_def ascii_def)
  have "find_method http_methods p (length p) = Some meth"
    using find_method_encoded [OF assms(1) _ p1] methods_no_clash assms(1) by simp
  moreover have "find_space p (length p) (length meth + 1) = Some (length meth + 1 + length uri)"
    using find_space_encoded [OF p1 assms(2)] by simp
  moreover have "bytes_at p (length meth + 1) (length uri) = Some uri"
    using bytes_at_append [of "ascii (meth @ '' '')" uri "32 # version @ crlf @ body"] by (simp add: p1)
  moreover have "find_crlf p (length p) 0 = Some (length (request_line meth uri version))"
    using find_crlf_encoded [OF p2] m assms(3,4) by (simp add: request_line_def)
  moreover have "http_host_loop p (length p) (length (request_line meth uri version) + 2) = Some (chars_of host)"
    using http_host_encoded [OF assms(5,6), of p "request_line meth uri version @ crlf" rest] p3
    by (simp add: body_def crlf_def)
  ultimately show ?thesis using assms(8) m(2) by (simp add: extract_http_def)
qed

lemma extract_http_request_witness:
  "extract_http (http_request ''GET'' (ascii ''/a'') (ascii ''HTTP/1.1'') [ascii ''Accept: text''] (ascii ''a.b'') crlf)
     (length (http_request ''GET'' (ascii ''/a'') (ascii ''HTTP/1.1'') [ascii ''Accept: text''] (ascii ''a.b'') crlf)) empty_info =
   Some (empty_info\<lparr> http := Some \<lparr> http_method = ''GET'', http_host = ''a.b'', http_uri = ''/a'' \<rparr>, l7_proto := L7_HTTP \<rparr>)"
  by (subst extract_http_request [OF _ _ _ _ _ _ refl])
    (simp_all add: http_methods_def header_ok_def http_request_def request_line_def header_lines_def crlf_def, simp_all add: ascii_def)

end
