(* ===== verification/Dissector.thy ===== *)
theory Dissector
  imports AddrFormat AppLayer
begin

text \<open>
  \<open>dissect_packet\<close> of \<open>src/ProtocolDissector.cpp\<close>, split at its nested blocks: Ethernet and VLAN,
  IPv4, IPv6, and under them TCP, UDP and the application layer. \<open>data\<close> is the frame, \<open>len\<close> its
  captured length, the offsets are the ones of the code. A read outside the frame is \<open>None\<close>; the
  early returns are \<open>Some info\<close>. \<open>dissect_packet_returns_lemma\<close> shows that no read leaves the frame, for any
  bytes, and what holds of every result.
\<close>

section \<open>Wire headers\<close>

definition ihl_bytes :: "u8 \<Rightarrow> nat" where
  "ihl_bytes version_ihl = unat (and version_ihl 0x0F * 4)"

definition ip_version :: "u8 \<Rightarrow> u8" where
  "ip_version b = drop_bit 4 b"

definition more_fragments :: "u16 \<Rightarrow> bool" where
  "more_fragments flags_fragment \<longleftrightarrow> and flags_fragment 0x2000 \<noteq> 0"

definition fragment_offset :: "u16 \<Rightarrow> u16" where
  "fragment_offset flags_fragment = and flags_fragment 0x1FFF"

definition tcp_header_bytes :: "u8 \<Rightarrow> nat" where
  "tcp_header_bytes data_offset_reserved = unat (drop_bit 4 (and data_offset_reserved 0xF0) * 4)"

section \<open>Layer 4\<close>

text \<open>The fields of a TCP header whose length has been checked.\<close>

definition read_tcp :: "u8 list \<Rightarrow> nat \<Rightarrow> packet_info \<Rightarrow> packet_info option" where
  "read_tcp data off info =
     do { sp \<leftarrow> be16_at data off;
          dp \<leftarrow> be16_at data (off + 2);
          sq \<leftarrow> be32_at data (off + 4);
          ak \<leftarrow> be32_at data (off + 8);
          fl \<leftarrow> byte_at data (off + 13);
          wi \<leftarrow> be16_at data (off + 14);
          Some (info\<lparr> l4_proto := L4_TCP, src_port := sp, dst_port := dp, tcp_seq := sq,
                      tcp_ack := ak, tcp_flags := fl, tcp_window := wi \<rparr>) }"

definition read_udp :: "u8 list \<Rightarrow> nat \<Rightarrow> packet_info \<Rightarrow> packet_info option" where
  "read_udp data off info =
     do { sp \<leftarrow> be16_at data off;
          dp \<leftarrow> be16_at data (off + 2);
          Some (info\<lparr> l4_proto := L4_UDP, src_port := sp, dst_port := dp \<rparr>) }"

definition has_port :: "packet_info \<Rightarrow> u16 \<Rightarrow> bool" where
  "has_port info port \<longleftrightarrow> dst_port info = port \<or> src_port info = port"

definition with_payload :: "nat \<Rightarrow> nat \<Rightarrow> packet_info \<Rightarrow> packet_info" where
  "with_payload off n info = info\<lparr> l7_payload := Some off, l7_payload_length := n \<rparr>"

definition dissect_l7_tcp4 :: "u8 list \<Rightarrow> nat \<Rightarrow> nat \<Rightarrow> packet_info \<Rightarrow> packet_info option" where
  "dissect_l7_tcp4 data off n info =
     (if has_port info PORT_DNS then extract_dns (drop off data) n info
      else if has_port info PORT_HTTPS then extract_tls (drop off data) n info
      else if has_port info PORT_HTTP then extract_http (drop off data) n info
      else extract_http (drop off data) n info)"

definition dissect_l7_tcp6 :: "u8 list \<Rightarrow> nat \<Rightarrow> nat \<Rightarrow> packet_info \<Rightarrow> packet_info option" where
  "dissect_l7_tcp6 data off n info =
     (if has_port info PORT_HTTPS then extract_tls (drop off data) n info
      else if has_port info PORT_HTTP then extract_http (drop off data) n info
      else Some info)"

definition dissect_tcp4 :: "u8 list \<Rightarrow> nat \<Rightarrow> nat \<Rightarrow> packet_info \<Rightarrow> packet_info option" where
  "dissect_tcp4 data len off info =
     (if len - off < TCP_MIN_HEADER_SIZE then Some (info\<lparr> truncated := True \<rparr>)
      else do {
        b \<leftarrow> byte_at data (off + 12);
        let tcp_hdr = tcp_header_bytes b
        in if tcp_hdr < TCP_MIN_HEADER_SIZE \<or> len - off < tcp_hdr then Some (info\<lparr> truncated := True \<rparr>)
           else do {
             info1 \<leftarrow> read_tcp data off info;
             let l7_offset = off + tcp_hdr; l7_len = len - l7_offset
             in if l7_len > 0
                then dissect_l7_tcp4 data l7_offset l7_len (with_payload l7_offset l7_len info1)
                else Some info1 } })"

definition dissect_udp4 :: "u8 list \<Rightarrow> nat \<Rightarrow> nat \<Rightarrow> packet_info \<Rightarrow> packet_info option" where
  "dissect_udp4 data len off info =
     (if len - off < UDP_HEADER_SIZE then Some (info\<lparr> truncated := True \<rparr>)
      else do {
        info1 \<leftarrow> read_udp data off info;
        let l7_offset = off + UDP_HEADER_SIZE; l7_len = len - l7_offset
        in if l7_len > 0 then
             (let info2 = with_payload l7_offset l7_len info1
              in if has_port info2 PORT_DNS then extract_dns (drop l7_offset data) l7_len info2
                 else Some info2)
           else Some info1 })"

definition dissect_tcp6 :: "u8 list \<Rightarrow> nat \<Rightarrow> nat \<Rightarrow> packet_info \<Rightarrow> packet_info option" where
  "dissect_tcp6 data len off info =
     do { b \<leftarrow> byte_at data (off + 12);
          let tcp_hdr = tcp_header_bytes b
          in if tcp_hdr \<ge> TCP_MIN_HEADER_SIZE \<and> len - off \<ge> tcp_hdr then
               do { info1 \<leftarrow> read_tcp data off info;
                    let l7_offset = off + tcp_hdr; l7_len = len - l7_offset
                    in if l7_len > 0
                       then dissect_l7_tcp6 data l7_offset l7_len (with_payload l7_offset l7_len info1)
                       else Some info1 }
             else Some info }"

definition dissect_udp6 :: "u8 list \<Rightarrow> nat \<Rightarrow> nat \<Rightarrow> packet_info \<Rightarrow> packet_info option" where
  "dissect_udp6 data len off info =
     do { info1 \<leftarrow> read_udp data off info;
          let l7_offset = off + UDP_HEADER_SIZE; l7_len = len - l7_offset
          in if l7_len > 0 \<and> has_port info1 PORT_DNS
             then extract_dns (drop l7_offset data) l7_len (with_payload l7_offset l7_len info1)
             else Some info1 }"

section \<open>Layer 3\<close>

definition read_ipv4 :: "u8 list \<Rightarrow> nat \<Rightarrow> packet_info \<Rightarrow> packet_info option" where
  "read_ipv4 data off info =
     do { proto \<leftarrow> byte_at data (off + 9);
          ttl \<leftarrow> byte_at data (off + 8);
          total \<leftarrow> be16_at data (off + 2);
          frag \<leftarrow> be16_at data (off + 6);
          src \<leftarrow> be32_at data (off + 12);
          dst \<leftarrow> be32_at data (off + 16);
          Some (info\<lparr> l3_proto := L3_IPv4, ip_proto_num := proto, ttl_or_hop_limit := ttl,
                      ip_total_length := total,
                      ip_fragmented := more_fragments frag \<or> fragment_offset frag > 0,
                      src_ip := format_ipv4 src, dst_ip := format_ipv4 dst, valid := True \<rparr>) }"

definition dissect_ipv4 :: "u8 list \<Rightarrow> nat \<Rightarrow> nat \<Rightarrow> packet_info \<Rightarrow> packet_info option" where
  "dissect_ipv4 data len off info =
     (if len < off + IPV4_MIN_HEADER_SIZE then Some (info\<lparr> truncated := True \<rparr>)
      else do {
        b \<leftarrow> byte_at data off;
        if ip_version b \<noteq> 4 then Some info
        else let ihl = ihl_bytes b
        in if ihl < IPV4_MIN_HEADER_SIZE \<or> len < off + ihl then Some (info\<lparr> truncated := True \<rparr>)
           else do {
             info1 \<leftarrow> read_ipv4 data off info;
             if ip_proto_num info1 = IPPROTO_TCP_NUM then dissect_tcp4 data len (off + ihl) info1
             else if ip_proto_num info1 = IPPROTO_UDP_NUM then dissect_udp4 data len (off + ihl) info1
             else if ip_proto_num info1 = IPPROTO_ICMP_V4 then Some (info1\<lparr> l4_proto := L4_ICMP \<rparr>)
             else Some (info1\<lparr> l4_proto := L4_OTHER \<rparr>) } })"

definition read_ipv6 :: "u8 list \<Rightarrow> nat \<Rightarrow> packet_info \<Rightarrow> packet_info option" where
  "read_ipv6 data off info =
     do { nh \<leftarrow> byte_at data (off + 6);
          hl \<leftarrow> byte_at data (off + 7);
          pl \<leftarrow> be16_at data (off + 4);
          src \<leftarrow> bytes_at data (off + 8) 16;
          dst \<leftarrow> bytes_at data (off + 24) 16;
          Some (info\<lparr> l3_proto := L3_IPv6, ip_proto_num := nh, ttl_or_hop_limit := hl,
                      ip_total_length := pl + of_nat IPV6_HEADER_SIZE,
                      src_ip := format_ipv6 src, dst_ip := format_ipv6 dst, valid := True \<rparr>) }"

definition dissect_ipv6 :: "u8 list \<Rightarrow> nat \<Rightarrow> nat \<Rightarrow> packet_info \<Rightarrow> packet_info option" where
  "dissect_ipv6 data len off info =
     (if len < off + IPV6_HEADER_SIZE then Some (info\<lparr> truncated := True \<rparr>)
      else do {
        b \<leftarrow> byte_at data off;
        if ip_version b \<noteq> 6 then Some info
        else do {
          info1 \<leftarrow> read_ipv6 data off info;
          let l4_offset = off + IPV6_HEADER_SIZE; l4_len = len - l4_offset
          in if ip_proto_num info1 = IPPROTO_TCP_NUM \<and> l4_len \<ge> TCP_MIN_HEADER_SIZE
             then dissect_tcp6 data len l4_offset info1
             else if ip_proto_num info1 = IPPROTO_UDP_NUM \<and> l4_len \<ge> UDP_HEADER_SIZE
             then dissect_udp6 data len l4_offset info1
             else if ip_proto_num info1 = IPPROTO_ICMPV6 then Some (info1\<lparr> l4_proto := L4_ICMP \<rparr>)
             else Some info1 } })"

section \<open>Layer 2 and the entry point\<close>

definition dissect_l3 :: "u8 list \<Rightarrow> nat \<Rightarrow> nat \<Rightarrow> packet_info \<Rightarrow> packet_info option" where
  "dissect_l3 data len off info =
     (if ether_type info = ETHERTYPE_IPV4 then dissect_ipv4 data len off info
      else if ether_type info = ETHERTYPE_IPV6 then dissect_ipv6 data len off info
      else if ether_type info = ETHERTYPE_ARP
      then Some (info\<lparr> l3_proto := L3_ARP, valid := True \<rparr>)
      else Some info)"

definition read_ethernet :: "u8 list \<Rightarrow> packet_info \<Rightarrow> packet_info option" where
  "read_ethernet data info =
     do { dst \<leftarrow> bytes_at data 0 6;
          src \<leftarrow> bytes_at data 6 6;
          et \<leftarrow> be16_at data 12;
          Some (info\<lparr> dst_mac := dst, src_mac := src, ether_type := et, has_ethernet := True \<rparr>) }"

definition initial_info :: "captured_packet \<Rightarrow> packet_info" where
  "initial_info raw = empty_info\<lparr> timestamp_us := cp_timestamp_us raw,
     captured_length := cp_captured_length raw, original_length := cp_original_length raw \<rparr>"

definition dissect_packet :: "captured_packet \<Rightarrow> packet_info option" where
  "dissect_packet raw =
     (let info = initial_info raw; data = cp_data raw; len = unat (cp_captured_length raw)
      in if data = [] \<or> len = 0 then Some info
         else if len < ETHERNET_HEADER_SIZE then Some (info\<lparr> truncated := True \<rparr>)
         else do {
           info1 \<leftarrow> read_ethernet data info;
           if ether_type info1 = ETHERTYPE_VLAN then
             if len < ETHERNET_HEADER_SIZE + 4 then Some (info1\<lparr> truncated := True \<rparr>)
             else do {
               et \<leftarrow> be16_at data (ETHERNET_HEADER_SIZE + 2);
               dissect_l3 data len (ETHERNET_HEADER_SIZE + 4) (info1\<lparr> ether_type := et \<rparr>) }
           else dissect_l3 data len ETHERNET_HEADER_SIZE info1 })"

section \<open>Flag text\<close>

definition tcp_flag_names :: "(u8 \<times> string) list" where
  "tcp_flag_names = [(TCP_FLAG_CWR, ''CWR''), (TCP_FLAG_ECE, ''ECE''), (TCP_FLAG_URG, ''URG''),
     (TCP_FLAG_ACK, ''ACK''), (TCP_FLAG_PSH, ''PSH''), (TCP_FLAG_RST, ''RST''),
     (TCP_FLAG_SYN, ''SYN''), (TCP_FLAG_FIN, ''FIN'')]"

definition add_flag :: "u8 \<Rightarrow> string \<Rightarrow> u8 \<times> string \<Rightarrow> string" where
  "add_flag flags out f =
     (if and flags (fst f) \<noteq> 0 then (if out \<noteq> [] then out @ '','' else out) @ snd f else out)"

definition format_tcp_flags :: "u8 \<Rightarrow> string" where
  "format_tcp_flags flags =
     (let out = foldl (add_flag flags) [] tcp_flag_names in if out = [] then ''NONE'' else out)"

section \<open>What holds of every result\<close>

text \<open>
  \<open>info_ok len\<close>: the flags, the protocol fields and the payload of a result agree with each other.
  In particular the payload is a non-empty suffix of the captured frame, behind the headers.
\<close>

definition payload_ok :: "nat \<Rightarrow> packet_info \<Rightarrow> bool" where
  "payload_ok len info \<longleftrightarrow>
     (case l7_payload info of None \<Rightarrow> l7_payload_length info = 0
      | Some off \<Rightarrow> 0 < l7_payload_length info \<and> off + l7_payload_length info = len \<and> 42 \<le> off)"

definition l3_ok :: "packet_info \<Rightarrow> bool" where
  "l3_ok info \<longleftrightarrow> (valid info \<longleftrightarrow> l3_proto info \<noteq> L3_NONE) \<and> l3_proto info \<noteq> L3_OTHER \<and>
     (src_ip info \<noteq> [] \<longleftrightarrow> l3_proto info \<in> {L3_IPv4, L3_IPv6}) \<and>
     (dst_ip info \<noteq> [] \<longleftrightarrow> l3_proto info \<in> {L3_IPv4, L3_IPv6})"

definition l4_ok :: "packet_info \<Rightarrow> bool" where
  "l4_ok info \<longleftrightarrow> (l4_proto info \<noteq> L4_NONE \<longrightarrow> l3_proto info \<in> {L3_IPv4, L3_IPv6}) \<and>
     (l4_proto info = L4_TCP \<longrightarrow> ip_proto_num info = IPPROTO_TCP_NUM) \<and>
     (l4_proto info = L4_UDP \<longrightarrow> ip_proto_num info = IPPROTO_UDP_NUM) \<and>
     (src_port info \<noteq> 0 \<or> dst_port info \<noteq> 0 \<or> l7_payload info \<noteq> None \<longrightarrow>
      l4_proto info \<in> {L4_TCP, L4_UDP})"

definition l7_ok :: "packet_info \<Rightarrow> bool" where
  "l7_ok info \<longleftrightarrow> (dns info \<noteq> None \<longleftrightarrow> l7_proto info = L7_DNS) \<and>
     (http info \<noteq> None \<longleftrightarrow> l7_proto info = L7_HTTP) \<and>
     (tls info \<noteq> None \<longleftrightarrow> l7_proto info = L7_TLS) \<and>
     (l7_proto info \<noteq> L7_NONE \<longrightarrow> l7_payload info \<noteq> None)"

definition info_ok :: "nat \<Rightarrow> packet_info \<Rightarrow> bool" where
  "info_ok len info \<longleftrightarrow> payload_ok len info \<and> l3_ok info \<and> l4_ok info \<and> l7_ok info"

definition same_capture :: "packet_info \<Rightarrow> packet_info \<Rightarrow> bool" where
  "same_capture info info' \<longleftrightarrow> timestamp_us info' = timestamp_us info \<and>
     captured_length info' = captured_length info \<and> original_length info' = original_length info"

text \<open>No payload and no application record yet: the state of \<open>info\<close> before layer 7.\<close>

definition no_l7 :: "packet_info \<Rightarrow> bool" where
  "no_l7 info \<longleftrightarrow> l7_payload info = None \<and> l7_payload_length info = 0 \<and> l7_proto info = L7_NONE \<and>
     dns info = None \<and> http info = None \<and> tls info = None"

definition l3_done :: "packet_info \<Rightarrow> packet_info \<Rightarrow> bool" where
  "l3_done info0 info \<longleftrightarrow> no_l7 info \<and> l3_ok info \<and> same_capture info0 info \<and> valid info \<and>
     l3_proto info \<in> {L3_IPv4, L3_IPv6} \<and> l4_proto info = L4_NONE \<and> src_port info = 0 \<and>
     dst_port info = 0"

definition l4_done :: "packet_info \<Rightarrow> packet_info \<Rightarrow> bool" where
  "l4_done info0 info \<longleftrightarrow> no_l7 info \<and> l3_ok info \<and> l4_ok info \<and> same_capture info0 info \<and>
     l4_proto info \<in> {L4_TCP, L4_UDP}"

definition result_ok :: "nat \<Rightarrow> packet_info \<Rightarrow> packet_info \<Rightarrow> bool" where
  "result_ok len info0 info \<longleftrightarrow> info_ok len info \<and> same_capture info0 info"

lemmas ok_defs = result_ok_def info_ok_def payload_ok_def l3_ok_def l4_ok_def l7_ok_def
  same_capture_def no_l7_def l3_done_def l4_done_def

lemma l4_done_result: "l4_done info0 info \<Longrightarrow> result_ok len info0 info"
  by (auto simp: ok_defs)

lemma l3_done_result: "l3_done info0 info \<Longrightarrow> result_ok len info0 info"
  by (auto simp: ok_defs)

lemma l3_done_truncated: "l3_done info0 info \<Longrightarrow> result_ok len info0 (info\<lparr> truncated := True \<rparr>)"
  by (auto simp: ok_defs)

lemma l3_done_l4:
  "l3_done info0 info \<Longrightarrow> p \<notin> {L4_TCP, L4_UDP} \<Longrightarrow> result_ok len info0 (info\<lparr> l4_proto := p \<rparr>)"
  by (auto simp: ok_defs)

lemma with_payload_result:
  assumes "l4_done info0 info" "0 < n" "off + n = len" "42 \<le> off"
    and "only_l7 (with_payload off n info) info'"
  shows "result_ok len info0 info'"
  using assms unfolding only_l7_def
  by (elim disjE exE) (auto simp: ok_defs with_payload_def)

lemma read_tcp_returns:
  assumes "off + 20 \<le> length data" "l3_done info0 info" "ip_proto_num info = IPPROTO_TCP_NUM"
  shows "returns (l4_done info0) (read_tcp data off info)"
  unfolding read_tcp_def
  by (intro returns_intros; (use assms(1) in simp)?) (use assms(2,3) in \<open>auto simp: ok_defs\<close>)

lemma read_udp_returns:
  assumes "off + 8 \<le> length data" "l3_done info0 info" "ip_proto_num info = IPPROTO_UDP_NUM"
  shows "returns (l4_done info0) (read_udp data off info)"
  unfolding read_udp_def
  by (intro returns_intros; (use assms(1) in simp)?) (use assms(2,3) in \<open>auto simp: ok_defs\<close>)

lemma dissect_l7_returns:
  assumes "off + n = length data"
  shows "returns (only_l7 info) (dissect_l7_tcp4 data off n info)"
    "returns (only_l7 info) (dissect_l7_tcp6 data off n info)"
    "returns (only_l7 info) (extract_dns (drop off data) n info)"
proof -
  have n: "n \<le> length (drop off data)" using assms by simp
  note ext = extract_dns_safe_lemma [OF n] extract_http_safe_lemma [OF n] extract_tls_safe_lemma [OF n]
  show "returns (only_l7 info) (dissect_l7_tcp4 data off n info)"
    using ext by (simp add: dissect_l7_tcp4_def)
  show "returns (only_l7 info) (dissect_l7_tcp6 data off n info)"
    using ext by (simp add: dissect_l7_tcp6_def returns_Some)
  show "returns (only_l7 info) (extract_dns (drop off data) n info)" by (rule ext(1))
qed

text \<open>The blocks of layer 4: the payload starts behind the headers and ends with the frame.\<close>

lemma l7_result:
  assumes "l4_done info0 info" "off < length data" "42 \<le> off"
    and "\<And>info. returns (only_l7 info) (ext data off (length data - off) info)"
  shows "returns (result_ok (length data) info0)
     (ext data off (length data - off) (with_payload off (length data - off) info))"
  by (rule returns_mono [OF assms(4) with_payload_result [OF assms(1)]]) (use assms in auto)

lemma dissect_tcp4_returns:
  assumes info: "l3_done info0 info" "ip_proto_num info = IPPROTO_TCP_NUM" and off: "34 \<le> off" "off \<le> length data"
  shows "returns (result_ok (length data) info0) (dissect_tcp4 data (length data) off info)"
proof -
  have l7: "returns (result_ok (length data) info0)
      (dissect_l7_tcp4 data o7 (length data - o7) (with_payload o7 (length data - o7) info1))"
    if "l4_done info0 info1" "o7 < length data" "42 \<le> o7" for o7 info1
    by (rule l7_result [OF that]) (use that in \<open>auto intro: dissect_l7_returns\<close>)
  show ?thesis
    unfolding dissect_tcp4_def Let_def
  proof (rule returns_if)
    assume "\<not> length data - off < TCP_MIN_HEADER_SIZE"
    then have h: "off + 20 \<le> length data" using off by simp
    show "returns (result_ok (length data) info0) (byte_at data (off + 12) \<bind> (\<lambda>b.
        if tcp_header_bytes b < TCP_MIN_HEADER_SIZE \<or> length data - off < tcp_header_bytes b
        then Some (info\<lparr>truncated := True\<rparr>)
        else read_tcp data off info \<bind> (\<lambda>info1.
          if 0 < length data - (off + tcp_header_bytes b)
          then dissect_l7_tcp4 data (off + tcp_header_bytes b) (length data - (off + tcp_header_bytes b))
            (with_payload (off + tcp_header_bytes b) (length data - (off + tcp_header_bytes b)) info1)
          else Some info1)))"
      by (rule returns_byte_at, use h in simp, rule returns_if,
          simp add: returns_Some l3_done_truncated [OF info(1)],
          rule returns_bind [OF read_tcp_returns [OF h info]], rule returns_if, rule l7)
        (use off in \<open>auto intro: returns_Some l4_done_result\<close>)
  qed (simp add: returns_Some l3_done_truncated [OF info(1)])
qed

lemma dissect_udp4_returns:
  assumes info: "l3_done info0 info" "ip_proto_num info = IPPROTO_UDP_NUM" and off: "34 \<le> off" "off \<le> length data"
  shows "returns (result_ok (length data) info0) (dissect_udp4 data (length data) off info)"
proof (cases "length data - off < UDP_HEADER_SIZE")
  case True
  then show ?thesis by (simp add: dissect_udp4_def returns_Some l3_done_truncated [OF info(1)])
next
  case False
  then have h: "off + 8 \<le> length data" using off by simp
  have l7: "returns (result_ok (length data) info0)
      (if has_port (with_payload (off + 8) (length data - (off + 8)) info1) PORT_DNS
       then extract_dns (drop (off + 8) data) (length data - (off + 8))
         (with_payload (off + 8) (length data - (off + 8)) info1)
       else Some (with_payload (off + 8) (length data - (off + 8)) info1))"
    if "l4_done info0 info1" "off + 8 < length data" for info1
  proof (rule returns_if)
    show "returns (result_ok (length data) info0) (extract_dns (drop (off + 8) data)
        (length data - (off + 8)) (with_payload (off + 8) (length data - (off + 8)) info1))"
      by (rule l7_result [OF that, where ext = "\<lambda>data off. extract_dns (drop off data)"])
        (use that off in \<open>auto intro!: dissect_l7_returns\<close>)
    have "result_ok (length data) info0 (with_payload (off + 8) (length data - (off + 8)) info1)"
      by (rule with_payload_result [OF that(1), of "length data - (off + 8)" "off + 8"])
        (use that(2) off in auto)
    then show "returns (result_ok (length data) info0)
        (Some (with_payload (off + 8) (length data - (off + 8)) info1))" by (rule returns_Some)
  qed
  show ?thesis
    unfolding dissect_udp4_def Let_def
    by (rule returns_if, use False in simp, rule returns_bind [OF read_udp_returns [OF h info]],
        rule returns_if, rule l7) (auto intro: returns_Some l4_done_result)
qed

lemma dissect_tcp6_returns:
  assumes info: "l3_done info0 info" "ip_proto_num info = IPPROTO_TCP_NUM"
    and off: "34 \<le> off" "off + 20 \<le> length data"
  shows "returns (result_ok (length data) info0) (dissect_tcp6 data (length data) off info)"
proof -
  have l7: "returns (result_ok (length data) info0)
      (dissect_l7_tcp6 data o7 (length data - o7) (with_payload o7 (length data - o7) info1))"
    if "l4_done info0 info1" "o7 < length data" "42 \<le> o7" for o7 info1
    by (rule l7_result [OF that]) (use that in \<open>auto intro: dissect_l7_returns\<close>)
  show ?thesis
    unfolding dissect_tcp6_def Let_def
    by (rule returns_byte_at, use off in simp, rule returns_if,
        rule returns_bind [OF read_tcp_returns [OF off(2) info]], rule returns_if, rule l7)
      (use off info in \<open>auto intro: returns_Some l4_done_result l3_done_result\<close>)
qed

lemma dissect_udp6_returns:
  assumes info: "l3_done info0 info" "ip_proto_num info = IPPROTO_UDP_NUM"
    and off: "34 \<le> off" "off + 8 \<le> length data"
  shows "returns (result_ok (length data) info0) (dissect_udp6 data (length data) off info)"
proof -
  have l7: "returns (result_ok (length data) info0)
      (extract_dns (drop (off + 8) data) (length data - (off + 8))
         (with_payload (off + 8) (length data - (off + 8)) info1))"
    if "l4_done info0 info1" "off + 8 < length data" for info1
    by (rule l7_result [OF that, where ext = "\<lambda>data off. extract_dns (drop off data)"])
      (use that off in \<open>auto intro!: dissect_l7_returns\<close>)
  show ?thesis
    unfolding dissect_udp6_def Let_def
    by (intro returns_bind [OF read_udp_returns [OF off(2) info]] returns_if)
      (use l7 in \<open>auto intro: returns_Some l4_done_result\<close>)
qed

definition l2_done :: "packet_info \<Rightarrow> packet_info \<Rightarrow> bool" where
  "l2_done info0 info \<longleftrightarrow> no_l7 info \<and> same_capture info0 info \<and> \<not> valid info \<and>
     l3_proto info = L3_NONE \<and> src_ip info = [] \<and> dst_ip info = [] \<and> l4_proto info = L4_NONE \<and>
     src_port info = 0 \<and> dst_port info = 0"

lemma l2_done_result:
  "l2_done info0 info \<Longrightarrow> result_ok len info0 info"
  "l2_done info0 info \<Longrightarrow> result_ok len info0 (info\<lparr> truncated := True \<rparr>)"
  "l2_done info0 info \<Longrightarrow> result_ok len info0 (info\<lparr> l3_proto := L3_ARP, valid := True \<rparr>)"
  by (auto simp: ok_defs l2_done_def)

lemma read_ipv4_returns:
  assumes "off + 20 \<le> length data" "l2_done info0 info"
  shows "returns (l3_done info0) (read_ipv4 data off info)"
  unfolding read_ipv4_def
  by (intro returns_intros; (use assms(1) in simp)?) (use assms(2) in \<open>auto simp: ok_defs l2_done_def\<close>)

lemma read_ipv6_returns:
  assumes "off + 40 \<le> length data" "l2_done info0 info"
  shows "returns (l3_done info0) (read_ipv6 data off info)"
proof -
  have ne: "format_ipv6 (take 16 (drop o' data)) \<noteq> []" if "o' + 16 \<le> length data" for o'
    by (rule format_ipv6_nonempty) (use that in simp)
  show ?thesis
    unfolding read_ipv6_def
    by (intro returns_intros; (use assms(1) in simp)?)
      (use assms ne [of "off + 8"] ne [of "off + 24"] in \<open>auto simp: ok_defs l2_done_def\<close>)
qed

lemma dissect_ipv4_returns:
  assumes info: "l2_done info0 info" and off: "14 \<le> off"
  shows "returns (result_ok (length data) info0) (dissect_ipv4 data (length data) off info)"
proof (cases "length data < off + IPV4_MIN_HEADER_SIZE")
  case True
  then show ?thesis by (simp add: dissect_ipv4_def returns_Some l2_done_result [OF info])
next
  case False
  then have h: "off + 20 \<le> length data" by simp
  have l4: "returns (result_ok (length data) info0)
     (if ip_proto_num info1 = IPPROTO_TCP_NUM then dissect_tcp4 data (length data) o4 info1
      else if ip_proto_num info1 = IPPROTO_UDP_NUM then dissect_udp4 data (length data) o4 info1
      else if ip_proto_num info1 = IPPROTO_ICMP_V4 then Some (info1\<lparr> l4_proto := L4_ICMP \<rparr>)
      else Some (info1\<lparr> l4_proto := L4_OTHER \<rparr>))"
    if "l3_done info0 info1" "34 \<le> o4" "o4 \<le> length data" for info1 o4
    using that by (auto intro!: returns_if dissect_tcp4_returns dissect_udp4_returns returns_Some l3_done_l4)
  show ?thesis
    unfolding dissect_ipv4_def Let_def
    by (rule returns_if, use False in simp, rule returns_byte_at, use h in simp, rule returns_if,
        simp add: returns_Some l2_done_result [OF info], rule returns_if,
        simp add: returns_Some l2_done_result [OF info],
        rule returns_bind [OF read_ipv4_returns [OF h info]], rule l4)
      (use off in auto)
qed

lemma dissect_ipv6_returns:
  assumes info: "l2_done info0 info" and off: "14 \<le> off"
  shows "returns (result_ok (length data) info0) (dissect_ipv6 data (length data) off info)"
proof (cases "length data < off + IPV6_HEADER_SIZE")
  case True
  then show ?thesis by (simp add: dissect_ipv6_def returns_Some l2_done_result [OF info])
next
  case False
  then have h: "off + 40 \<le> length data" by simp
  have l4: "returns (result_ok (length data) info0)
     (if ip_proto_num info1 = IPPROTO_TCP_NUM \<and> length data - (off + 40) \<ge> TCP_MIN_HEADER_SIZE
      then dissect_tcp6 data (length data) (off + 40) info1
      else if ip_proto_num info1 = IPPROTO_UDP_NUM \<and> length data - (off + 40) \<ge> UDP_HEADER_SIZE
      then dissect_udp6 data (length data) (off + 40) info1
      else if ip_proto_num info1 = IPPROTO_ICMPV6 then Some (info1\<lparr> l4_proto := L4_ICMP \<rparr>)
      else Some info1)"
    if "l3_done info0 info1" for info1
    using that off h
    by (auto intro!: returns_if dissect_tcp6_returns dissect_udp6_returns returns_Some l3_done_l4
        intro: l3_done_result)
  show ?thesis
    unfolding dissect_ipv6_def Let_def
    by (rule returns_if, use False in simp, rule returns_byte_at, use h in simp, rule returns_if,
        simp add: returns_Some l2_done_result [OF info],
        rule returns_bind [OF read_ipv6_returns [OF h info]], rule l4)
qed

lemma dissect_l3_returns:
  assumes "l2_done info0 info" "14 \<le> off"
  shows "returns (result_ok (length data) info0) (dissect_l3 data (length data) off info)"
  unfolding dissect_l3_def
  using assms by (auto intro!: returns_if dissect_ipv4_returns dissect_ipv6_returns returns_Some
      l2_done_result)

lemma read_ethernet_returns:
  assumes "14 \<le> length data"
  shows "returns (l2_done (initial_info raw)) (read_ethernet data (initial_info raw))"
  unfolding read_ethernet_def
  by (intro returns_intros; (use assms in simp)?)
    (auto simp: ok_defs l2_done_def initial_info_def empty_info_def)

lemma dissect_packet_returns_lemma:
  assumes "captured_ok raw"
  shows "returns (result_ok (length (cp_data raw)) (initial_info raw)) (dissect_packet raw)"
proof -
  have len: "unat (cp_captured_length raw) = length (cp_data raw)"
    using assms by (simp add: captured_ok_def)
  have init: "l2_done (initial_info raw) (initial_info raw)"
    by (auto simp: ok_defs l2_done_def initial_info_def empty_info_def)
  have et: "l2_done info0 (info\<lparr> ether_type := x \<rparr>) = l2_done info0 info" for info0 info x
    by (auto simp: ok_defs l2_done_def)
  show ?thesis
    unfolding dissect_packet_def Let_def len
    by (rule returns_if, simp add: returns_Some l2_done_result [OF init], rule returns_if,
        simp add: returns_Some l2_done_result [OF init],
        rule returns_bind [OF read_ethernet_returns], simp, rule returns_if, rule returns_if,
        simp add: returns_Some l2_done_result, rule returns_be16_at, simp)
      (auto intro!: dissect_l3_returns simp: et)
qed

section \<open>Properties\<close>

text \<open>
  Claim C6. Dissecting a captured frame never reads outside it, whatever bytes it holds; the result's
  validity flag, protocol fields, ports, payload bounds and application records agree with each other,
  and the capture's time stamp and lengths are passed on.
\<close>

theorem dissect_memory_safe:
  assumes "captured_ok raw"
  shows "\<exists>info. dissect_packet raw = Some info \<and> info_ok (length (cp_data raw)) info \<and>
     same_capture (initial_info raw) info"
  using dissect_packet_returns_lemma [OF assms] by (auto simp: returns_iff result_ok_def)

definition short_frame :: captured_packet where
  "short_frame = \<lparr> cp_data = [1, 2, 3], cp_captured_length = 3, cp_original_length = 60, cp_timestamp_us = 0 \<rparr>"

lemma dissect_memory_safe_witness:
  "\<exists>info. dissect_packet short_frame = Some info \<and> info_ok (length (cp_data short_frame)) info"
proof -
  have "captured_ok short_frame" by (simp add: captured_ok_def short_frame_def)
  from dissect_memory_safe [OF this] show ?thesis by blast
qed

end
