(* ===== verification/FrameSpec.thy ===== *)
theory FrameSpec
  imports Dissector AppLayerSpec
begin

text \<open>
  Encoders of Ethernet, IPv4, TCP and UDP headers, and what \<open>dissect_packet\<close> makes of the frames
  they build: every field of the headers, options included, and the place of the payload.
\<close>

section \<open>Encoders\<close>

definition w16_bytes :: "u16 \<Rightarrow> u8 list" where
  "w16_bytes w = [ucast (drop_bit 8 w), ucast w]"

definition w32_bytes :: "u32 \<Rightarrow> u8 list" where
  "w32_bytes w = w16_bytes (ucast (drop_bit 16 w)) @ w16_bytes (ucast w)"

record ipv4_header =
  ih_tos :: u8
  ih_total :: u16
  ih_id :: u16
  ih_frag :: u16
  ih_ttl :: u8
  ih_proto :: u8
  ih_checksum :: u16
  ih_src :: u32
  ih_dst :: u32
  ih_options :: "u8 list"

definition ipv4_bytes :: "ipv4_header \<Rightarrow> u8 list" where
  "ipv4_bytes h = [0x40 + of_nat (5 + length (ih_options h) div 4), ih_tos h] @ w16_bytes (ih_total h) @
     w16_bytes (ih_id h) @ w16_bytes (ih_frag h) @ [ih_ttl h, ih_proto h] @ w16_bytes (ih_checksum h) @
     w32_bytes (ih_src h) @ w32_bytes (ih_dst h) @ ih_options h"

record tcp_header =
  th_sport :: u16
  th_dport :: u16
  th_seq :: u32
  th_ack :: u32
  th_flags :: u8
  th_window :: u16
  th_checksum :: u16
  th_urgent :: u16
  th_options :: "u8 list"

definition tcp_bytes :: "tcp_header \<Rightarrow> u8 list" where
  "tcp_bytes h = w16_bytes (th_sport h) @ w16_bytes (th_dport h) @ w32_bytes (th_seq h) @
     w32_bytes (th_ack h) @ [of_nat (16 * (5 + length (th_options h) div 4)), th_flags h] @
     w16_bytes (th_window h) @ w16_bytes (th_checksum h) @ w16_bytes (th_urgent h) @ th_options h"

definition udp_bytes :: "u16 \<Rightarrow> u16 \<Rightarrow> u16 \<Rightarrow> u16 \<Rightarrow> u8 list" where
  "udp_bytes sp dp ulen ck = w16_bytes sp @ w16_bytes dp @ w16_bytes ulen @ w16_bytes ck"

definition ethernet_bytes :: "u8 list \<Rightarrow> u8 list \<Rightarrow> u16 \<Rightarrow> u8 list" where
  "ethernet_bytes dst src et = dst @ src @ w16_bytes et"

text \<open>Options are a multiple of 4 bytes, 40 at most, in both headers.\<close>

definition options_ok :: "u8 list \<Rightarrow> bool" where
  "options_ok os \<longleftrightarrow> length os mod 4 = 0 \<and> length os \<le> 40"

definition frame_of :: "u8 list \<Rightarrow> u32 \<Rightarrow> int \<Rightarrow> captured_packet" where
  "frame_of bs orig ts = \<lparr> cp_data = bs, cp_captured_length = of_nat (length bs),
     cp_original_length = orig, cp_timestamp_us = ts \<rparr>"

section \<open>Reading what was encoded\<close>

declare add_2_eq_Suc [simp del] add_2_eq_Suc' [simp del]

lemma length_w16_bytes [simp]: "length (w16_bytes w) = 2"
  by (simp add: w16_bytes_def)

lemma length_w32_bytes [simp]: "length (w32_bytes w) = 4"
  by (simp add: w32_bytes_def)

lemma be16_of_halves: "be16_of (ucast (drop_bit 8 w)) (ucast w) = w"
  by (rule bit_word_eqI) (auto simp: be16_of_def bit_word_cat_iff bit_simps)

lemma word_cat_halves: "(word_cat (ucast (drop_bit 16 w) :: u16) (ucast w :: u16) :: u32) = w"
  by (rule bit_word_eqI) (auto simp: bit_word_cat_iff bit_simps)

lemma byte_at_skip: "length pre = n \<Longrightarrow> byte_at (pre @ d) (n + i) = byte_at d i"
  by (auto simp: byte_at_def)

lemma be16_at_skip: "length pre = n \<Longrightarrow> be16_at (pre @ d) (n + i) = be16_at d i"
  using byte_at_skip [of pre n d i] byte_at_skip [of pre n d "i + 1"]
  by (simp add: be16_at_def add.assoc)

lemma be32_at_skip: "length pre = n \<Longrightarrow> be32_at (pre @ d) (n + i) = be32_at d i"
  using be16_at_skip [of pre n d i] be16_at_skip [of pre n d "i + 2"]
  by (simp add: be32_at_def add.assoc)

lemma be16_at_w16: "length pre = n \<Longrightarrow> be16_at (pre @ w16_bytes w @ rest) n = Some w"
  by (simp add: be16_at_def byte_at_def w16_bytes_def nth_append be16_of_halves)

lemma be32_at_w32: "length pre = n \<Longrightarrow> be32_at (pre @ w32_bytes w @ rest) n = Some w"
  using be16_at_w16 [of pre n "ucast (drop_bit 16 w)" "w16_bytes (ucast w) @ rest"]
    be16_at_w16 [of "pre @ w16_bytes (ucast (drop_bit 16 w))" "n + 2" "ucast w" rest]
  by (simp add: be32_at_def w32_bytes_def word_cat_halves)

lemma byte_at_nth: "length pre = n \<Longrightarrow> byte_at (pre @ b # rest) n = Some b"
  by (auto simp: byte_at_def)

text \<open>A header read behind a prefix.\<close>

lemma read_ipv4_skip: "length pre = n \<Longrightarrow> read_ipv4 (pre @ d) n info = read_ipv4 d 0 info"
  unfolding read_ipv4_def
  using byte_at_skip [of pre n d] be16_at_skip [of pre n d] be32_at_skip [of pre n d]
  by simp

lemma read_tcp_skip: "length pre = n \<Longrightarrow> read_tcp (pre @ d) n info = read_tcp d 0 info"
  unfolding read_tcp_def
  using byte_at_skip [of pre n d] be16_at_skip [of pre n d] be32_at_skip [of pre n d]
    be16_at_skip [of pre n d 0] by simp

lemma read_udp_skip: "length pre = n \<Longrightarrow> read_udp (pre @ d) n info = read_udp d 0 info"
  unfolding read_udp_def using be16_at_skip [of pre n d] be16_at_skip [of pre n d 0] by simp

lemma read_ipv4_encoded:
  "read_ipv4 (ipv4_bytes h @ rest) 0 info =
     Some (info\<lparr> l3_proto := L3_IPv4, ip_proto_num := ih_proto h, ttl_or_hop_limit := ih_ttl h,
       ip_total_length := ih_total h,
       ip_fragmented := more_fragments (ih_frag h) \<or> fragment_offset (ih_frag h) > 0,
       src_ip := format_ipv4 (ih_src h), dst_ip := format_ipv4 (ih_dst h), valid := True \<rparr>)"
proof -
  let ?a = "[0x40 + of_nat (5 + length (ih_options h) div 4), ih_tos h]"
  let ?b = "?a @ w16_bytes (ih_total h) @ w16_bytes (ih_id h)"
  let ?c = "?b @ w16_bytes (ih_frag h)"
  let ?e = "?c @ [ih_ttl h, ih_proto h] @ w16_bytes (ih_checksum h)"
  have "be16_at (ipv4_bytes h @ rest) 2 = Some (ih_total h)"
    using be16_at_w16 [of ?a 2] by (simp add: ipv4_bytes_def)
  moreover have "be16_at (ipv4_bytes h @ rest) 6 = Some (ih_frag h)"
    using be16_at_w16 [of ?b 6] by (simp add: ipv4_bytes_def)
  moreover have "byte_at (ipv4_bytes h @ rest) 8 = Some (ih_ttl h)"
    using byte_at_nth [of ?c 8] by (simp add: ipv4_bytes_def)
  moreover have "byte_at (ipv4_bytes h @ rest) 9 = Some (ih_proto h)"
    using byte_at_nth [of "?c @ [ih_ttl h]" 9] by (simp add: ipv4_bytes_def)
  moreover have "be32_at (ipv4_bytes h @ rest) 12 = Some (ih_src h)"
    using be32_at_w32 [of ?e 12] by (simp add: ipv4_bytes_def)
  moreover have "be32_at (ipv4_bytes h @ rest) 16 = Some (ih_dst h)"
    using be32_at_w32 [of "?e @ w32_bytes (ih_src h)" 16] by (simp add: ipv4_bytes_def)
  ultimately show ?thesis by (simp add: read_ipv4_def)
qed

lemma read_tcp_encoded:
  "read_tcp (tcp_bytes h @ rest) 0 info =
     Some (info\<lparr> l4_proto := L4_TCP, src_port := th_sport h, dst_port := th_dport h,
       tcp_seq := th_seq h, tcp_ack := th_ack h, tcp_flags := th_flags h, tcp_window := th_window h \<rparr>)"
proof -
  let ?a = "w16_bytes (th_sport h)"
  let ?b = "?a @ w16_bytes (th_dport h)"
  let ?c = "?b @ w32_bytes (th_seq h) @ w32_bytes (th_ack h) @
    [of_nat (16 * (5 + length (th_options h) div 4))]"
  have "be16_at (tcp_bytes h @ rest) 0 = Some (th_sport h)"
    using be16_at_w16 [of "[]" 0] by (simp add: tcp_bytes_def)
  moreover have "be16_at (tcp_bytes h @ rest) 2 = Some (th_dport h)"
    using be16_at_w16 [of ?a 2] by (simp add: tcp_bytes_def)
  moreover have "be32_at (tcp_bytes h @ rest) 4 = Some (th_seq h)"
    using be32_at_w32 [of ?b 4] by (simp add: tcp_bytes_def)
  moreover have "be32_at (tcp_bytes h @ rest) 8 = Some (th_ack h)"
    using be32_at_w32 [of "?b @ w32_bytes (th_seq h)" 8] by (simp add: tcp_bytes_def)
  moreover have "byte_at (tcp_bytes h @ rest) 13 = Some (th_flags h)"
    using byte_at_nth [of ?c 13] by (simp add: tcp_bytes_def)
  moreover have "be16_at (tcp_bytes h @ rest) 14 = Some (th_window h)"
    using be16_at_w16 [of "?c @ [th_flags h]" 14] by (simp add: tcp_bytes_def)
  ultimately show ?thesis by (simp add: read_tcp_def)
qed

lemma read_udp_encoded:
  "read_udp (udp_bytes sp dp ulen ck @ rest) 0 info =
     Some (info\<lparr> l4_proto := L4_UDP, src_port := sp, dst_port := dp \<rparr>)"
  using be16_at_w16 [of "[]" 0 sp] be16_at_w16 [of "w16_bytes sp" 2 dp]
  by (simp add: read_udp_def udp_bytes_def)

section \<open>Header lengths\<close>

lemma options_cases:
  assumes "options_ok os"
  shows "length os div 4 \<in> {0, 1, 2, 3, 4, 5, 6, 7, 8, 9, 10} \<and> 4 * (length os div 4) = length os"
proof -
  have "length os div 4 \<le> 10" "4 * (length os div 4) = length os"
    using assms by (auto simp: options_ok_def)
  then show ?thesis unfolding insert_iff empty_iff by arith
qed

lemma unat_of_nat_u32: "n < 2 ^ 32 \<Longrightarrow> unat (of_nat n :: u32) = n"
  by (simp add: unsigned_of_nat take_bit_eq_mod)

lemma version_ihl:
  assumes "options_ok os"
  shows "ip_version (0x40 + of_nat (5 + length os div 4)) = 4"
    and "ihl_bytes (0x40 + of_nat (5 + length os div 4)) = 20 + length os"
proof -
  have "ip_version (0x40 + of_nat (5 + k)) = 4 \<and> ihl_bytes (0x40 + of_nat (5 + k)) = 20 + 4 * k"
    if "k \<in> {0, 1, 2, 3, 4, 5, 6, 7, 8, 9, 10}" for k :: nat
    using that by (elim insertE emptyE; hypsubst) (simp_all add: ip_version_def ihl_bytes_def)
  from this [of "length os div 4"] options_cases [OF assms]
  show "ip_version (0x40 + of_nat (5 + length os div 4)) = 4"
    and "ihl_bytes (0x40 + of_nat (5 + length os div 4)) = 20 + length os" by auto
qed

lemma tcp_header_bytes_encoded:
  assumes "options_ok os"
  shows "tcp_header_bytes (of_nat (16 * (5 + length os div 4))) = 20 + length os"
proof -
  have "tcp_header_bytes (of_nat (16 * (5 + k))) = 20 + 4 * k"
    if "k \<in> {0, 1, 2, 3, 4, 5, 6, 7, 8, 9, 10}" for k :: nat
    using that by (elim insertE emptyE; hypsubst) (simp_all add: tcp_header_bytes_def)
  from this [of "length os div 4"] options_cases [OF assms] show ?thesis by auto
qed

lemma length_ipv4_bytes [simp]: "length (ipv4_bytes h) = 20 + length (ih_options h)"
  by (simp add: ipv4_bytes_def)

lemma length_tcp_bytes [simp]: "length (tcp_bytes h) = 20 + length (th_options h)"
  by (simp add: tcp_bytes_def)

lemma length_udp_bytes [simp]: "length (udp_bytes sp dp ulen ck) = 8"
  by (simp add: udp_bytes_def)

section \<open>Frames\<close>

definition ethernet_info :: "captured_packet \<Rightarrow> u8 list \<Rightarrow> u8 list \<Rightarrow> u16 \<Rightarrow> packet_info" where
  "ethernet_info raw dst src et =
     (initial_info raw)\<lparr> dst_mac := dst, src_mac := src, ether_type := et, has_ethernet := True \<rparr>"

definition ipv4_info :: "ipv4_header \<Rightarrow> packet_info \<Rightarrow> packet_info" where
  "ipv4_info h info = info\<lparr> l3_proto := L3_IPv4, ip_proto_num := ih_proto h,
     ttl_or_hop_limit := ih_ttl h, ip_total_length := ih_total h,
     ip_fragmented := more_fragments (ih_frag h) \<or> fragment_offset (ih_frag h) > 0,
     src_ip := format_ipv4 (ih_src h), dst_ip := format_ipv4 (ih_dst h), valid := True \<rparr>"

definition tcp_info :: "tcp_header \<Rightarrow> packet_info \<Rightarrow> packet_info" where
  "tcp_info t info = info\<lparr> l4_proto := L4_TCP, src_port := th_sport t, dst_port := th_dport t,
     tcp_seq := th_seq t, tcp_ack := th_ack t, tcp_flags := th_flags t, tcp_window := th_window t \<rparr>"

definition udp_info :: "u16 \<Rightarrow> u16 \<Rightarrow> packet_info \<Rightarrow> packet_info" where
  "udp_info sp dp info = info\<lparr> l4_proto := L4_UDP, src_port := sp, dst_port := dp \<rparr>"

lemma read_ethernet_encoded:
  assumes "length dst = 6" "length src = 6"
  shows "read_ethernet (ethernet_bytes dst src et @ rest) info =
     Some (info\<lparr> dst_mac := dst, src_mac := src, ether_type := et, has_ethernet := True \<rparr>)"
proof -
  have "bytes_at (ethernet_bytes dst src et @ rest) 0 6 = Some dst"
    using bytes_at_append [of "[]" dst] assms by (simp add: ethernet_bytes_def)
  moreover have "bytes_at (ethernet_bytes dst src et @ rest) 6 6 = Some src"
    using bytes_at_append [of dst src] assms by (simp add: ethernet_bytes_def)
  moreover have "be16_at (ethernet_bytes dst src et @ rest) 12 = Some et"
    using be16_at_w16 [of "dst @ src" 12] assms by (simp add: ethernet_bytes_def)
  ultimately show ?thesis by (simp add: read_ethernet_def)
qed

lemma dissect_ipv4_encoded:
  assumes pre: "length pre = off" and opts: "options_ok (ih_options h)"
    and data: "data = pre @ ipv4_bytes h @ rest"
  shows "dissect_ipv4 data (length data) off info =
     (let info1 = ipv4_info h info; o4 = off + 20 + length (ih_options h)
      in if ih_proto h = IPPROTO_TCP_NUM then dissect_tcp4 data (length data) o4 info1
         else if ih_proto h = IPPROTO_UDP_NUM then dissect_udp4 data (length data) o4 info1
         else if ih_proto h = IPPROTO_ICMP_V4 then Some (info1\<lparr> l4_proto := L4_ICMP \<rparr>)
         else Some (info1\<lparr> l4_proto := L4_OTHER \<rparr>))"
proof -
  have "byte_at data off = Some (0x40 + of_nat (5 + length (ih_options h) div 4))"
    using byte_at_nth [OF pre] by (simp add: data ipv4_bytes_def)
  moreover have "read_ipv4 data off info = Some (ipv4_info h info)"
    unfolding data read_ipv4_skip [OF pre] read_ipv4_encoded ipv4_info_def by simp
  moreover have "length data = off + 20 + length (ih_options h) + length rest"
    using pre by (simp add: data)
  moreover have "ip_proto_num (ipv4_info h info) = ih_proto h" by (simp add: ipv4_info_def)
  ultimately show ?thesis
    using version_ihl [OF opts] by (simp add: dissect_ipv4_def Let_def add.assoc)
qed

lemma dissect_tcp4_encoded:
  assumes pre: "length pre = off" and opts: "options_ok (th_options t)"
    and data: "data = pre @ tcp_bytes t @ payload"
  shows "dissect_tcp4 data (length data) off info =
     (let o7 = off + 20 + length (th_options t); n = length payload
      in if n > 0 then dissect_l7_tcp4 data o7 n (with_payload o7 n (tcp_info t info))
         else Some (tcp_info t info))"
proof -
  have "byte_at data (off + 12) = Some (of_nat (16 * (5 + length (th_options t) div 4)))"
    using byte_at_nth [of "pre @ w16_bytes (th_sport t) @ w16_bytes (th_dport t) @ w32_bytes (th_seq t) @
        w32_bytes (th_ack t)" "off + 12"] pre
    by (simp add: data tcp_bytes_def)
  moreover have "read_tcp data off info = Some (tcp_info t info)"
    unfolding data read_tcp_skip [OF pre] read_tcp_encoded tcp_info_def by simp
  moreover have "length data = off + 20 + length (th_options t) + length payload"
    using pre by (simp add: data)
  ultimately show ?thesis
    using tcp_header_bytes_encoded [OF opts] by (simp add: dissect_tcp4_def Let_def add.assoc)
qed

lemma dissect_udp4_encoded:
  assumes pre: "length pre = off" and data: "data = pre @ udp_bytes sp dp ulen ck @ payload"
  shows "dissect_udp4 data (length data) off info =
     (let n = length payload; info1 = udp_info sp dp info
      in if n > 0 then
           if sp = PORT_DNS \<or> dp = PORT_DNS then extract_dns payload n (with_payload (off + 8) n info1)
           else Some (with_payload (off + 8) n info1)
         else Some info1)"
proof -
  have "read_udp data off info = Some (udp_info sp dp info)"
    unfolding data read_udp_skip [OF pre] read_udp_encoded udp_info_def by simp
  moreover have "length data = off + 8 + length payload" using pre by (simp add: data)
  moreover have "drop (off + 8) data = payload" using pre by (simp add: data)
  ultimately show ?thesis
    by (auto simp: dissect_udp4_def Let_def has_port_def with_payload_def udp_info_def)
qed

lemma dissect_frame_encoded:
  assumes mac: "length dst = 6" "length src = 6" and et: "et \<noteq> ETHERTYPE_VLAN"
    and fits: "length (ethernet_bytes dst src et @ rest) < 2 ^ 32"
    and raw: "raw = frame_of (ethernet_bytes dst src et @ rest) orig ts"
  shows "dissect_packet raw =
     dissect_l3 (cp_data raw) (length (cp_data raw)) 14 (ethernet_info raw dst src et)"
proof -
  have len: "unat (cp_captured_length raw) = length (cp_data raw)"
    using unat_of_nat_u32 [OF fits] by (simp only: raw frame_of_def captured_packet.simps)
  have data: "cp_data raw = ethernet_bytes dst src et @ rest" by (simp add: raw frame_of_def)
  have ge: "14 \<le> length (cp_data raw)" using mac by (simp add: data ethernet_bytes_def)
  then have "cp_data raw \<noteq> []" by auto
  then show ?thesis
    using ge et read_ethernet_encoded [OF mac, of et rest]
    by (auto simp: dissect_packet_def Let_def len data ethernet_info_def)
qed

section \<open>Whole frames\<close>

definition tcp_frame :: "u8 list \<Rightarrow> u8 list \<Rightarrow> ipv4_header \<Rightarrow> tcp_header \<Rightarrow> u8 list \<Rightarrow> u8 list" where
  "tcp_frame dst src h t payload =
     ethernet_bytes dst src ETHERTYPE_IPV4 @ ipv4_bytes h @ tcp_bytes t @ payload"

definition udp_frame :: "u8 list \<Rightarrow> u8 list \<Rightarrow> ipv4_header \<Rightarrow> u16 \<Rightarrow> u16 \<Rightarrow> u16 \<Rightarrow> u16 \<Rightarrow> u8 list \<Rightarrow> u8 list" where
  "udp_frame dst src h sp dp ulen ck payload =
     ethernet_bytes dst src ETHERTYPE_IPV4 @ ipv4_bytes h @ udp_bytes sp dp ulen ck @ payload"

lemma dissect_ipv4_frame:
  assumes mac: "length dst = 6" "length src = 6" and opts: "options_ok (ih_options h)"
    and data: "data = ethernet_bytes dst src ETHERTYPE_IPV4 @ ipv4_bytes h @ rest"
    and fits: "length data < 2 ^ 32"
  shows "dissect_packet (frame_of data orig ts) =
     (let info1 = ipv4_info h (ethernet_info (frame_of data orig ts) dst src ETHERTYPE_IPV4);
          o4 = 34 + length (ih_options h)
      in if ih_proto h = IPPROTO_TCP_NUM then dissect_tcp4 data (length data) o4 info1
         else if ih_proto h = IPPROTO_UDP_NUM then dissect_udp4 data (length data) o4 info1
         else if ih_proto h = IPPROTO_ICMP_V4 then Some (info1\<lparr> l4_proto := L4_ICMP \<rparr>)
         else Some (info1\<lparr> l4_proto := L4_OTHER \<rparr>))"
proof -
  have raw: "frame_of data orig ts = frame_of (ethernet_bytes dst src ETHERTYPE_IPV4 @ ipv4_bytes h @ rest) orig ts"
    by (simp only: data)
  have cp: "cp_data (frame_of data orig ts) = data" by (simp add: frame_of_def)
  have fits': "length (ethernet_bytes dst src ETHERTYPE_IPV4 @ ipv4_bytes h @ rest) < 2 ^ 32"
    using fits unfolding data .
  have 1: "dissect_packet (frame_of data orig ts) = dissect_l3 data (length data) 14
      (ethernet_info (frame_of data orig ts) dst src ETHERTYPE_IPV4)"
    using dissect_frame_encoded [OF mac _ fits' raw] unfolding cp by simp
  have pre: "length (ethernet_bytes dst src ETHERTYPE_IPV4) = 14"
    using mac by (simp add: ethernet_bytes_def)
  have 2: "ether_type (ethernet_info raw dst src ETHERTYPE_IPV4) = ETHERTYPE_IPV4" for raw
    by (simp add: ethernet_info_def)
  show ?thesis
    unfolding 1 dissect_l3_def 2 using dissect_ipv4_encoded [OF pre opts data] by simp
qed

lemma no_payload_update:
  "l7_payload x = None \<Longrightarrow> l7_payload_length x = 0 \<Longrightarrow>
   x\<lparr> l7_payload := None, l7_payload_length := 0 \<rparr> = (x :: packet_info)"
  by (cases x) simp

lemma headers_no_payload:
  "only_l7 ((tcp_info t (ipv4_info h (ethernet_info raw dst src et)))\<lparr> l7_payload := None, l7_payload_length := 0 \<rparr>)
     (tcp_info t (ipv4_info h (ethernet_info raw dst src et)))" (is "only_l7 _ ?info")
proof -
  have "?info\<lparr> l7_payload := None, l7_payload_length := 0 \<rparr> = ?info"
    by (rule no_payload_update)
      (simp_all add: tcp_info_def ipv4_info_def ethernet_info_def initial_info_def empty_info_def)
  then show ?thesis using only_l7_intros(1) by metis
qed

lemma tcp_frame_result:
  assumes mac: "length dst = 6" "length src = 6"
    and h: "options_ok (ih_options h)" "ih_proto h = IPPROTO_TCP_NUM" and t: "options_ok (th_options t)"
    and fits: "length (tcp_frame dst src h t payload) < 2 ^ 32"
  shows "\<exists>info. dissect_packet (frame_of (tcp_frame dst src h t payload) orig ts) = Some info \<and>
     only_l7 ((tcp_info t (ipv4_info h (ethernet_info (frame_of (tcp_frame dst src h t payload) orig ts)
         dst src ETHERTYPE_IPV4)))
       \<lparr> l7_payload := (if payload = [] then None
           else Some (54 + length (ih_options h) + length (th_options t))),
         l7_payload_length := length payload \<rparr>) info"
proof -
  define data where "data = tcp_frame dst src h t payload"
  define info0 where "info0 = ipv4_info h (ethernet_info (frame_of data orig ts) dst src ETHERTYPE_IPV4)"
  define o7 where "o7 = 54 + length (ih_options h) + length (th_options t)"
  have d1: "data = ethernet_bytes dst src ETHERTYPE_IPV4 @ ipv4_bytes h @ tcp_bytes t @ payload"
    by (simp add: data_def tcp_frame_def)
  have d2: "data = (ethernet_bytes dst src ETHERTYPE_IPV4 @ ipv4_bytes h) @ tcp_bytes t @ payload"
    by (simp add: d1)
  have pre: "length (ethernet_bytes dst src ETHERTYPE_IPV4 @ ipv4_bytes h) = 34 + length (ih_options h)"
    using mac by (simp add: ethernet_bytes_def)
  have fits': "length data < 2 ^ 32" using fits by (simp only: data_def)
  have "dissect_packet (frame_of data orig ts) =
      dissect_tcp4 data (length data) (34 + length (ih_options h)) info0"
    using dissect_ipv4_frame [OF mac h(1) d1 fits'] h(2) unfolding info0_def Let_def by simp
  also have "\<dots> = (if length payload > 0
      then dissect_l7_tcp4 data o7 (length payload) (with_payload o7 (length payload) (tcp_info t info0))
      else Some (tcp_info t info0))"
    using dissect_tcp4_encoded [OF pre t d2] by (simp add: Let_def o7_def)
  finally have res: "dissect_packet (frame_of data orig ts) = \<dots>" .
  show ?thesis
  proof (cases "payload = []")
    case True
    have "only_l7 ((tcp_info t info0)\<lparr> l7_payload := None, l7_payload_length := 0 \<rparr>) (tcp_info t info0)"
      unfolding info0_def by (rule headers_no_payload)
    then show ?thesis
      unfolding data_def [symmetric] info0_def [symmetric] using res True by simp
  next
    case False
    have "o7 + length payload = length data"
      using mac by (simp add: d1 o7_def ethernet_bytes_def)
    from dissect_l7_returns(1) [OF this, of "with_payload o7 (length payload) (tcp_info t info0)"]
    obtain info where "dissect_l7_tcp4 data o7 (length payload) (with_payload o7 (length payload) (tcp_info t info0)) = Some info"
      "only_l7 (with_payload o7 (length payload) (tcp_info t info0)) info"
      by (auto simp: returns_iff)
    then show ?thesis
      unfolding data_def [symmetric] info0_def [symmetric]
      using res False by (simp add: with_payload_def o7_def)
  qed
qed

lemma dns_frame_result:
  assumes mac: "length dst = 6" "length src = 6"
    and h: "options_ok (ih_options h)" "ih_proto h = IPPROTO_UDP_NUM"
    and ports: "sp = PORT_DNS \<or> dp = PORT_DNS"
    and hdr: "length hdr = 12" "be16_of (hdr ! 4) (hdr ! 5) \<noteq> 0"
    and ls: "ls \<noteq> []" "length ls < DNS_MAX_LABEL_HOPS" "\<forall>l \<in> set ls. dns_label_ok l"
    and msg: "msg = hdr @ dns_name_bytes ls @ [q1, q2] @ rest"
    and fits: "length (udp_frame dst src h sp dp ulen ck msg) < 2 ^ 32"
  shows "\<exists>info. dissect_packet (frame_of (udp_frame dst src h sp dp ulen ck msg) orig ts) = Some info \<and>
     valid info \<and> l7_proto info = L7_DNS \<and> src_ip info = format_ipv4 (ih_src h) \<and>
     dns info = Some \<lparr> query_name = dotted (map chars_of ls), query_type = be16_of q1 q2,
                       is_response = (and (hdr ! 2) 0x80 \<noteq> 0) \<rparr>"
proof -
  define data where "data = udp_frame dst src h sp dp ulen ck msg"
  define info0 where "info0 = ipv4_info h (ethernet_info (frame_of data orig ts) dst src ETHERTYPE_IPV4)"
  have d1: "data = ethernet_bytes dst src ETHERTYPE_IPV4 @ ipv4_bytes h @ udp_bytes sp dp ulen ck @ msg"
    by (simp add: data_def udp_frame_def)
  have d2: "data = (ethernet_bytes dst src ETHERTYPE_IPV4 @ ipv4_bytes h) @ udp_bytes sp dp ulen ck @ msg"
    by (simp add: d1)
  have pre: "length (ethernet_bytes dst src ETHERTYPE_IPV4 @ ipv4_bytes h) = 34 + length (ih_options h)"
    using mac by (simp add: ethernet_bytes_def)
  have "0 < length msg" using hdr(1) by (simp add: msg)
  then have "dissect_packet (frame_of data orig ts) = extract_dns msg (length msg)
      (with_payload (34 + length (ih_options h) + 8) (length msg) (udp_info sp dp info0))"
    using dissect_ipv4_frame [OF mac h(1) d1] fits h(2) dissect_udp4_encoded [OF pre d2] ports
    by (simp add: data_def info0_def Let_def)
  then show ?thesis
    unfolding data_def [symmetric]
    using extract_dns_encoded [OF hdr ls msg]
    by (simp add: with_payload_def udp_info_def info0_def ipv4_info_def)
qed

section \<open>Properties\<close>

text \<open>
  Claim C7. A frame built from Ethernet, IPv4 and TCP headers, with any options and any payload, is
  dissected into exactly the values it was built from, and the payload is found behind the headers.
\<close>

theorem dissect_tcp_frame:
  assumes "length dst = 6" "length src = 6" "options_ok (ih_options h)" "options_ok (th_options t)"
    and "ih_proto h = IPPROTO_TCP_NUM" and "length (tcp_frame dst src h t payload) < 2 ^ 32"
  shows "\<exists>info. dissect_packet (frame_of (tcp_frame dst src h t payload) orig ts) = Some info \<and>
     valid info \<and> l3_proto info = L3_IPv4 \<and> l4_proto info = L4_TCP \<and>
     src_mac info = src \<and> dst_mac info = dst \<and>
     src_ip info = format_ipv4 (ih_src h) \<and> dst_ip info = format_ipv4 (ih_dst h) \<and>
     ttl_or_hop_limit info = ih_ttl h \<and> ip_total_length info = ih_total h \<and>
     src_port info = th_sport t \<and> dst_port info = th_dport t \<and> tcp_seq info = th_seq t \<and>
     tcp_ack info = th_ack t \<and> tcp_flags info = th_flags t \<and> tcp_window info = th_window t \<and>
     l7_payload info = (if payload = [] then None
        else Some (54 + length (ih_options h) + length (th_options t))) \<and>
     l7_payload_length info = length payload"
proof -
  obtain info where i: "dissect_packet (frame_of (tcp_frame dst src h t payload) orig ts) = Some info"
    and o7: "only_l7 ((tcp_info t (ipv4_info h (ethernet_info (frame_of (tcp_frame dst src h t payload) orig ts)
         dst src ETHERTYPE_IPV4)))
       \<lparr> l7_payload := (if payload = [] then None
           else Some (54 + length (ih_options h) + length (th_options t))),
         l7_payload_length := length payload \<rparr>) info"
    using tcp_frame_result [OF assms(1-3,5,4,6)] by blast
  show ?thesis
    by (rule exI [of _ info])
      (use i o7 in \<open>auto simp: only_l7_def tcp_info_def ipv4_info_def ethernet_info_def\<close>)
qed

definition sample_ipv4 :: "u8 \<Rightarrow> ipv4_header" where
  "sample_ipv4 proto = \<lparr> ih_tos = 0, ih_total = 44, ih_id = 7, ih_frag = 0x4000, ih_ttl = 64, ih_proto = proto,
     ih_checksum = 0, ih_src = 0x0A000001, ih_dst = 0xC0A80002, ih_options = [] \<rparr>"

definition sample_tcp :: tcp_header where
  "sample_tcp = \<lparr> th_sport = 40000, th_dport = 22, th_seq = 1, th_ack = 2, th_flags = 0x18, th_window = 512,
     th_checksum = 0, th_urgent = 0, th_options = [1, 1, 1, 0] \<rparr>"

lemma dissect_tcp_frame_witness:
  "\<exists>info. dissect_packet (frame_of (tcp_frame [1, 2, 3, 4, 5, 6] [7, 8, 9, 10, 11, 12]
       (sample_ipv4 6) sample_tcp [65, 66]) 60 0) = Some info \<and>
     src_port info = 40000 \<and> dst_port info = 22 \<and> l7_payload info = Some 58"
  using dissect_tcp_frame [of "[1, 2, 3, 4, 5, 6]" "[7, 8, 9, 10, 11, 12]" "sample_ipv4 6" sample_tcp
      "[65, 66]" 60 0]
  by (auto simp: sample_ipv4_def sample_tcp_def options_ok_def tcp_frame_def ethernet_bytes_def)

text \<open>
  Claim C17. A DNS message over UDP port 53 is dissected into its question: the dotted name of its
  labels, its type and the direction bit, and its source is the sender's address.
\<close>

theorem dissect_dns_frame:
  assumes "length dst = 6" "length src = 6"
    and "options_ok (ih_options h)" "ih_proto h = IPPROTO_UDP_NUM"
    and "sp = PORT_DNS \<or> dp = PORT_DNS"
    and "length hdr = 12" "be16_of (hdr ! 4) (hdr ! 5) \<noteq> 0"
    and "ls \<noteq> []" "length ls < DNS_MAX_LABEL_HOPS" "\<forall>l \<in> set ls. dns_label_ok l"
    and "msg = hdr @ dns_name_bytes ls @ [q1, q2] @ rest"
    and "length (udp_frame dst src h sp dp ulen ck msg) < 2 ^ 32"
  shows "\<exists>info. dissect_packet (frame_of (udp_frame dst src h sp dp ulen ck msg) orig ts) = Some info \<and>
     l7_proto info = L7_DNS \<and> src_ip info = format_ipv4 (ih_src h) \<and>
     dns info = Some \<lparr> query_name = dotted (map chars_of ls), query_type = be16_of q1 q2,
                       is_response = (and (hdr ! 2) 0x80 \<noteq> 0) \<rparr>"
  using dns_frame_result [OF assms, of orig ts] by blast

definition sample_query :: "u8 list" where
  "sample_query = [0, 9, 1, 0, 0, 1, 0, 0, 0, 0, 0, 0] @ dns_name_bytes [[97, 98], [99]] @ [0, 16] @ [0, 1]"

lemma dissect_dns_frame_witness:
  "\<exists>info. dissect_packet (frame_of (udp_frame [1, 2, 3, 4, 5, 6] [7, 8, 9, 10, 11, 12] (sample_ipv4 17)
       5353 53 40 0 sample_query) 90 0) = Some info \<and>
     dns info = Some \<lparr> query_name = dotted (map chars_of [[97, 98], [99]]), query_type = be16_of 0 16,
                       is_response = False \<rparr>"
proof -
  let ?h = "[0, 9, 1, 0, 0, 1, 0, 0, 0, 0, 0, 0] :: u8 list"
  have "length sample_query = 22" by (simp add: sample_query_def dns_name_bytes_def vec8_def)
  then have fits: "length (udp_frame [1, 2, 3, 4, 5, 6] [7, 8, 9, 10, 11, 12] (sample_ipv4 17) 5353 53 40 0
      sample_query) < 2 ^ 32"
    by (simp add: udp_frame_def ethernet_bytes_def sample_ipv4_def)
  have "be16_of (?h ! 4) (?h ! 5) \<noteq> 0" by (simp add: be16_of_def)
  then show ?thesis
    using dissect_dns_frame [of "[1, 2, 3, 4, 5, 6]" "[7, 8, 9, 10, 11, 12]" "sample_ipv4 17" 5353 53
        ?h "[[97, 98], [99]]" sample_query 0 16 "[0, 1]" 40 0 90 0, OF _ _ _ _ _ _ _ _ _ _ sample_query_def fits]
    by (auto simp: sample_ipv4_def options_ok_def dns_label_ok_def)
qed

end
