(* ===== verification/Frame6Spec.thy ===== *)
theory Frame6Spec
  imports FrameSpec
begin

text \<open>
  The encoder of the IPv6 header, and what \<open>dissect_packet\<close> makes of TCP over IPv6: every field of the
  headers, the addresses, and the ClientHello of a connection to the HTTPS port.
\<close>

section \<open>The IPv6 header\<close>

text \<open>\<open>sh_first\<close> holds the version, the traffic class and the flow label.\<close>

record ipv6_header =
  sh_first :: u32
  sh_payload :: u16
  sh_next :: u8
  sh_hops :: u8
  sh_src :: "u8 list"
  sh_dst :: "u8 list"

definition ipv6_bytes :: "ipv6_header \<Rightarrow> u8 list" where
  "ipv6_bytes h = w32_bytes (sh_first h) @ w16_bytes (sh_payload h) @ [sh_next h, sh_hops h] @ sh_src h @ sh_dst h"

definition ipv6_ok :: "ipv6_header \<Rightarrow> bool" where
  "ipv6_ok h \<longleftrightarrow> drop_bit 28 (sh_first h) = 6 \<and> length (sh_src h) = 16 \<and> length (sh_dst h) = 16"

definition ipv6_info :: "ipv6_header \<Rightarrow> packet_info \<Rightarrow> packet_info" where
  "ipv6_info h info = info\<lparr> l3_proto := L3_IPv6, ip_proto_num := sh_next h, ttl_or_hop_limit := sh_hops h,
     ip_total_length := sh_payload h + 40, src_ip := format_ipv6 (sh_src h), dst_ip := format_ipv6 (sh_dst h),
     valid := True \<rparr>"

lemma length_ipv6_bytes: "ipv6_ok h \<Longrightarrow> length (ipv6_bytes h) = 40"
  by (simp add: ipv6_bytes_def ipv6_ok_def)

lemma version_byte: "drop_bit 4 (ucast (drop_bit 8 (ucast (drop_bit 16 w) :: u16)) :: u8) = ucast (drop_bit 28 (w :: u32))"
  by (rule bit_word_eqI) (auto simp: bit_simps dest: bit_imp_le_length)

lemma first_byte:
  "length pre = off \<Longrightarrow>
   byte_at (pre @ ipv6_bytes h @ rest) off = Some (ucast (drop_bit 8 (ucast (drop_bit 16 (sh_first h)) :: u16)))"
  using byte_at_nth [of pre off] by (simp add: ipv6_bytes_def w32_bytes_def w16_bytes_def)

lemma read_ipv6_encoded:
  assumes pre: "length pre = off" and h: "ipv6_ok h"
  shows "read_ipv6 (pre @ ipv6_bytes h @ rest) off info = Some (ipv6_info h info)"
proof -
  let ?data = "pre @ ipv6_bytes h @ rest"
  let ?a = "pre @ w32_bytes (sh_first h)"
  let ?b = "?a @ w16_bytes (sh_payload h)"
  have len: "length (sh_src h) = 16" "length (sh_dst h) = 16" using h by (simp_all add: ipv6_ok_def)
  have "byte_at ?data (off + 6) = Some (sh_next h)"
    using byte_at_nth [of ?b "off + 6"] pre by (simp add: ipv6_bytes_def)
  moreover have "byte_at ?data (off + 7) = Some (sh_hops h)"
    using byte_at_nth [of "?b @ [sh_next h]" "off + 7"] pre by (simp add: ipv6_bytes_def)
  moreover have "be16_at ?data (off + 4) = Some (sh_payload h)"
    using be16_at_w16 [of ?a "off + 4"] pre by (simp add: ipv6_bytes_def)
  moreover have "bytes_at ?data (off + 8) 16 = Some (sh_src h)"
    using bytes_at_append [of "?b @ [sh_next h, sh_hops h]" "sh_src h"] pre len by (simp add: ipv6_bytes_def)
  moreover have "bytes_at ?data (off + 24) 16 = Some (sh_dst h)"
    using bytes_at_append [of "?b @ [sh_next h, sh_hops h] @ sh_src h" "sh_dst h"] pre len
    by (simp add: ipv6_bytes_def)
  ultimately show ?thesis by (simp add: read_ipv6_def ipv6_info_def)
qed

lemma dissect_ipv6_encoded:
  assumes pre: "length pre = off" and h: "ipv6_ok h"
    and data: "data = pre @ ipv6_bytes h @ rest"
  shows "dissect_ipv6 data (length data) off info =
     (let info1 = ipv6_info h info; o4 = off + 40; n = length rest
      in if sh_next h = IPPROTO_TCP_NUM \<and> 20 \<le> n then dissect_tcp6 data (length data) o4 info1
         else if sh_next h = IPPROTO_UDP_NUM \<and> 8 \<le> n then dissect_udp6 data (length data) o4 info1
         else if sh_next h = IPPROTO_ICMPV6 then Some (info1\<lparr> l4_proto := L4_ICMP \<rparr>)
         else Some info1)"
proof -
  have b: "byte_at data off = Some (ucast (drop_bit 8 (ucast (drop_bit 16 (sh_first h)) :: u16)))"
    using first_byte [OF pre] by (simp add: data)
  have v: "ip_version (ucast (drop_bit 8 (ucast (drop_bit 16 (sh_first h)) :: u16))) = 6"
    using h by (simp add: ip_version_def version_byte ipv6_ok_def)
  have r: "read_ipv6 data off info = Some (ipv6_info h info)"
    unfolding data by (rule read_ipv6_encoded [OF pre h])
  have l: "length data = off + 40 + length rest" using pre length_ipv6_bytes [OF h] by (simp add: data)
  have p: "ip_proto_num (ipv6_info h info) = sh_next h" by (simp add: ipv6_info_def)
  show ?thesis using l by (simp add: dissect_ipv6_def b v r p Let_def)
qed

section \<open>TCP over IPv6\<close>

lemma dissect_tcp6_encoded:
  assumes pre: "length pre = off" and opts: "options_ok (th_options t)"
    and data: "data = pre @ tcp_bytes t @ payload"
  shows "dissect_tcp6 data (length data) off info =
     (let o7 = off + 20 + length (th_options t); n = length payload
      in if n > 0 then dissect_l7_tcp6 data o7 n (with_payload o7 n (tcp_info t info))
         else Some (tcp_info t info))"
proof -
  have "byte_at data (off + 12) = Some (of_nat (16 * (5 + length (th_options t) div 4)))"
    using byte_at_nth [of "pre @ w16_bytes (th_sport t) @ w16_bytes (th_dport t) @ w32_bytes (th_seq t) @
        w32_bytes (th_ack t)" "off + 12"] pre
    by (simp add: data tcp_bytes_def)
  moreover have "read_tcp data off info = Some (tcp_info t info)"
    unfolding data read_tcp_skip [OF pre] read_tcp_encoded tcp_info_def by simp
  moreover have "length data = off + 20 + length (th_options t) + length payload"
    using pre by (simp add: data)
  ultimately show ?thesis
    using tcp_header_bytes_encoded [OF opts] by (simp add: dissect_tcp6_def Let_def add.assoc)
qed

definition tcp6_frame :: "u8 list \<Rightarrow> u8 list \<Rightarrow> ipv6_header \<Rightarrow> tcp_header \<Rightarrow> u8 list \<Rightarrow> u8 list" where
  "tcp6_frame dst src h t payload =
     ethernet_bytes dst src ETHERTYPE_IPV6 @ ipv6_bytes h @ tcp_bytes t @ payload"

lemma tcp6_frame_result:
  assumes mac: "length dst = 6" "length src = 6"
    and h: "ipv6_ok h" "sh_next h = IPPROTO_TCP_NUM" and t: "options_ok (th_options t)"
    and data: "data = tcp6_frame dst src h t payload" and fits: "length data < 2 ^ 32"
  shows "dissect_packet (frame_of data orig ts) =
     (let info = tcp_info t (ipv6_info h (ethernet_info (frame_of data orig ts) dst src ETHERTYPE_IPV6));
          o7 = 74 + length (th_options t); n = length payload
      in if n > 0 then dissect_l7_tcp6 data o7 n (with_payload o7 n info) else Some info)"
proof -
  let ?eth = "ethernet_bytes dst src ETHERTYPE_IPV6" and ?raw = "frame_of data orig ts"
  let ?info = "ipv6_info h (ethernet_info ?raw dst src ETHERTYPE_IPV6)"
  have d: "data = ?eth @ ipv6_bytes h @ tcp_bytes t @ payload"
    "data = (?eth @ ipv6_bytes h) @ tcp_bytes t @ payload"
    by (simp_all add: data tcp6_frame_def)
  have l: "length ?eth = 14" "length (?eth @ ipv6_bytes h) = 54"
    using mac length_ipv6_bytes [OF h(1)] by (simp_all add: ethernet_bytes_def)
  have cp: "cp_data ?raw = data" by (simp add: frame_of_def)
  have raw: "?raw = frame_of (?eth @ ipv6_bytes h @ tcp_bytes t @ payload) orig ts" by (simp only: d(1))
  have fits': "length (?eth @ ipv6_bytes h @ tcp_bytes t @ payload) < 2 ^ 32" using fits d(1) by (simp only:)
  have "dissect_packet ?raw = dissect_l3 data (length data) 14 (ethernet_info ?raw dst src ETHERTYPE_IPV6)"
    using dissect_frame_encoded [OF mac _ fits' raw] unfolding cp by simp
  also have "\<dots> = dissect_ipv6 data (length data) 14 (ethernet_info ?raw dst src ETHERTYPE_IPV6)"
    by (simp add: dissect_l3_def ethernet_info_def)
  also have "\<dots> = dissect_tcp6 data (length data) 54 ?info"
    using dissect_ipv6_encoded [OF l(1) h(1) d(1)] h(2) by (simp add: Let_def)
  finally show ?thesis
    using dissect_tcp6_encoded [OF l(2) t d(2)] by (simp add: Let_def)
qed

section \<open>Properties\<close>

text \<open>
  Claim C19. A TLS connection over IPv6 is seen from the wire to its server name: the ClientHello to (or from)
  port 443, behind any IPv6 and TCP headers and options, is dissected into exactly the fields of
  the headers, the text of the addresses, the place of the payload, and the name and version of the
  ClientHello.
\<close>

theorem dissect_tls_frame6:
  assumes "length dst = 6" "length src = 6"
    and "ipv6_ok h" "sh_next h = IPPROTO_TCP_NUM" "options_ok (th_options t)"
    and "th_sport t = PORT_HTTPS \<or> th_dport t = PORT_HTTPS"
    and "length vr = 34" "length sid < 256" "length suites < 65536" "length methods < 256"
    and "length (tls_hello_body vr sid suites methods (tls_exts es host)) < 65532" "\<forall>x \<in> set es. ext_ok x"
    and "p = tls_hello v1 v2 (tls_hello_body vr sid suites methods (tls_exts es host)) @ rest"
    and "data = tcp6_frame dst src h t p" "length data < 2 ^ 32"
  shows "dissect_packet (frame_of data orig ts) = Some
     ((with_payload (74 + length (th_options t)) (length p)
        (tcp_info t (ipv6_info h (ethernet_info (frame_of data orig ts) dst src ETHERTYPE_IPV6))))
      \<lparr> tls := Some \<lparr> sni = chars_of host, record_version = be16_of v1 v2 \<rparr>, l7_proto := L7_TLS \<rparr>)"
proof -
  let ?info = "tcp_info t (ipv6_info h (ethernet_info (frame_of data orig ts) dst src ETHERTYPE_IPV6))"
  let ?o7 = "74 + length (th_options t)"
  have n: "length p > 0" by (simp add: assms(13) tls_hello_def)
  have drop: "drop ?o7 data = p"
    using assms(1,2) length_ipv6_bytes [OF assms(3)]
    by (simp add: assms(14) tcp6_frame_def ethernet_bytes_def)
  have port: "has_port (with_payload ?o7 (length p) ?info) PORT_HTTPS"
    using assms(6) by (auto simp: has_port_def with_payload_def tcp_info_def)
  have "dissect_packet (frame_of data orig ts) = extract_tls p (length p) (with_payload ?o7 (length p) ?info)"
    using tcp6_frame_result [OF assms(1-5,14,15), of orig ts] n port
    by (simp add: Let_def dissect_l7_tcp6_def drop)
  then show ?thesis by (simp only: extract_tls_encoded [OF assms(7-13)])
qed

definition sample_ipv6 :: ipv6_header where
  "sample_ipv6 = \<lparr> sh_first = 0x60000000, sh_payload = 100, sh_next = 6, sh_hops = 64,
     sh_src = replicate 15 0 @ [1], sh_dst = replicate 15 0 @ [2] \<rparr>"

definition sample_https :: tcp_header where
  "sample_https = \<lparr> th_sport = 40000, th_dport = 443, th_seq = 1, th_ack = 2, th_flags = 24, th_window = 512,
     th_checksum = 0, th_urgent = 0, th_options = [1, 1, 1, 1] \<rparr>"

lemma dissect_tls_frame6_witness:
  "\<exists>info. dissect_packet (frame_of (tcp6_frame [1, 2, 3, 4, 5, 6] [7, 8, 9, 10, 11, 12] sample_ipv6 sample_https
       sample_hello) 200 0) = Some info \<and>
     tls info = Some \<lparr> sni = chars_of [97, 46, 98], record_version = be16_of 3 1 \<rparr>"
proof -
  have l: "length sample_hello < 100"
    by (simp add: sample_hello_def tls_hello_def tls_hello_body_def tls_exts_def tls_sni_body_def vec8_def vec16_def
        tls_ext_def be16_bytes_def be24_bytes_def)
  have ok: "ipv6_ok sample_ipv6" by (simp add: ipv6_ok_def sample_ipv6_def)
  have fits: "length (tcp6_frame [1, 2, 3, 4, 5, 6] [7, 8, 9, 10, 11, 12] sample_ipv6 sample_https sample_hello) < 2 ^ 32"
    using l length_ipv6_bytes [OF ok] by (simp add: tcp6_frame_def ethernet_bytes_def sample_https_def)
  note t = dissect_tls_frame6 [OF _ _ ok _ _ _ _ _ _ _ _ _ sample_hello_def refl fits, of 200 0]
  show ?thesis
    by (subst t) (simp_all add: sample_ipv6_def sample_https_def options_ok_def tls_hello_body_def tls_exts_def
        tls_sni_body_def ext_ok_def vec8_def vec16_def tls_ext_def be16_bytes_def)
qed

end
