(* ===== verification/VlanSpec.thy ===== *)
theory VlanSpec
  imports FrameSpec
begin

text \<open>
  One 802.1Q tag is transparent: \<open>dissect_packet\<close> of a tagged frame is \<open>dissect_packet\<close> of the frame
  without its tag, up to the four bytes by which everything behind the tag moves. The proof follows
  the blocks of the dissector; every one of them commutes with moving the frame's contents. A second
  tag is not followed.
\<close>

section \<open>Moving the contents of a frame\<close>

definition moved :: "packet_info \<Rightarrow> packet_info" where
  "moved i = i\<lparr> captured_length := captured_length i + 4, l7_payload := map_option (\<lambda>off. off + 4) (l7_payload i) \<rparr>"

definition shifted :: "u8 list \<Rightarrow> u8 list \<Rightarrow> bool" where
  "shifted data data' \<longleftrightarrow> length data' = length data + 4 \<and> drop 18 data' = drop 14 data"

lemma map_option_bind: "map_option f (m \<bind> g) = m \<bind> (\<lambda>x. map_option f (g x))"
  by (cases m) simp_all

lemma moved_sel [simp]:
  "ip_proto_num (moved i) = ip_proto_num i" "ether_type (moved i) = ether_type i"
  "src_port (moved i) = src_port i" "dst_port (moved i) = dst_port i"
  by (simp_all add: moved_def)

lemma shifted_drop:
  assumes "shifted data data'" "14 \<le> off"
  shows "drop (off + 4) data' = drop off data"
proof -
  have "drop (off + 4) data' = drop (off - 14) (drop 18 data')" using assms(2) by (simp add: add.commute)
  also have "\<dots> = drop (off - 14) (drop 14 data)" using assms(1) by (simp add: shifted_def)
  also have "\<dots> = drop off data" using assms(2) by simp
  finally show ?thesis .
qed

lemma shifted_byte_at:
  assumes "shifted data data'" "14 \<le> off"
  shows "byte_at data' (off + 4) = byte_at data off"
proof -
  have "off + 4 < length data' \<longleftrightarrow> off < length data" using assms(1) by (simp add: shifted_def)
  moreover have "data' ! (off + 4) = data ! off" if "off < length data"
    using arg_cong [OF shifted_drop [OF assms], of "\<lambda>xs. xs ! 0"] that assms(1) by (simp add: shifted_def)
  ultimately show ?thesis by (simp add: byte_at_def)
qed

lemma shifted_bytes_at:
  assumes "shifted data data'" "14 \<le> off"
  shows "bytes_at data' (off + 4) n = bytes_at data off n"
  using shifted_drop [OF assms] assms(1) by (simp add: bytes_at_def shifted_def)

lemma shifted_plus:
  assumes "shifted data data'" "14 \<le> off"
  shows "byte_at data' (off + 4 + k) = byte_at data (off + k)"
    and "be16_at data' (off + 4) = be16_at data off"
    and "be16_at data' (off + 4 + k) = be16_at data (off + k)"
    and "be32_at data' (off + 4 + k) = be32_at data (off + k)"
    and "be32_at data' (off + 4) = be32_at data off"
    and "bytes_at data' (off + 4 + k) n = bytes_at data (off + k) n"
proof -
  have b: "byte_at data' (off + 4 + j) = byte_at data (off + j)" for j
    using shifted_byte_at [OF assms(1), of "off + j"] assms(2) by (simp add: ac_simps)
  have h: "be16_at data' (off + 4 + j) = be16_at data (off + j)" for j
    using b [of j] b [of "j + 1"] by (simp add: be16_at_def ac_simps)
  have w: "be32_at data' (off + 4 + j) = be32_at data (off + j)" for j
    using h [of j] h [of "j + 2"] by (simp add: be32_at_def ac_simps)
  show "byte_at data' (off + 4 + k) = byte_at data (off + k)" by (rule b)
  show "be16_at data' (off + 4) = be16_at data off" using h [of 0] by simp
  show "be16_at data' (off + 4 + k) = be16_at data (off + k)" by (rule h)
  show "be32_at data' (off + 4 + k) = be32_at data (off + k)" by (rule w)
  show "be32_at data' (off + 4) = be32_at data off" using w [of 0] by simp
  show "bytes_at data' (off + 4 + k) n = bytes_at data (off + k) n"
    using shifted_bytes_at [OF assms(1), of "off + k" n] assms(2) by (simp add: ac_simps)
qed

section \<open>The extractors\<close>

lemma extract_dns_moved: "extract_dns p n (moved i) = map_option moved (extract_dns p n i)"
  by (simp add: extract_dns_def moved_def split: Option.bind_split option.split prod.split)

lemma extract_http_moved: "extract_http p n (moved i) = map_option moved (extract_http p n i)"
  by (simp add: extract_http_def moved_def split: Option.bind_split)

lemma extract_tls_moved: "extract_tls p n (moved i) = map_option moved (extract_tls p n i)"
  by (simp add: extract_tls_def moved_def Let_def split: Option.bind_split option.split prod.split)

lemmas extract_moved = extract_dns_moved extract_http_moved extract_tls_moved

section \<open>The blocks of the dissector\<close>

lemma with_payload_moved: "with_payload (off + 4) n (moved i) = moved (with_payload off n i)"
  by (simp add: with_payload_def moved_def)

lemma truncated_moved: "(moved i)\<lparr> truncated := True \<rparr> = moved (i\<lparr> truncated := True \<rparr>)"
  by (simp add: moved_def)

lemma l4_proto_moved: "(moved i)\<lparr> l4_proto := x \<rparr> = moved (i\<lparr> l4_proto := x \<rparr>)"
  by (simp add: moved_def)

lemma has_port_moved: "has_port (moved i) x = has_port i x"
  by (simp add: has_port_def)

lemma read_tcp_moved:
  assumes "shifted data data'" "14 \<le> off"
  shows "read_tcp data' (off + 4) (moved i) = map_option moved (read_tcp data off i)"
  unfolding read_tcp_def shifted_plus [OF assms]
  by (simp add: moved_def split: Option.bind_split)

lemma read_udp_moved:
  assumes "shifted data data'" "14 \<le> off"
  shows "read_udp data' (off + 4) (moved i) = map_option moved (read_udp data off i)"
  unfolding read_udp_def shifted_plus [OF assms]
  by (simp add: moved_def split: Option.bind_split)

lemma read_ipv4_moved:
  assumes "shifted data data'" "14 \<le> off"
  shows "read_ipv4 data' (off + 4) (moved i) = map_option moved (read_ipv4 data off i)"
  unfolding read_ipv4_def shifted_plus [OF assms]
  by (simp add: moved_def split: Option.bind_split)

lemma read_ipv6_moved:
  assumes "shifted data data'" "14 \<le> off"
  shows "read_ipv6 data' (off + 4) (moved i) = map_option moved (read_ipv6 data off i)"
  unfolding read_ipv6_def shifted_plus [OF assms]
  by (simp add: moved_def split: Option.bind_split)

lemma dissect_l7_moved:
  assumes "shifted data data'" "14 \<le> off"
  shows "dissect_l7_tcp4 data' (off + 4) n (moved i) = map_option moved (dissect_l7_tcp4 data off n i)"
    and "dissect_l7_tcp6 data' (off + 4) n (moved i) = map_option moved (dissect_l7_tcp6 data off n i)"
  by (simp_all add: dissect_l7_tcp4_def dissect_l7_tcp6_def shifted_drop [OF assms] has_port_moved extract_moved)

lemma dissect_tcp_moved:
  assumes sh: "shifted data data'" and off: "14 \<le> off"
  shows "dissect_tcp4 data' (len + 4) (off + 4) (moved i) = map_option moved (dissect_tcp4 data len off i)"
    and "dissect_tcp6 data' (len + 4) (off + 4) (moved i) = map_option moved (dissect_tcp6 data len off i)"
proof -
  have plus: "off + 4 + k = off + k + 4" for k by simp
  have b: "byte_at data' (off + 12 + 4) = byte_at data (off + 12)"
    using shifted_byte_at [OF sh, of "off + 12"] off by simp
  have l7: "dissect_l7_tcp4 data' (off + k + 4) n (with_payload (off + k + 4) n (moved i)) =
      map_option moved (dissect_l7_tcp4 data (off + k) n (with_payload (off + k) n i))"
    "dissect_l7_tcp6 data' (off + k + 4) n (with_payload (off + k + 4) n (moved i)) =
      map_option moved (dissect_l7_tcp6 data (off + k) n (with_payload (off + k) n i))" for k n i
    using dissect_l7_moved [OF sh, of "off + k"] off by (simp_all add: with_payload_moved)
  show "dissect_tcp4 data' (len + 4) (off + 4) (moved i) = map_option moved (dissect_tcp4 data len off i)"
    unfolding dissect_tcp4_def read_tcp_moved [OF sh off] Let_def plus b
    by (auto simp: l7 truncated_moved split: Option.bind_split)
  show "dissect_tcp6 data' (len + 4) (off + 4) (moved i) = map_option moved (dissect_tcp6 data len off i)"
    unfolding dissect_tcp6_def read_tcp_moved [OF sh off] Let_def plus b
    by (auto simp: l7 split: Option.bind_split)
qed

lemma dissect_udp_moved:
  assumes sh: "shifted data data'" and off: "14 \<le> off"
  shows "dissect_udp4 data' (len + 4) (off + 4) (moved i) = map_option moved (dissect_udp4 data len off i)"
    and "dissect_udp6 data' (len + 4) (off + 4) (moved i) = map_option moved (dissect_udp6 data len off i)"
proof -
  have plus: "off + 4 + k = off + k + 4" for k by simp
  define m where "m = off + 8"
  have d: "drop (m + 4) data' = drop m data" using shifted_drop [OF sh, of m] off by (simp add: m_def)
  show "dissect_udp4 data' (len + 4) (off + 4) (moved i) = map_option moved (dissect_udp4 data len off i)"
    unfolding dissect_udp4_def read_udp_moved [OF sh off] Let_def plus m_def [symmetric] d
    by (auto simp: with_payload_moved extract_moved has_port_moved truncated_moved split: Option.bind_split)
  show "dissect_udp6 data' (len + 4) (off + 4) (moved i) = map_option moved (dissect_udp6 data len off i)"
    unfolding dissect_udp6_def read_udp_moved [OF sh off] Let_def plus m_def [symmetric] d
    by (auto simp: with_payload_moved extract_moved has_port_moved split: Option.bind_split)
qed

lemma dissect_ipv4_moved:
  assumes sh: "shifted data data'" and off: "14 \<le> off"
  shows "dissect_ipv4 data' (len + 4) (off + 4) (moved i) = map_option moved (dissect_ipv4 data len off i)"
proof -
  have plus: "off + 4 + k = off + k + 4" for k by simp
  have l4: "dissect_tcp4 data' (len + 4) (off + k + 4) (moved i) = map_option moved (dissect_tcp4 data len (off + k) i)"
    "dissect_udp4 data' (len + 4) (off + k + 4) (moved i) = map_option moved (dissect_udp4 data len (off + k) i)" for k i
    using dissect_tcp_moved(1) [OF sh, of "off + k"] dissect_udp_moved(1) [OF sh, of "off + k"] off by simp_all
  show ?thesis
    unfolding dissect_ipv4_def shifted_byte_at [OF sh off] read_ipv4_moved [OF sh off] Let_def plus
    by (auto simp: l4 truncated_moved l4_proto_moved split: Option.bind_split)
qed

lemma dissect_ipv6_moved:
  assumes sh: "shifted data data'" and off: "14 \<le> off"
  shows "dissect_ipv6 data' (len + 4) (off + 4) (moved i) = map_option moved (dissect_ipv6 data len off i)"
proof -
  have plus: "off + 4 + k = off + k + 4" for k by simp
  define m where "m = off + 40"
  have l4: "dissect_tcp6 data' (len + 4) (m + 4) (moved i) = map_option moved (dissect_tcp6 data len m i)"
    "dissect_udp6 data' (len + 4) (m + 4) (moved i) = map_option moved (dissect_udp6 data len m i)" for i
    using dissect_tcp_moved(2) [OF sh, of m] dissect_udp_moved(2) [OF sh, of m] off by (simp_all add: m_def)
  have sub: "len + 4 - (m + 4) = len - m" "len + 4 < m + 4 \<longleftrightarrow> len < m" by simp_all
  show ?thesis
    unfolding dissect_ipv6_def shifted_byte_at [OF sh off] read_ipv6_moved [OF sh off] Let_def plus
      m_def [symmetric] sub
    by (cases "byte_at data off"; cases "read_ipv6 data off i") (simp_all add: l4 truncated_moved l4_proto_moved)
qed

lemma dissect_l3_moved:
  assumes "shifted data data'"
  shows "dissect_l3 data' (len + 4) 18 (moved i) = map_option moved (dissect_l3 data len 14 i)"
  using dissect_ipv4_moved [OF assms, of 14 len i] dissect_ipv6_moved [OF assms, of 14 len i]
  by (simp add: dissect_l3_def) (simp add: moved_def)

section \<open>Properties\<close>

text \<open>The frame with a tag between the addresses and the type.\<close>

definition vlan_bytes :: "u8 list \<Rightarrow> u8 list \<Rightarrow> u16 \<Rightarrow> u16 \<Rightarrow> u8 list" where
  "vlan_bytes dst src tci et = ethernet_bytes dst src ETHERTYPE_VLAN @ w16_bytes tci @ w16_bytes et"

lemma dissect_tagged:
  assumes "length dst = 6" "length src = 6" "length (vlan_bytes dst src tci et @ rest) < 2 ^ 32"
    and raw: "raw = frame_of (vlan_bytes dst src tci et @ rest) orig ts"
  shows "dissect_packet raw = dissect_l3 (vlan_bytes dst src tci et @ rest) (length (vlan_bytes dst src tci et @ rest)) 18
    (ethernet_info raw dst src et)"
proof -
  define data where "data = vlan_bytes dst src tci et @ rest"
  have len: "length (ethernet_bytes dst src x) = 14" for x using assms by (simp add: ethernet_bytes_def)
  have u: "unat (cp_captured_length raw) = length data" "cp_data raw = data"
    using unat_of_nat_u32 [of "length data"] assms(3) unfolding data_def [symmetric]
    by (simp_all only: raw data_def frame_of_def captured_packet.simps)
  have tag: "be16_at data 16 = Some et"
    using be16_at_w16 [of "ethernet_bytes dst src ETHERTYPE_VLAN @ w16_bytes tci" 16 et rest] len
    by (simp add: data_def vlan_bytes_def)
  have info: "(ethernet_info raw dst src ETHERTYPE_VLAN)\<lparr> ether_type := et \<rparr> = ethernet_info raw dst src et"
    by (simp add: ethernet_info_def)
  have type: "ether_type (ethernet_info raw dst src ETHERTYPE_VLAN) = ETHERTYPE_VLAN" by (simp add: ethernet_info_def)
  have "length (vlan_bytes dst src tci et) = 18" using len by (simp add: vlan_bytes_def w16_bytes_def)
  then have "18 \<le> length data" by (simp add: data_def)
  moreover have "read_ethernet data (initial_info raw) = Some (ethernet_info raw dst src ETHERTYPE_VLAN)"
    using read_ethernet_encoded [OF assms(1,2), of ETHERTYPE_VLAN "w16_bytes tci @ w16_bytes et @ rest"]
    by (simp add: data_def vlan_bytes_def ethernet_info_def)
  ultimately show ?thesis
    using tag info type unfolding data_def [symmetric] by (auto simp: dissect_packet_def Let_def u)
qed

text \<open>
  Claim C15. One VLAN tag is transparent, a second one is opaque: whatever follows the Ethernet header, a
  frame with an 802.1Q tag is dissected into the same values as the frame without it, up to the
  captured length and the offset of the payload, which are four bytes more; unless the type behind
  the tag is that of another tag (stacked tags), when the dissector stops at the Ethernet
  header, and the frame is neither tracked nor inspected.
\<close>

theorem vlan_transparent:
  assumes "length dst = 6" "length src = 6"
    and "length (vlan_bytes dst src tci et @ rest) < 2 ^ 32"
  shows "dissect_packet (frame_of (vlan_bytes dst src tci et @ rest) orig ts) =
    (if et = ETHERTYPE_VLAN
     then Some (ethernet_info (frame_of (vlan_bytes dst src tci et @ rest) orig ts) dst src ETHERTYPE_VLAN)
     else map_option moved (dissect_packet (frame_of (ethernet_bytes dst src et @ rest) orig ts))) \<and>
    \<not> valid (ethernet_info (frame_of (vlan_bytes dst src tci et @ rest) orig ts) dst src ETHERTYPE_VLAN)"
proof -
  define data where "data = ethernet_bytes dst src et @ rest"
  define data' where "data' = vlan_bytes dst src tci et @ rest"
  define raw where "raw = frame_of data orig ts"
  define raw' where "raw' = frame_of data' orig ts"
  have invalid: "\<not> valid (ethernet_info raw' dst src ETHERTYPE_VLAN)"
    by (simp add: ethernet_info_def initial_info_def empty_info_def)
  have tagged: "dissect_packet raw' = dissect_l3 data' (length data') 18 (ethernet_info raw' dst src et)"
    using dissect_tagged [OF assms] by (simp add: raw'_def data'_def)
  have "dissect_packet raw' = map_option moved (dissect_packet raw)" if et: "et \<noteq> ETHERTYPE_VLAN"
  proof -
    have sh: "shifted data data'"
      using assms by (simp add: shifted_def data_def data'_def vlan_bytes_def ethernet_bytes_def)
    have l: "length data' = length data + 4" using sh by (simp add: shifted_def)
    have "cp_captured_length raw' = cp_captured_length raw + 4"
      by (simp add: raw_def raw'_def frame_of_def l)
    then have info: "ethernet_info raw' dst src et = moved (ethernet_info raw dst src et)"
      by (simp add: ethernet_info_def initial_info_def moved_def empty_info_def raw_def raw'_def frame_of_def)
    have "dissect_packet raw' = map_option moved (dissect_l3 data (length data) 14 (ethernet_info raw dst src et))"
      unfolding tagged info unfolding l by (rule dissect_l3_moved [OF sh])
    also have "dissect_l3 data (length data) 14 (ethernet_info raw dst src et) = dissect_packet raw"
      using dissect_frame_encoded [OF assms(1,2) et, of rest raw orig ts] assms(3) l
      by (simp add: raw_def data_def data'_def frame_of_def)
    finally show ?thesis .
  qed
  moreover have "dissect_packet raw' = Some (ethernet_info raw' dst src ETHERTYPE_VLAN)" if "et = ETHERTYPE_VLAN"
    unfolding tagged using that by (simp add: dissect_l3_def ethernet_info_def)
  ultimately show ?thesis using invalid unfolding raw_def raw'_def data_def data'_def by simp
qed

lemma vlan_transparent_witness:
  "dissect_packet (frame_of (vlan_bytes [1, 2, 3, 4, 5, 6] [7, 8, 9, 10, 11, 12] 5 ETHERTYPE_ARP @ [1]) 60 0) =
    map_option moved (dissect_packet (frame_of (ethernet_bytes [1, 2, 3, 4, 5, 6] [7, 8, 9, 10, 11, 12] ETHERTYPE_ARP @ [1]) 60 0))"
  using vlan_transparent [of "[1, 2, 3, 4, 5, 6]" "[7, 8, 9, 10, 11, 12]" 5 ETHERTYPE_ARP "[1]" 60 0]
  by (simp add: vlan_bytes_def ethernet_bytes_def)

end
