(* ===== verification/FlowKeys.thy ===== *)
theory FlowKeys
  imports AddrFormat Config "HOL-Library.List_Lexorder"
begin

text \<open>
  \<open>include/FlowKey.hpp\<close>: the normalised key of a bidirectional flow, its equality, its text and its
  FNV-1a hash. An \<open>Addr128\<close> is a list of 16 bytes, ordered lexicographically as \<open>std::array\<close> is.

  \<open>make_key_symmetric_lemma\<close> and \<open>make_key_eq_iff_lemma\<close> show that the key identifies the unordered pair of
  endpoints with the protocol, neither less nor more; \<open>fnv_mix_inj_state\<close> that the mixing step of
  the hash loses nothing of the state.
\<close>

type_synonym addr128 = "u8 list"

definition addr_ok :: "addr128 \<Rightarrow> bool" where
  "addr_ok a \<longleftrightarrow> length a = 16"

definition ipv4_to_addr128 :: "u32 \<Rightarrow> addr128" where
  "ipv4_to_addr128 h = replicate 10 0 @ [0xFF, 0xFF,
     ucast (and (drop_bit 24 h) 0xFF), ucast (and (drop_bit 16 h) 0xFF),
     ucast (and (drop_bit 8 h) 0xFF), ucast (and h 0xFF)]"

definition ipv6_to_addr128 :: "u8 list \<Rightarrow> addr128 option" where
  "ipv6_to_addr128 raw16 = bytes_at raw16 0 16"

record flow_key =
  fk_lo_addr :: addr128
  fk_hi_addr :: addr128
  fk_lo_port :: u16
  fk_hi_port :: u16
  fk_protocol :: u8

definition make_key :: "addr128 \<Rightarrow> addr128 \<Rightarrow> u16 \<Rightarrow> u16 \<Rightarrow> u8 \<Rightarrow> flow_key" where
  "make_key src_addr dst_addr sport dport proto =
     (let src_is_lo = src_addr < dst_addr \<or> (src_addr = dst_addr \<and> sport \<le> dport)
      in if src_is_lo
         then \<lparr> fk_lo_addr = src_addr, fk_hi_addr = dst_addr, fk_lo_port = sport, fk_hi_port = dport,
                fk_protocol = proto \<rparr>
         else \<lparr> fk_lo_addr = dst_addr, fk_hi_addr = src_addr, fk_lo_port = dport, fk_hi_port = sport,
                fk_protocol = proto \<rparr>)"

definition key_eq :: "flow_key \<Rightarrow> flow_key \<Rightarrow> bool" where
  "key_eq a b \<longleftrightarrow> fk_lo_addr a = fk_lo_addr b \<and> fk_hi_addr a = fk_hi_addr b \<and>
     fk_lo_port a = fk_lo_port b \<and> fk_hi_port a = fk_hi_port b \<and> fk_protocol a = fk_protocol b"

section \<open>Text\<close>

definition hex_byte :: "u8 \<Rightarrow> string" where
  "hex_byte b = [digit_char (unat b div 16), digit_char (unat b mod 16)]"

definition is_v4_mapped :: "addr128 \<Rightarrow> bool" where
  "is_v4_mapped a \<longleftrightarrow> list_all (\<lambda>i. a ! i = 0) [0..<10] \<and> a ! 10 = 0xFF \<and> a ! 11 = 0xFF"

definition format_addr :: "addr128 \<Rightarrow> string" where
  "format_addr a =
     (if is_v4_mapped a
      then snprintf_buf 16 (dec_string (unat (a ! 12)) @ ''.'' @ dec_string (unat (a ! 13)) @ ''.'' @
             dec_string (unat (a ! 14)) @ ''.'' @ dec_string (unat (a ! 15)))
      else snprintf_buf 40 (concat (map (\<lambda>i. (if i \<noteq> 0 then '':'' else []) @
             hex_byte (a ! (2 * i)) @ hex_byte (a ! (2 * i + 1))) [0..<8])))"

definition key_to_string :: "flow_key \<Rightarrow> string" where
  "key_to_string k = format_addr (fk_lo_addr k) @ '':'' @ dec_string (unat (fk_lo_port k)) @ '' <-> '' @
     format_addr (fk_hi_addr k) @ '':'' @ dec_string (unat (fk_hi_port k)) @ '' / proto='' @
     dec_string (unat (fk_protocol k))"

section \<open>Hash\<close>

definition FNV_OFFSET :: u64 where "FNV_OFFSET = 14695981039346656037"
definition FNV_PRIME :: u64 where "FNV_PRIME = 1099511628211"

text \<open>\<open>mix_bytes\<close>; the bytes of a port are in the host's (little-endian) order.\<close>

definition fnv_mix :: "u64 \<Rightarrow> u8 list \<Rightarrow> u64" where
  "fnv_mix h bs = foldl (\<lambda>h b. xor h (ucast b) * FNV_PRIME) h bs"

definition le_bytes :: "u16 \<Rightarrow> u8 list" where
  "le_bytes p = [ucast p, ucast (drop_bit 8 p)]"

definition key_hash :: "flow_key \<Rightarrow> u64" where
  "key_hash k = fnv_mix (fnv_mix (fnv_mix (fnv_mix (fnv_mix FNV_OFFSET
     (fk_lo_addr k)) (fk_hi_addr k)) (le_bytes (fk_lo_port k))) (le_bytes (fk_hi_port k)))
     [fk_protocol k]"

section \<open>The key of an unordered pair of endpoints\<close>

lemma key_eq_iff: "key_eq a b \<longleftrightarrow> a = b"
  by (cases a; cases b) (auto simp: key_eq_def)

lemma make_key_symmetric_lemma: "make_key d s dp sp proto = make_key s d sp dp proto"
  by (auto simp: make_key_def Let_def)

definition key_normal :: "flow_key \<Rightarrow> bool" where
  "key_normal k \<longleftrightarrow> fk_lo_addr k < fk_hi_addr k \<or>
     (fk_lo_addr k = fk_hi_addr k \<and> fk_lo_port k \<le> fk_hi_port k)"

lemma make_key_normal: "key_normal (make_key s d sp dp proto)"
  by (auto simp: make_key_def key_normal_def Let_def)

lemma make_key_of_normal:
  "key_normal k \<Longrightarrow> make_key (fk_lo_addr k) (fk_hi_addr k) (fk_lo_port k) (fk_hi_port k) (fk_protocol k) = k"
  by (auto simp: make_key_def key_normal_def)

lemma make_key_eq_iff_lemma:
  "make_key s d sp dp proto = make_key s' d' sp' dp' proto' \<longleftrightarrow>
     proto = proto' \<and> (s = s' \<and> sp = sp' \<and> d = d' \<and> dp = dp' \<or> s = d' \<and> sp = dp' \<and> d = s' \<and> dp = sp')"
  by (auto simp: make_key_def Let_def)

section \<open>Hash lemmas\<close>

lemma fnv_prime_odd_inverse: "FNV_PRIME * 0xce965057aff6957b = 1"
  by (simp add: FNV_PRIME_def)

lemma mult_prime_inj: "x * FNV_PRIME = y * FNV_PRIME \<Longrightarrow> x = y"
proof -
  assume "x * FNV_PRIME = y * FNV_PRIME"
  then have "x * (FNV_PRIME * 0xce965057aff6957b) = y * (FNV_PRIME * 0xce965057aff6957b)"
    by (simp only: mult.assoc [symmetric])
  then show "x = y" by (simp add: fnv_prime_odd_inverse)
qed

lemma xor_right_inj: "xor x z = xor y z \<Longrightarrow> x = (y :: 'a::len word)"
  by (metis xor.assoc xor.comm_neutral xor_self_eq)

lemma fnv_mix_simps [simp]:
  "fnv_mix h [] = h" "fnv_mix h (b # bs) = fnv_mix (xor h (ucast b) * FNV_PRIME) bs"
  by (simp_all add: fnv_mix_def)

lemma fnv_mix_inj_state: "fnv_mix h bs = fnv_mix h' bs \<Longrightarrow> h = h'"
proof (induction bs arbitrary: h h')
  case (Cons b bs)
  then have "xor h (ucast b) * FNV_PRIME = xor h' (ucast b) * FNV_PRIME" by simp
  then show ?case by (metis mult_prime_inj xor_right_inj)
qed simp

lemma ucast_u8_u64_inj:
  assumes "(ucast (a :: u8) :: u64) = ucast b"
  shows "a = b"
proof (rule bit_word_eqI)
  fix n assume "n < LENGTH(8)"
  moreover have "bit (ucast a :: u64) n = bit (ucast b :: u64) n" using assms by simp
  ultimately show "bit a n = bit b n" by (simp add: bit_simps)
qed

lemma fnv_mix_inj_byte: "fnv_mix h [b] = fnv_mix h [b'] \<Longrightarrow> b = b'"
proof -
  assume "fnv_mix h [b] = fnv_mix h [b']"
  then have "xor h (ucast b) = xor h (ucast b')" by (auto dest: mult_prime_inj)
  then have "(ucast b :: u64) = ucast b'" by (metis xor.commute xor_right_inj)
  then show "b = b'" by (rule ucast_u8_u64_inj)
qed

lemma fnv_mix_append: "fnv_mix h (xs @ ys) = fnv_mix (fnv_mix h xs) ys"
  by (simp add: fnv_mix_def)

text \<open>The hash of a key is the mix of its 37 bytes; keys that differ in one byte never collide.\<close>

definition key_bytes :: "flow_key \<Rightarrow> u8 list" where
  "key_bytes k = fk_lo_addr k @ fk_hi_addr k @ le_bytes (fk_lo_port k) @ le_bytes (fk_hi_port k) @
     [fk_protocol k]"

lemma key_hash_bytes: "key_hash k = fnv_mix FNV_OFFSET (key_bytes k)"
  by (simp only: key_hash_def key_bytes_def fnv_mix_append)

lemma fnv_one_byte:
  assumes "b \<noteq> b'"
  shows "fnv_mix h (pre @ b # suf) \<noteq> fnv_mix h (pre @ b' # suf)"
proof
  assume eq: "fnv_mix h (pre @ b # suf) = fnv_mix h (pre @ b' # suf)"
  have "fnv_mix (fnv_mix (fnv_mix h pre) [b]) suf = fnv_mix (fnv_mix (fnv_mix h pre) [b']) suf"
    using eq by (simp only: fnv_mix_append [symmetric]) simp
  then have "fnv_mix (fnv_mix h pre) [b] = fnv_mix (fnv_mix h pre) [b']" by (rule fnv_mix_inj_state)
  then show False using assms fnv_mix_inj_byte by blast
qed

section \<open>Address text\<close>

lemma ipv4_to_addr128_ok: "addr_ok (ipv4_to_addr128 h)"
  by (simp add: addr_ok_def ipv4_to_addr128_def)

lemma ipv4_mapped: "is_v4_mapped (ipv4_to_addr128 h)"
  by (simp add: is_v4_mapped_def ipv4_to_addr128_def list_all_iff nth_append)

lemma unat_octet: "unat (ucast (and (drop_bit s a) 0xFF) :: u8) = octet a s"
proof -
  have m: "and (drop_bit s a) 0xFF = take_bit 8 (drop_bit s a)"
    by (simp add: take_bit_eq_mask mask_eq_exp_minus_1)
  show ?thesis unfolding octet_def m by (simp add: unsigned_ucast_eq unsigned_take_bit_eq)
qed

text \<open>The key's text of an IPv4-mapped address is the dissector's text of the IPv4 address.\<close>

lemma format_addr_ipv4: "format_addr (ipv4_to_addr128 h) = format_ipv4 h"
proof -
  have "unat (ucast (and h 0xFF) :: u8) = octet h 0" using unat_octet [of 0 h] by simp
  moreover have "ipv4_to_addr128 h ! 12 = ucast (and (drop_bit 24 h) 0xFF)"
    "ipv4_to_addr128 h ! 13 = ucast (and (drop_bit 16 h) 0xFF)"
    "ipv4_to_addr128 h ! 14 = ucast (and (drop_bit 8 h) 0xFF)"
    "ipv4_to_addr128 h ! 15 = ucast (and h 0xFF)"
    by (simp_all add: ipv4_to_addr128_def nth_append)
  ultimately show ?thesis
    using ipv4_mapped [of h] by (simp only: format_addr_def format_ipv4_def unat_octet if_True)
qed

lemma ipv4_to_addr128_inj: "ipv4_to_addr128 a = ipv4_to_addr128 b \<Longrightarrow> a = b"
  by (metis format_addr_ipv4 format_ipv4_inj_lemma)

section \<open>Properties\<close>

text \<open>
  Claim C16. Two packets have the same flow key exactly when they have the same protocol and the same
  endpoints, in the same or in the opposite direction.
\<close>

theorem make_key_eq_iff:
  "key_eq (make_key s d sp dp proto) (make_key s' d' sp' dp' proto') \<longleftrightarrow>
     proto = proto' \<and> (s = s' \<and> sp = sp' \<and> d = d' \<and> dp = dp' \<or> s = d' \<and> sp = dp' \<and> d = s' \<and> dp = sp')"
  by (simp only: key_eq_iff make_key_eq_iff_lemma)

text \<open>
  The hash of flow keys separates any two keys whose 37 bytes differ in a single byte, for
  instance two flows that differ in the last byte of an address or in the protocol.
\<close>

theorem key_hash_one_byte:
  assumes "key_bytes k = pre @ b # suf" "key_bytes k' = pre @ b' # suf" "b \<noteq> b'"
  shows "key_hash k \<noteq> key_hash k'"
  unfolding key_hash_bytes assms(1,2) by (rule fnv_one_byte [OF assms(3)])

definition sample_key :: "u8 \<Rightarrow> flow_key" where
  "sample_key proto = \<lparr> fk_lo_addr = replicate 16 1, fk_hi_addr = replicate 16 2, fk_lo_port = 22,
     fk_hi_port = 40000, fk_protocol = proto \<rparr>"

lemma key_hash_one_byte_witness: "key_hash (sample_key 6) \<noteq> key_hash (sample_key 17)"
  by (rule key_hash_one_byte [of _ "replicate 16 1 @ replicate 16 2 @ le_bytes 22 @ le_bytes 40000" 6 "[]" _ 17])
    (simp_all add: key_bytes_def sample_key_def)

end
