(* ===== verification/FlowRecords.thy ===== *)
theory FlowRecords
  imports FlowKeys Packet "HOL-Library.Sublist"
begin

text \<open>
  \<open>include/FlowRecord.hpp\<close>: the accounting record of a flow and its TCP state machine.
  \<open>advance_tcp_state\<close> is the method of that name with its result. \<open>tcp_edge\<close> writes its transitions as
  a relation, for case analysis; what the state means is said without states, by the segments seen
  (\<open>embeds\<close>, \<open>connection_segments\<close>).
  The set \<open>dst_ports_contacted\<close> is a \<open>std::unordered_set\<close>, here a set.
\<close>

section \<open>Data\<close>

datatype tcp_state = TCP_INIT | TCP_SYN_SENT | TCP_SYN_RECEIVED | TCP_ESTABLISHED | TCP_FIN_WAIT | TCP_CLOSED

fun tcp_state_to_string :: "tcp_state \<Rightarrow> string" where
  "tcp_state_to_string TCP_INIT = ''INIT''"
| "tcp_state_to_string TCP_SYN_SENT = ''SYN_SENT''"
| "tcp_state_to_string TCP_SYN_RECEIVED = ''SYN_RECEIVED''"
| "tcp_state_to_string TCP_ESTABLISHED = ''ESTABLISHED''"
| "tcp_state_to_string TCP_FIN_WAIT = ''FIN_WAIT''"
| "tcp_state_to_string TCP_CLOSED = ''CLOSED''"

datatype flow_direction = LO_TO_HI | HI_TO_LO

record flow_record =
  fr_key :: flow_key
  fr_first_seen :: ns
  fr_last_seen :: ns
  fr_total_packets :: u64
  fr_total_bytes :: u64
  fr_lo_to_hi_packets :: u64
  fr_lo_to_hi_bytes :: u64
  fr_hi_to_lo_packets :: u64
  fr_hi_to_lo_bytes :: u64
  fr_tcp_state :: tcp_state
  fr_tcp_flags_seen :: u8
  fr_syn_count :: u64
  fr_syn_ack_count :: u64
  fr_ack_count :: u64
  fr_fin_count :: u64
  fr_rst_count :: u64
  fr_psh_count :: u64
  fr_completed_handshakes :: u32
  fr_dst_ports_contacted :: "u16 set"
  fr_scan_window_start :: ns
  fr_syn_window_count :: u64
  fr_syn_window_start :: ns
  fr_l7_proto :: l7_protocol
  fr_last_dns_query :: string
  fr_last_dns_qtype :: u16
  fr_last_http_host :: string
  fr_last_http_method :: string
  fr_last_tls_sni :: string

definition new_flow_record :: "flow_key \<Rightarrow> ns \<Rightarrow> flow_record" where
  "new_flow_record k clk =
     \<lparr> fr_key = k, fr_first_seen = clk, fr_last_seen = clk, fr_total_packets = 0, fr_total_bytes = 0,
       fr_lo_to_hi_packets = 0, fr_lo_to_hi_bytes = 0, fr_hi_to_lo_packets = 0, fr_hi_to_lo_bytes = 0,
       fr_tcp_state = TCP_INIT, fr_tcp_flags_seen = 0, fr_syn_count = 0, fr_syn_ack_count = 0,
       fr_ack_count = 0, fr_fin_count = 0, fr_rst_count = 0, fr_psh_count = 0,
       fr_completed_handshakes = 0, fr_dst_ports_contacted = {}, fr_scan_window_start = clk,
       fr_syn_window_count = 0, fr_syn_window_start = clk, fr_l7_proto = L7_NONE,
       fr_last_dns_query = [], fr_last_dns_qtype = 0, fr_last_http_host = [],
       fr_last_http_method = [], fr_last_tls_sni = [] \<rparr>"

section \<open>The TCP state machine\<close>

definition count_if :: "bool \<Rightarrow> 'a::len word \<Rightarrow> 'a word" where
  "count_if b n = (if b then n + 1 else n)"

definition count_tcp_flags :: "u8 \<Rightarrow> flow_record \<Rightarrow> flow_record" where
  "count_tcp_flags flags r =
     (let syn = flag_set flags TCP_FLAG_SYN; ack = flag_set flags TCP_FLAG_ACK
      in r\<lparr> fr_tcp_flags_seen := or (fr_tcp_flags_seen r) flags,
            fr_syn_count := count_if (syn \<and> \<not> ack) (fr_syn_count r),
            fr_syn_ack_count := count_if (syn \<and> ack) (fr_syn_ack_count r),
            fr_ack_count := count_if (\<not> syn \<and> ack) (fr_ack_count r),
            fr_fin_count := count_if (flag_set flags TCP_FLAG_FIN) (fr_fin_count r),
            fr_rst_count := count_if (flag_set flags TCP_FLAG_RST) (fr_rst_count r),
            fr_psh_count := count_if (flag_set flags TCP_FLAG_PSH) (fr_psh_count r) \<rparr>)"

definition tcp_switch :: "u8 \<Rightarrow> flow_record \<Rightarrow> flow_record" where
  "tcp_switch flags r =
     (let syn = flag_set flags TCP_FLAG_SYN; ack = flag_set flags TCP_FLAG_ACK;
          fin = flag_set flags TCP_FLAG_FIN
      in case fr_tcp_state r of
           TCP_INIT \<Rightarrow> if syn \<and> \<not> ack then r\<lparr> fr_tcp_state := TCP_SYN_SENT \<rparr> else r
         | TCP_SYN_SENT \<Rightarrow> if syn \<and> ack then r\<lparr> fr_tcp_state := TCP_SYN_RECEIVED \<rparr> else r
         | TCP_SYN_RECEIVED \<Rightarrow>
             if \<not> syn \<and> ack
             then r\<lparr> fr_tcp_state := TCP_ESTABLISHED,
                     fr_completed_handshakes := fr_completed_handshakes r + 1 \<rparr>
             else r
         | TCP_ESTABLISHED \<Rightarrow> if fin then r\<lparr> fr_tcp_state := TCP_FIN_WAIT \<rparr> else r
         | TCP_FIN_WAIT \<Rightarrow> if fin \<and> ack then r\<lparr> fr_tcp_state := TCP_CLOSED \<rparr> else r
         | TCP_CLOSED \<Rightarrow>
             if syn \<and> \<not> ack
             then r\<lparr> fr_tcp_state := TCP_SYN_SENT, fr_syn_count := 1, fr_syn_ack_count := 0,
                     fr_ack_count := 0, fr_fin_count := 0, fr_rst_count := 0 \<rparr>
             else r)"

definition advance_tcp_state :: "u8 \<Rightarrow> flow_direction \<Rightarrow> flow_record \<Rightarrow> flow_record \<times> bool" where
  "advance_tcp_state flags direction r =
     (let r1 = count_tcp_flags flags r; prev = fr_tcp_state r1
      in if flag_set flags TCP_FLAG_RST
         then (r1\<lparr> fr_tcp_state := TCP_CLOSED \<rparr>, TCP_CLOSED \<noteq> prev)
         else (let r2 = tcp_switch flags r1 in (r2, fr_tcp_state r2 \<noteq> prev)))"

section \<open>Helpers\<close>

definition idle_seconds :: "ns \<Rightarrow> flow_record \<Rightarrow> real" where
  "idle_seconds clk r = seconds (clk - fr_last_seen r)"

definition age_seconds :: "ns \<Rightarrow> flow_record \<Rightarrow> real" where
  "age_seconds clk r = seconds (clk - fr_first_seen r)"

definition rec_syn_only_ratio :: "flow_record \<Rightarrow> real" where
  "rec_syn_only_ratio r =
     (if fr_total_packets r = 0 then 0
      else ddiv (dbl_of_word (fr_syn_count r)) (dbl_of_word (fr_total_packets r)))"

section \<open>The edges of the switch\<close>

text \<open>The changes of state that the method makes, labelled by the flags of the segment.\<close>

inductive tcp_edge :: "u8 \<Rightarrow> tcp_state \<Rightarrow> tcp_state \<Rightarrow> bool" where
  reset: "flag_set f TCP_FLAG_RST \<Longrightarrow> tcp_edge f s TCP_CLOSED"
| syn: "\<not> flag_set f TCP_FLAG_RST \<Longrightarrow> syn_only f \<Longrightarrow> s = TCP_INIT \<or> s = TCP_CLOSED \<Longrightarrow> tcp_edge f s TCP_SYN_SENT"
| syn_ack: "\<not> flag_set f TCP_FLAG_RST \<Longrightarrow> flag_set f TCP_FLAG_SYN \<Longrightarrow> flag_set f TCP_FLAG_ACK \<Longrightarrow>
    tcp_edge f TCP_SYN_SENT TCP_SYN_RECEIVED"
| ack: "\<not> flag_set f TCP_FLAG_RST \<Longrightarrow> \<not> flag_set f TCP_FLAG_SYN \<Longrightarrow> flag_set f TCP_FLAG_ACK \<Longrightarrow>
    tcp_edge f TCP_SYN_RECEIVED TCP_ESTABLISHED"
| fin: "\<not> flag_set f TCP_FLAG_RST \<Longrightarrow> flag_set f TCP_FLAG_FIN \<Longrightarrow> tcp_edge f TCP_ESTABLISHED TCP_FIN_WAIT"
| fin_ack: "\<not> flag_set f TCP_FLAG_RST \<Longrightarrow> flag_set f TCP_FLAG_FIN \<Longrightarrow> flag_set f TCP_FLAG_ACK \<Longrightarrow>
    tcp_edge f TCP_FIN_WAIT TCP_CLOSED"

inductive_simps tcp_edge_simps: "tcp_edge f s s'"
inductive_cases tcp_edge_establishedE: "tcp_edge f s TCP_ESTABLISHED"

lemma count_tcp_flags_state [simp]: "fr_tcp_state (count_tcp_flags flags r) = fr_tcp_state r"
  by (simp add: count_tcp_flags_def Let_def)

lemma syn_only_flags: "syn_only f \<longleftrightarrow> flag_set f TCP_FLAG_SYN \<and> \<not> flag_set f TCP_FLAG_ACK"
  by (simp add: syn_only_def)

lemma tcp_switch_state:
  "fr_tcp_state (tcp_switch flags r) =
     (case fr_tcp_state r of
        TCP_INIT \<Rightarrow> if syn_only flags then TCP_SYN_SENT else TCP_INIT
      | TCP_SYN_SENT \<Rightarrow> if flag_set flags TCP_FLAG_SYN \<and> flag_set flags TCP_FLAG_ACK then TCP_SYN_RECEIVED else TCP_SYN_SENT
      | TCP_SYN_RECEIVED \<Rightarrow> if \<not> flag_set flags TCP_FLAG_SYN \<and> flag_set flags TCP_FLAG_ACK then TCP_ESTABLISHED else TCP_SYN_RECEIVED
      | TCP_ESTABLISHED \<Rightarrow> if flag_set flags TCP_FLAG_FIN then TCP_FIN_WAIT else TCP_ESTABLISHED
      | TCP_FIN_WAIT \<Rightarrow> if flag_set flags TCP_FLAG_FIN \<and> flag_set flags TCP_FLAG_ACK then TCP_CLOSED else TCP_FIN_WAIT
      | TCP_CLOSED \<Rightarrow> if syn_only flags then TCP_SYN_SENT else TCP_CLOSED)"
  by (simp add: tcp_switch_def Let_def syn_only_flags split: tcp_state.split)

lemma tcp_edge_det: "tcp_edge f s s1 \<Longrightarrow> tcp_edge f s s2 \<Longrightarrow> s1 = s2"
  by (auto simp: tcp_edge_simps)

lemma advance_state_edge:
  "tcp_edge f (fr_tcp_state r) s' \<Longrightarrow> fr_tcp_state (fst (advance_tcp_state f dir r)) = s'"
  by (cases "fr_tcp_state r")
    (auto simp: advance_tcp_state_def Let_def tcp_switch_state tcp_edge_simps split: if_splits)

lemma advance_state_stay:
  "fr_tcp_state (fst (advance_tcp_state f dir r)) \<noteq> fr_tcp_state r \<Longrightarrow>
   tcp_edge f (fr_tcp_state r) (fr_tcp_state (fst (advance_tcp_state f dir r)))"
  by (cases "fr_tcp_state r")
    (auto simp: advance_tcp_state_def Let_def tcp_switch_state tcp_edge_simps split: if_splits)

lemma advance_refines_lemma:
  "fr_tcp_state (fst (advance_tcp_state f dir r)) = s' \<longleftrightarrow>
     tcp_edge f (fr_tcp_state r) s' \<or> (s' = fr_tcp_state r \<and> (\<nexists>e. tcp_edge f (fr_tcp_state r) e))"
  by (metis advance_state_edge advance_state_stay)

lemma advance_changed_lemma:
  "snd (advance_tcp_state f dir r) \<longleftrightarrow> fr_tcp_state (fst (advance_tcp_state f dir r)) \<noteq> fr_tcp_state r"
  by (simp add: advance_tcp_state_def Let_def)

section \<open>Runs of segments\<close>

definition advance :: "flow_record \<Rightarrow> u8 \<times> flow_direction \<Rightarrow> flow_record" where
  "advance r x = fst (advance_tcp_state (fst x) (snd x) r)"

definition advance_all :: "(u8 \<times> flow_direction) list \<Rightarrow> flow_record \<Rightarrow> flow_record" where
  "advance_all xs r = foldl advance r xs"

lemma advance_all_snoc: "advance_all (xs @ [x]) r = advance (advance_all xs r) x"
  by (simp add: advance_all_def)

lemma advance_cases:
  "fr_tcp_state (advance r x) = s' \<Longrightarrow> s' = fr_tcp_state r \<or> tcp_edge (fst x) (fr_tcp_state r) s'"
  using advance_refines_lemma [of "fst x" "snd x" r s'] by (auto simp: advance_def)

text \<open>
  \<open>handshake n fs\<close>: the first \<open>n\<close> segments of a three-way handshake occur in \<open>fs\<close>, in order.
\<close>

definition handshake :: "nat \<Rightarrow> u8 list \<Rightarrow> bool" where
  "handshake n fs \<longleftrightarrow> (\<exists>f1 f2 f3. subseq (take n [f1, f2, f3]) fs \<and> syn_only f1 \<and>
     flag_set f2 TCP_FLAG_SYN \<and> flag_set f2 TCP_FLAG_ACK \<and>
     \<not> flag_set f3 TCP_FLAG_SYN \<and> flag_set f3 TCP_FLAG_ACK)"

definition handshake_steps :: "tcp_state \<Rightarrow> nat" where
  "handshake_steps s = (case s of TCP_SYN_SENT \<Rightarrow> 1 | TCP_SYN_RECEIVED \<Rightarrow> 2 | TCP_ESTABLISHED \<Rightarrow> 3
     | TCP_FIN_WAIT \<Rightarrow> 3 | _ \<Rightarrow> 0)"

lemma handshake_more: "handshake n fs \<Longrightarrow> handshake n (fs @ [f])"
  unfolding handshake_def by (meson list_emb_prefix)

lemma sample_flags:
  "syn_only 0x02" "flag_set 0x12 TCP_FLAG_SYN" "flag_set 0x12 TCP_FLAG_ACK"
  "\<not> flag_set 0x10 TCP_FLAG_SYN" "flag_set 0x10 TCP_FLAG_ACK"
  by (simp_all add: syn_only_def flag_set_def)

lemma handshake_0: "handshake 0 fs"
  unfolding handshake_def using sample_flags by (auto intro!: exI)

lemma subseq_snoc: "subseq xs ys \<Longrightarrow> subseq (xs @ [z]) (ys @ [z])"
  by simp

lemma handshake_1: "syn_only f \<Longrightarrow> handshake 1 (fs @ [f])"
  unfolding handshake_def
  by (rule exI [of _ f], rule exI [of _ "0x12"], rule exI [of _ "0x10"])
    (simp add: sample_flags subseq_singleton_left)

lemma handshake_2:
  "handshake 1 fs \<Longrightarrow> flag_set f TCP_FLAG_SYN \<Longrightarrow> flag_set f TCP_FLAG_ACK \<Longrightarrow> handshake 2 (fs @ [f])"
  unfolding handshake_def using subseq_snoc by (fastforce simp: numeral_2_eq_2)

lemma handshake_3:
  "handshake 2 fs \<Longrightarrow> \<not> flag_set f TCP_FLAG_SYN \<Longrightarrow> flag_set f TCP_FLAG_ACK \<Longrightarrow> handshake 3 (fs @ [f])"
  unfolding handshake_def using subseq_snoc by (fastforce simp: numeral_2_eq_2 numeral_3_eq_3)

lemma handshake_step:
  assumes "tcp_edge f s s'" "handshake (handshake_steps s) fs"
  shows "handshake (handshake_steps s') (fs @ [f])"
  using assms
  by cases (auto simp: handshake_steps_def handshake_0 numeral_2_eq_2 numeral_3_eq_3
      intro: handshake_more handshake_1 [simplified] handshake_2 [unfolded One_nat_def numeral_2_eq_2]
        handshake_3 [unfolded numeral_2_eq_2 numeral_3_eq_3])

lemma advance_all_handshake:
  assumes "fr_tcp_state r = TCP_INIT \<or> fr_tcp_state r = TCP_CLOSED"
  shows "handshake (handshake_steps (fr_tcp_state (advance_all xs r))) (map fst xs)"
proof (induction xs rule: rev_induct)
  case Nil
  then show ?case using assms by (auto simp: advance_all_def handshake_steps_def handshake_0)
next
  case (snoc x xs)
  show ?case
    using advance_cases [OF refl, of "advance_all xs r" x] snoc
    by (auto simp: advance_all_snoc intro: handshake_more handshake_step)
qed

section \<open>The state by the segments seen\<close>

text \<open>\<open>embeds ps fs\<close>: some segments of \<open>fs\<close>, in order, satisfy the predicates \<open>ps\<close>.\<close>

definition embeds :: "('a \<Rightarrow> bool) list \<Rightarrow> 'a list \<Rightarrow> bool" where
  "embeds ps fs \<longleftrightarrow> (\<exists>gs. subseq gs fs \<and> list_all2 (\<lambda>p f. p f) ps gs)"

text \<open>
  The segments of a connection: SYN, SYN+ACK, ACK, a FIN and a further FIN+ACK. \<open>state_rank\<close> is the
  number of them that the comments of the enumeration ask for.
\<close>

definition connection_segments :: "(u8 \<Rightarrow> bool) list" where
  "connection_segments =
     [syn_only, \<lambda>f. flag_set f TCP_FLAG_SYN \<and> flag_set f TCP_FLAG_ACK,
      \<lambda>f. \<not> flag_set f TCP_FLAG_SYN \<and> flag_set f TCP_FLAG_ACK,
      \<lambda>f. flag_set f TCP_FLAG_FIN, \<lambda>f. flag_set f TCP_FLAG_FIN \<and> flag_set f TCP_FLAG_ACK]"

fun state_rank :: "tcp_state \<Rightarrow> nat" where
  "state_rank TCP_INIT = 0"
| "state_rank TCP_SYN_SENT = 1"
| "state_rank TCP_SYN_RECEIVED = 2"
| "state_rank TCP_ESTABLISHED = 3"
| "state_rank TCP_FIN_WAIT = 4"
| "state_rank TCP_CLOSED = 5"

definition segs_seen :: "nat \<Rightarrow> u8 list \<Rightarrow> bool" where
  "segs_seen n fs \<longleftrightarrow> embeds (take n connection_segments) fs"

lemma subseq_single: "subseq vs [f] \<longleftrightarrow> vs = [] \<or> vs = [f]"
  by (cases vs) auto

lemma subseq_snoc_iff: "subseq gs (fs @ [f]) \<longleftrightarrow> subseq gs fs \<or> (\<exists>hs. gs = hs @ [f] \<and> subseq hs fs)"
proof -
  have "subseq gs (fs @ [f]) \<longleftrightarrow> (\<exists>us vs. gs = us @ vs \<and> subseq us fs \<and> subseq vs [f])"
    by (auto simp: subseq_append_iff)
  also have "\<dots> \<longleftrightarrow> subseq gs fs \<or> (\<exists>hs. gs = hs @ [f] \<and> subseq hs fs)"
    by (auto simp: subseq_single)
  finally show ?thesis .
qed

lemma embeds_snoc: "embeds (ps @ [p]) (fs @ [f]) \<longleftrightarrow> embeds (ps @ [p]) fs \<or> (p f \<and> embeds ps fs)"
proof
  assume "embeds (ps @ [p]) (fs @ [f])"
  then obtain gs where gs: "subseq gs (fs @ [f])" "list_all2 (\<lambda>p f. p f) (ps @ [p]) gs"
    by (auto simp: embeds_def)
  then obtain hs g where h: "gs = hs @ [g]" "list_all2 (\<lambda>p f. p f) ps hs" "p g"
    by (auto simp: list_all2_append1 list_all2_Cons1)
  then show "embeds (ps @ [p]) fs \<or> (p f \<and> embeds ps fs)"
    using gs by (auto simp: embeds_def subseq_snoc_iff)
next
  assume "embeds (ps @ [p]) fs \<or> (p f \<and> embeds ps fs)"
  then show "embeds (ps @ [p]) (fs @ [f])"
  proof
    assume "embeds (ps @ [p]) fs"
    then show ?thesis by (auto simp: embeds_def subseq_snoc_iff)
  next
    assume "p f \<and> embeds ps fs"
    then obtain gs where "subseq gs fs" "list_all2 (\<lambda>p f. p f) ps gs" "p f" by (auto simp: embeds_def)
    then have "subseq (gs @ [f]) (fs @ [f])" "list_all2 (\<lambda>p f. p f) (ps @ [p]) (gs @ [f])"
      by (simp_all add: list_all2_appendI)
    then show ?thesis unfolding embeds_def by blast
  qed
qed

lemma seen_0 [simp]: "segs_seen 0 fs"
  by (simp add: segs_seen_def embeds_def)

lemma seen_Nil [simp]: "segs_seen n [] \<longleftrightarrow> n = 0"
  by (cases n) (auto simp: segs_seen_def embeds_def connection_segments_def list_all2_Cons1)

lemma seen_snoc:
  "n < 5 \<Longrightarrow> segs_seen (Suc n) (fs @ [f]) \<longleftrightarrow> segs_seen (Suc n) fs \<or> ((connection_segments ! n) f \<and> segs_seen n fs)"
  unfolding segs_seen_def
  by (subst (1 2) take_Suc_conv_app_nth) (simp_all add: connection_segments_def embeds_snoc)

lemma seen_less: "segs_seen (Suc n) fs \<Longrightarrow> n < 5 \<Longrightarrow> segs_seen n fs"
proof (induction fs arbitrary: n rule: rev_induct)
  case (snoc f fs)
  then show ?case by (cases n) (auto simp: seen_snoc)
qed simp

text \<open>One pattern at a time, and the state behind a segment.\<close>

lemma seen_steps:
  "segs_seen 1 (fs @ [f]) \<longleftrightarrow> segs_seen 1 fs \<or> syn_only f"
  "segs_seen 2 (fs @ [f]) \<longleftrightarrow> segs_seen 2 fs \<or> flag_set f TCP_FLAG_SYN \<and> flag_set f TCP_FLAG_ACK \<and> segs_seen 1 fs"
  "segs_seen 3 (fs @ [f]) \<longleftrightarrow> segs_seen 3 fs \<or> \<not> flag_set f TCP_FLAG_SYN \<and> flag_set f TCP_FLAG_ACK \<and> segs_seen 2 fs"
  "segs_seen 4 (fs @ [f]) \<longleftrightarrow> segs_seen 4 fs \<or> flag_set f TCP_FLAG_FIN \<and> segs_seen 3 fs"
  "segs_seen 5 (fs @ [f]) \<longleftrightarrow> segs_seen 5 fs \<or> flag_set f TCP_FLAG_FIN \<and> flag_set f TCP_FLAG_ACK \<and> segs_seen 4 fs"
  using seen_snoc [of 0 fs f] seen_snoc [of 1 fs f] seen_snoc [of 2 fs f] seen_snoc [of 3 fs f] seen_snoc [of 4 fs f]
  by (auto simp: connection_segments_def numeral_2_eq_2 numeral_3_eq_3 eval_nat_numeral)

definition no_reset :: "u8 list \<Rightarrow> bool" where
  "no_reset fs \<longleftrightarrow> list_all (\<lambda>f. \<not> flag_set f TCP_FLAG_RST) fs"

lemma advance_state:
  "\<not> flag_set (fst x) TCP_FLAG_RST \<Longrightarrow>
   fr_tcp_state (advance r x) = fr_tcp_state (tcp_switch (fst x) r)"
  by (simp add: advance_def advance_tcp_state_def Let_def tcp_switch_state)

text \<open>The segments of a connection seen so far are exactly those of the state.\<close>

definition state_fits :: "tcp_state \<Rightarrow> u8 list \<Rightarrow> bool" where
  "state_fits s fs \<longleftrightarrow> s \<noteq> TCP_CLOSED \<and> segs_seen (state_rank s) fs \<and> \<not> segs_seen (Suc (state_rank s)) fs"

lemma state_fits_cases:
  "state_fits s fs \<longleftrightarrow>
     (case s of TCP_INIT \<Rightarrow> \<not> segs_seen 1 fs | TCP_SYN_SENT \<Rightarrow> segs_seen 1 fs \<and> \<not> segs_seen 2 fs
      | TCP_SYN_RECEIVED \<Rightarrow> segs_seen 2 fs \<and> \<not> segs_seen 3 fs | TCP_ESTABLISHED \<Rightarrow> segs_seen 3 fs \<and> \<not> segs_seen 4 fs
      | TCP_FIN_WAIT \<Rightarrow> segs_seen 4 fs \<and> \<not> segs_seen 5 fs | TCP_CLOSED \<Rightarrow> False)"
  by (cases s) (simp_all add: state_fits_def eval_nat_numeral)

lemma seen_chain:
  "segs_seen 2 fs \<Longrightarrow> segs_seen 1 fs" "segs_seen 3 fs \<Longrightarrow> segs_seen 2 fs"
  "segs_seen 4 fs \<Longrightarrow> segs_seen 3 fs" "segs_seen 5 fs \<Longrightarrow> segs_seen 4 fs"
  using seen_less [of 1 fs] seen_less [of 2 fs] seen_less [of 3 fs] seen_less [of 4 fs]
  by (simp_all add: eval_nat_numeral)

lemma state_fits_switch:
  assumes "state_fits (fr_tcp_state r) fs"
  shows "if segs_seen 5 (fs @ [f]) then fr_tcp_state (tcp_switch f r) = TCP_CLOSED
    else state_fits (fr_tcp_state (tcp_switch f r)) (fs @ [f])"
  using assms seen_chain [of fs]
  by (cases "fr_tcp_state r")
    (auto simp: state_fits_cases seen_steps seen_steps(1) [simplified] tcp_switch_state syn_only_flags)

lemma state_fits_all:
  assumes "no_reset (map fst xs)" "\<not> segs_seen 5 (map fst xs)"
  shows "state_fits (fr_tcp_state (advance_all xs (new_flow_record k clk))) (map fst xs)"
  using assms
proof (induction xs rule: rev_induct)
  case Nil
  then show ?case by (simp add: advance_all_def new_flow_record_def state_fits_cases)
next
  case (snoc x xs)
  then have "no_reset (map fst xs)" "\<not> flag_set (fst x) TCP_FLAG_RST" "\<not> segs_seen 5 (map fst xs)"
    by (auto simp: no_reset_def seen_steps)
  with snoc show ?case
    using state_fits_switch [of "advance_all xs (new_flow_record k clk)" "map fst xs" "fst x"]
    by (simp add: advance_all_snoc advance_state)
qed

text \<open>The handshake counter: it counts the entries into ESTABLISHED.\<close>

lemma advance_handshakes:
  "fr_completed_handshakes (advance r x) =
     count_if (fr_tcp_state r = TCP_SYN_RECEIVED \<and> fr_tcp_state (advance r x) = TCP_ESTABLISHED)
       (fr_completed_handshakes r)"
  by (cases "fr_tcp_state r")
    (auto simp: advance_def advance_tcp_state_def tcp_switch_def count_tcp_flags_def count_if_def Let_def)

lemma advance_flags_seen:
  "fr_tcp_flags_seen (advance r x) = or (fr_tcp_flags_seen r) (fst x)"
  by (cases "fr_tcp_state r")
    (auto simp: advance_def advance_tcp_state_def tcp_switch_def count_tcp_flags_def Let_def)

lemma advance_all_flags_seen:
  "fr_tcp_flags_seen (advance_all xs r) = foldl or (fr_tcp_flags_seen r) (map fst xs)"
  by (induction xs rule: rev_induct) (simp_all add: advance_all_snoc advance_flags_seen, simp add: advance_all_def)

text \<open>The state machine changes nothing of the accounting.\<close>

lemma advance_frame [simp]:
  "fr_key (fst (advance_tcp_state f dir r)) = fr_key r"
  "fr_first_seen (fst (advance_tcp_state f dir r)) = fr_first_seen r"
  "fr_last_seen (fst (advance_tcp_state f dir r)) = fr_last_seen r"
  "fr_total_packets (fst (advance_tcp_state f dir r)) = fr_total_packets r"
  "fr_total_bytes (fst (advance_tcp_state f dir r)) = fr_total_bytes r"
  "fr_lo_to_hi_packets (fst (advance_tcp_state f dir r)) = fr_lo_to_hi_packets r"
  "fr_lo_to_hi_bytes (fst (advance_tcp_state f dir r)) = fr_lo_to_hi_bytes r"
  "fr_hi_to_lo_packets (fst (advance_tcp_state f dir r)) = fr_hi_to_lo_packets r"
  "fr_hi_to_lo_bytes (fst (advance_tcp_state f dir r)) = fr_hi_to_lo_bytes r"
  by (cases "fr_tcp_state r",
      simp_all add: advance_tcp_state_def tcp_switch_def count_tcp_flags_def Let_def)+

section \<open>Properties\<close>


definition handshake_segments :: "(u8 \<times> flow_direction) list" where
  "handshake_segments = [(0x02, LO_TO_HI), (0x12, HI_TO_LO), (0x10, LO_TO_HI)]"

lemma handshake_established:
  "fr_tcp_state (advance_all handshake_segments (new_flow_record k clk)) = TCP_ESTABLISHED"
  by (simp add: handshake_segments_def advance_all_def advance_def advance_tcp_state_def Let_def
      tcp_switch_state new_flow_record_def syn_only_def flag_set_def)


text \<open>
  Claim C27. A flow is in ESTABLISHED or FIN_WAIT, or in CLOSED without a RST ever seen on it, only if a SYN,
  then a SYN+ACK, then an ACK were seen on it, in this order. (A RST closes a flow from any state, also
  one without a handshake.)
\<close>

theorem established_after_handshake:
  assumes "fr_tcp_state (advance_all xs (new_flow_record k clk)) \<in> {TCP_ESTABLISHED, TCP_FIN_WAIT} \<or>
    fr_tcp_state (advance_all xs (new_flow_record k clk)) = TCP_CLOSED \<and> list_all (\<lambda>x. \<not> flag_set (fst x) TCP_FLAG_RST) xs"
  shows "\<exists>f1 f2 f3. subseq [f1, f2, f3] (map fst xs) \<and> syn_only f1 \<and>
     flag_set f2 TCP_FLAG_SYN \<and> flag_set f2 TCP_FLAG_ACK \<and>
     \<not> flag_set f3 TCP_FLAG_SYN \<and> flag_set f3 TCP_FLAG_ACK"
  using assms
proof
  assume "fr_tcp_state (advance_all xs (new_flow_record k clk)) \<in> {TCP_ESTABLISHED, TCP_FIN_WAIT}"
  moreover have "fr_tcp_state (new_flow_record k clk) = TCP_INIT" by (simp add: new_flow_record_def)
  then have "handshake (handshake_steps (fr_tcp_state (advance_all xs (new_flow_record k clk)))) (map fst xs)"
    using advance_all_handshake by blast
  ultimately have "handshake 3 (map fst xs)" by (auto simp: handshake_steps_def)
  then show ?thesis unfolding handshake_def by simp
next
  assume closed: "fr_tcp_state (advance_all xs (new_flow_record k clk)) = TCP_CLOSED \<and>
    list_all (\<lambda>x. \<not> flag_set (fst x) TCP_FLAG_RST) xs"
  then have "segs_seen 5 (map fst xs)"
    using state_fits_all [of xs k clk] by (auto simp: no_reset_def list_all_iff state_fits_def)
  then have "segs_seen 3 (map fst xs)" using seen_chain by blast
  then show ?thesis
    by (fastforce simp: segs_seen_def embeds_def connection_segments_def list_all2_Cons1)
qed

lemma established_after_handshake_witness:
  "\<exists>f1 f2 f3. subseq [f1, f2, f3] (map fst handshake_segments) \<and> syn_only f1 \<and>
     flag_set f2 TCP_FLAG_SYN \<and> flag_set f2 TCP_FLAG_ACK \<and>
     \<not> flag_set f3 TCP_FLAG_SYN \<and> flag_set f3 TCP_FLAG_ACK"
  by (rule established_after_handshake [of _ "make_key [1] [2] 3 4 6" 0]) (simp add: handshake_established)

text \<open>
  The comment of \<open>CLOSED\<close> says that both FINs were exchanged; the code closes an established
  flow on two FIN+ACK segments of one side, for instance a retransmission.
\<close>

theorem one_sided_close:
  "fr_tcp_state (advance_all (handshake_segments @ [(0x11, dir), (0x11, dir)]) (new_flow_record k clk)) = TCP_CLOSED"
  by (simp add: handshake_segments_def advance_all_def advance_def advance_tcp_state_def Let_def
      tcp_switch_state new_flow_record_def syn_only_def flag_set_def)

end
