(* ===== verification/FlowTracker.thy ===== *)
theory FlowTracker
  imports FlowRecords
begin

text \<open>
  \<open>include/Flowtracker.hpp\<close> and \<open>src/FlowTracker.cpp\<close>: the table of active flows with its three
  counters. \<open>update\<close> and \<open>evict_expired_flows\<close> run under the table's lock, so each is one step of
  the state. The returned \<open>FlowRecord *\<close> is the key of the record, \<open>None\<close> for \<open>nullptr\<close>.

  \<open>inet_pton\<close> is a library function: it is the argument \<open>inet_pton\<close> of the model, \<open>None\<close> for a
  text it rejects. The two readings of the clock in an update are \<open>now\<close> and \<open>clk\<close> (in the
  constructor of a new record). The 64-bit counters wrap.
\<close>

section \<open>State and helpers\<close>

record flow_table =
  ft_config :: flow_tracker_config
  ft_table :: "(flow_key, flow_record) umap"
  ft_created :: u64
  ft_evicted :: u64
  ft_active :: u64

definition new_flow_table :: "flow_tracker_config \<Rightarrow> flow_table" where
  "new_flow_table cfg =
     \<lparr> ft_config = cfg, ft_table = [], ft_created = 0, ft_evicted = 0, ft_active = 0 \<rparr>"

definition addr128_from_ipv4_string :: "string \<Rightarrow> addr128" where
  "addr128_from_ipv4_string ip = ipv4_to_addr128 (sscanf_ipv4 ip)"

definition addr128_from_ipv6_string :: "(string \<Rightarrow> u8 list option) \<Rightarrow> string \<Rightarrow> addr128" where
  "addr128_from_ipv6_string inet_pton ip =
     (case inet_pton (c_str ip) of None \<Rightarrow> replicate 16 0 | Some a \<Rightarrow> take 16 a)"

definition direction_of :: "addr128 \<Rightarrow> addr128 \<Rightarrow> flow_direction" where
  "direction_of src dst = (if src \<le> dst then LO_TO_HI else HI_TO_LO)"

definition endpoint_addrs :: "(string \<Rightarrow> u8 list option) \<Rightarrow> packet_info \<Rightarrow> (addr128 \<times> addr128) option" where
  "endpoint_addrs inet_pton info =
     (if \<not> valid info then None
      else if l3_proto info = L3_IPv4
      then Some (addr128_from_ipv4_string (src_ip info), addr128_from_ipv4_string (dst_ip info))
      else if l3_proto info = L3_IPv6
      then Some (addr128_from_ipv6_string inet_pton (src_ip info),
                 addr128_from_ipv6_string inet_pton (dst_ip info))
      else None)"

section \<open>Updating a record\<close>

definition account :: "packet_info \<Rightarrow> flow_direction \<Rightarrow> ns \<Rightarrow> flow_record \<Rightarrow> flow_record" where
  "account info dir now r =
     (let n = ucast (captured_length info);
          r1 = r\<lparr> fr_last_seen := now, fr_total_packets := fr_total_packets r + 1,
                  fr_total_bytes := fr_total_bytes r + n \<rparr>
      in case dir of
           LO_TO_HI \<Rightarrow> r1\<lparr> fr_lo_to_hi_packets := fr_lo_to_hi_packets r1 + 1,
                           fr_lo_to_hi_bytes := fr_lo_to_hi_bytes r1 + n \<rparr>
         | HI_TO_LO \<Rightarrow> r1\<lparr> fr_hi_to_lo_packets := fr_hi_to_lo_packets r1 + 1,
                           fr_hi_to_lo_bytes := fr_hi_to_lo_bytes r1 + n \<rparr>)"

definition track_port :: "packet_info \<Rightarrow> flow_direction \<Rightarrow> ns \<Rightarrow> flow_record \<Rightarrow> flow_record" where
  "track_port info dir now r =
     (if dir = LO_TO_HI \<and> dst_port info \<noteq> 0 then
        (let r1 = (if seconds (now - fr_scan_window_start r) \<ge> 10
                   then r\<lparr> fr_dst_ports_contacted := {}, fr_scan_window_start := now \<rparr> else r)
         in r1\<lparr> fr_dst_ports_contacted := insert (dst_port info) (fr_dst_ports_contacted r1) \<rparr>)
      else r)"

definition track_syn :: "packet_info \<Rightarrow> ns \<Rightarrow> flow_record \<Rightarrow> flow_record" where
  "track_syn info now r =
     (if flag_set (tcp_flags info) TCP_FLAG_SYN \<and> \<not> flag_set (tcp_flags info) TCP_FLAG_ACK then
        (let r1 = (if seconds (now - fr_syn_window_start r) \<ge> 1
                   then r\<lparr> fr_syn_window_count := 0, fr_syn_window_start := now \<rparr> else r)
         in r1\<lparr> fr_syn_window_count := fr_syn_window_count r1 + 1 \<rparr>)
      else r)"

definition note_l7 :: "packet_info \<Rightarrow> flow_record \<Rightarrow> flow_record" where
  "note_l7 info r =
     (let r1 = (if l7_proto info \<noteq> L7_NONE then r\<lparr> fr_l7_proto := l7_proto info \<rparr> else r);
          r2 = (case dns info of None \<Rightarrow> r1
                | Some d \<Rightarrow> r1\<lparr> fr_last_dns_query := query_name d, fr_last_dns_qtype := query_type d \<rparr>);
          r3 = (case http info of None \<Rightarrow> r2
                | Some h \<Rightarrow> r2\<lparr> fr_last_http_host := http_host h, fr_last_http_method := http_method h \<rparr>)
      in case tls info of None \<Rightarrow> r3 | Some t \<Rightarrow> r3\<lparr> fr_last_tls_sni := sni t \<rparr>)"

definition update_record :: "packet_info \<Rightarrow> flow_direction \<Rightarrow> ns \<Rightarrow> flow_record \<Rightarrow> flow_record" where
  "update_record info dir now r =
     (let r1 = account info dir now r;
          r2 = (if l4_proto info = L4_TCP
                then track_syn info now
                       (track_port info dir now (fst (advance_tcp_state (tcp_flags info) dir r1)))
                else r1)
      in note_l7 info r2)"

section \<open>Table operations\<close>

definition ft_update ::
  "(string \<Rightarrow> u8 list option) \<Rightarrow> packet_info \<Rightarrow> ns \<Rightarrow> ns \<Rightarrow> flow_table \<Rightarrow> flow_table \<times> flow_key option" where
  "ft_update inet_pton info now clk ft =
     (case endpoint_addrs inet_pton info of
        None \<Rightarrow> (ft, None)
      | Some (src_addr, dst_addr) \<Rightarrow>
          (let key = make_key src_addr dst_addr (src_port info) (dst_port info) (ip_proto_num info);
               dir = direction_of src_addr dst_addr
           in case umap_find (ft_table ft) key of
                Some r \<Rightarrow>
                  (ft\<lparr> ft_table := umap_put key (update_record info dir now r) (ft_table ft) \<rparr>, Some key)
              | None \<Rightarrow>
                  if umap_size (ft_table ft) \<ge> max_flows (ft_config ft) then (ft, None)
                  else (ft\<lparr> ft_table := umap_put key
                              (update_record info dir now (new_flow_record key clk)) (ft_table ft),
                            ft_created := ft_created ft + 1, ft_active := ft_active ft + 1 \<rparr>,
                        Some key)))"

definition expired :: "flow_tracker_config \<Rightarrow> ns \<Rightarrow> flow_record \<Rightarrow> bool" where
  "expired cfg now r =
     (let idle = seconds (now - fr_last_seen r)
      in if fk_protocol (fr_key r) = IPPROTO_TCP_NUM
         then (fr_tcp_state r = TCP_CLOSED \<and> idle > 5) \<or> idle > tcp_flow_timeout_sec cfg
         else idle > udp_flow_timeout_sec cfg)"

text \<open>The loop over the table: the elements that stay, and the number erased.\<close>

fun evict_loop :: "flow_tracker_config \<Rightarrow> ns \<Rightarrow> (flow_key, flow_record) umap \<Rightarrow> (flow_key, flow_record) umap \<times> nat" where
  "evict_loop cfg now [] = ([], 0)"
| "evict_loop cfg now ((k, r) # m) =
     (let (m', n) = evict_loop cfg now m
      in if expired cfg now r then (m', n + 1) else ((k, r) # m', n))"

definition evict_expired_flows :: "ns \<Rightarrow> flow_table \<Rightarrow> flow_table" where
  "evict_expired_flows now ft =
     (let (m, evicted) = evict_loop (ft_config ft) now (ft_table ft);
          ft1 = ft\<lparr> ft_table := m, ft_active := ft_active ft - of_nat evicted \<rparr>
      in if evicted > 0 then ft1\<lparr> ft_evicted := ft_evicted ft1 + of_nat evicted \<rparr> else ft1)"

text \<open>\<open>snapshot_active_flows\<close>: the first \<open>max_count\<close> records in the order of iteration.\<close>

fun snapshot_loop :: "(flow_key \<times> flow_record) list \<Rightarrow> nat \<Rightarrow> flow_key list \<Rightarrow> flow_key list" where
  "snapshot_loop [] max_count result = result"
| "snapshot_loop ((k, r) # m) max_count result =
     (if length result \<ge> max_count then result else snapshot_loop m max_count (result @ [k]))"

definition snapshot_active_flows :: "nat \<Rightarrow> flow_table \<Rightarrow> flow_key list" where
  "snapshot_active_flows max_count ft = snapshot_loop (ft_table ft) max_count []"

section \<open>Records\<close>

text \<open>The totals of a record are the sums over the two directions, in packets and in bytes.\<close>

definition totals_ok :: "flow_record \<Rightarrow> bool" where
  "totals_ok r \<longleftrightarrow> fr_total_packets r = fr_lo_to_hi_packets r + fr_hi_to_lo_packets r \<and>
     fr_total_bytes r = fr_lo_to_hi_bytes r + fr_hi_to_lo_bytes r"

definition same_account :: "flow_record \<Rightarrow> flow_record \<Rightarrow> bool" where
  "same_account r r' \<longleftrightarrow> fr_key r' = fr_key r \<and> fr_first_seen r' = fr_first_seen r \<and>
     fr_last_seen r' = fr_last_seen r \<and> fr_total_packets r' = fr_total_packets r \<and>
     fr_total_bytes r' = fr_total_bytes r \<and> fr_lo_to_hi_packets r' = fr_lo_to_hi_packets r \<and>
     fr_lo_to_hi_bytes r' = fr_lo_to_hi_bytes r \<and> fr_hi_to_lo_packets r' = fr_hi_to_lo_packets r \<and>
     fr_hi_to_lo_bytes r' = fr_hi_to_lo_bytes r"

lemma same_account_refl [simp]: "same_account r r"
  by (simp add: same_account_def)

lemma same_account_trans: "same_account r r' \<Longrightarrow> same_account r' r'' \<Longrightarrow> same_account r r''"
  by (simp add: same_account_def)

lemma same_account_steps:
  "same_account r (fst (advance_tcp_state f dir r))"
  "same_account r (track_port info dir now r)"
  "same_account r (track_syn info now r)"
  "same_account r (note_l7 info r)"
  by (simp_all add: same_account_def track_port_def track_syn_def note_l7_def Let_def split: option.splits)

lemma update_record_account: "same_account (account info dir now r) (update_record info dir now r)"
proof -
  note same_account_trans [trans]
  let ?r1 = "account info dir now r"
  have "same_account ?r1 (fst (advance_tcp_state (tcp_flags info) dir ?r1))"
    by (rule same_account_steps)
  also have "same_account \<dots> (track_port info dir now \<dots>)" by (rule same_account_steps)
  also have "same_account \<dots> (track_syn info now \<dots>)" by (rule same_account_steps)
  finally have "same_account ?r1 (if l4_proto info = L4_TCP then track_syn info now
      (track_port info dir now (fst (advance_tcp_state (tcp_flags info) dir ?r1))) else ?r1)"
    by simp
  also have "same_account \<dots> (note_l7 info \<dots>)" by (rule same_account_steps)
  finally show ?thesis by (simp add: update_record_def Let_def)
qed

lemma account_totals: "totals_ok r \<Longrightarrow> totals_ok (account info dir now r)"
  by (cases dir) (simp_all add: totals_ok_def account_def Let_def)

lemma update_record_totals: "totals_ok r \<Longrightarrow> totals_ok (update_record info dir now r)"
  using update_record_account [of info dir now r] account_totals [of r info dir now]
  by (simp add: totals_ok_def same_account_def)

lemma update_record_key: "fr_key (update_record info dir now r) = fr_key r"
  using update_record_account [of info dir now r]
  by (cases dir) (simp_all add: same_account_def account_def Let_def)

lemma update_record_last_seen: "fr_last_seen (update_record info dir now r) = now"
  using update_record_account [of info dir now r]
  by (cases dir) (simp_all add: same_account_def account_def Let_def)

section \<open>The table invariant\<close>

text \<open>
  \<open>ft_inv\<close>: the table is within its limit, the counters agree with it (the flows created are the
  active ones and the evicted ones), and every record sits under its own normalised key.
\<close>

definition flow_ok :: "flow_key \<Rightarrow> flow_record \<Rightarrow> bool" where
  "flow_ok k r \<longleftrightarrow> fr_key r = k \<and> key_normal k \<and> totals_ok r"

definition ft_inv :: "flow_table \<Rightarrow> bool" where
  "ft_inv ft \<longleftrightarrow> umap_wf (ft_table ft) \<and> umap_size (ft_table ft) \<le> max_flows (ft_config ft) \<and>
     ft_active ft = of_nat (umap_size (ft_table ft)) \<and> ft_created ft = ft_active ft + ft_evicted ft \<and>
     (\<forall>k r. umap_find (ft_table ft) k = Some r \<longrightarrow> flow_ok k r)"

lemma ft_inv_new: "ft_inv (new_flow_table cfg)"
  by (simp add: ft_inv_def new_flow_table_def)

lemma flow_ok_update: "flow_ok k r \<Longrightarrow> flow_ok k (update_record info dir now r)"
  by (simp add: flow_ok_def update_record_key update_record_totals)

lemma flow_ok_new: "key_normal k \<Longrightarrow> flow_ok k (new_flow_record k clk)"
  by (simp add: flow_ok_def new_flow_record_def totals_ok_def)

lemma ft_inv_put_existing:
  assumes "ft_inv ft" "umap_find (ft_table ft) k = Some r" "flow_ok k r'"
  shows "ft_inv (ft\<lparr> ft_table := umap_put k r' (ft_table ft) \<rparr>)"
  using assms by (auto simp: ft_inv_def um.find_put um.size_put)

lemma ft_inv_put_new:
  assumes "ft_inv ft" "umap_find (ft_table ft) k = None" "flow_ok k r'"
    and "umap_size (ft_table ft) < max_flows (ft_config ft)"
  shows "ft_inv (ft\<lparr> ft_table := umap_put k r' (ft_table ft), ft_created := ft_created ft + 1,
     ft_active := ft_active ft + 1 \<rparr>)"
  using assms by (auto simp: ft_inv_def um.find_put um.size_put)

lemma ft_update_inv: "ft_inv ft \<Longrightarrow> ft_inv (fst (ft_update inet_pton info now clk ft))"
proof (cases "endpoint_addrs inet_pton info")
  case (Some e)
  assume inv: "ft_inv ft"
  obtain s d where e: "e = (s, d)" by (cases e)
  define k where "k = make_key s d (src_port info) (dst_port info) (ip_proto_num info)"
  have kn: "key_normal k" by (simp add: k_def make_key_normal)
  have known: "flow_ok k r" if "umap_find (ft_table ft) k = Some r" for r
    using inv that by (auto simp: ft_inv_def)
  show ?thesis
  proof (cases "umap_find (ft_table ft) k")
    case None
    have "ft_inv (ft\<lparr> ft_table := umap_put k (update_record info (direction_of s d) now (new_flow_record k clk)) (ft_table ft),
        ft_created := ft_created ft + 1, ft_active := ft_active ft + 1 \<rparr>)"
      if "umap_size (ft_table ft) < max_flows (ft_config ft)"
      by (rule ft_inv_put_new [OF inv None flow_ok_update [OF flow_ok_new [OF kn]] that])
    then show ?thesis using inv Some None by (simp add: ft_update_def e Let_def k_def [symmetric])
  next
    case found: (Some r)
    show ?thesis
      using Some found ft_inv_put_existing [OF inv found flow_ok_update [OF known [OF found]]]
      by (simp add: ft_update_def e Let_def k_def [symmetric])
  qed
qed (simp add: ft_update_def)

lemma evict_loop_eq:
  "evict_loop cfg now m = (umap_erase_if (\<lambda>k r. expired cfg now r) m,
     umap_size m - umap_size (umap_erase_if (\<lambda>k r. expired cfg now r) m)) \<and>
   umap_size (umap_erase_if (\<lambda>k r. expired cfg now r) m) \<le> umap_size m"
  by (induction cfg now m rule: evict_loop.induct)
    (auto simp: umap_erase_if_def umap_size_def Let_def Suc_diff_le le_SucI split: prod.splits)

lemma evict_table:
  "ft_table (evict_expired_flows now ft) = umap_erase_if (\<lambda>k r. expired (ft_config ft) now r) (ft_table ft)"
  using evict_loop_eq [of "ft_config ft" now "ft_table ft"]
  by (simp add: evict_expired_flows_def Let_def split: prod.splits)

lemma evict_counters:
  assumes "n = umap_size (ft_table ft) - umap_size (ft_table (evict_expired_flows now ft))"
  shows "ft_active (evict_expired_flows now ft) = ft_active ft - of_nat n"
    and "ft_evicted (evict_expired_flows now ft) = ft_evicted ft + of_nat n"
    and "ft_created (evict_expired_flows now ft) = ft_created ft"
    and "ft_config (evict_expired_flows now ft) = ft_config ft"
  using evict_loop_eq [of "ft_config ft" now "ft_table ft"] assms
  by (auto simp: evict_expired_flows_def evict_table Let_def split: prod.splits)

lemma evict_inv:
  assumes inv: "ft_inv ft"
  shows "ft_inv (evict_expired_flows now ft)"
proof -
  let ?m = "ft_table ft" and ?m' = "ft_table (evict_expired_flows now ft)"
  define n where "n = umap_size ?m - umap_size ?m'"
  have wf: "umap_wf ?m" using inv by (simp add: ft_inv_def)
  have le: "umap_size ?m' \<le> umap_size ?m" unfolding evict_table by (rule um.size_erase)
  then have "(of_nat (umap_size ?m) :: u64) = of_nat (umap_size ?m') + of_nat n"
    by (simp add: n_def flip: of_nat_add)
  moreover have "umap_find ?m' k = Some r \<Longrightarrow> umap_find ?m k = Some r" for k r
    using um.erase_removes [OF wf] unfolding evict_table by blast
  ultimately show ?thesis
    using inv le wf evict_counters [OF n_def]
    by (auto simp: ft_inv_def evict_table)
qed

datatype ft_event = Ft_Update packet_info ns ns | Ft_Evict ns

fun ft_step :: "(string \<Rightarrow> u8 list option) \<Rightarrow> ft_event \<Rightarrow> flow_table \<Rightarrow> flow_table" where
  "ft_step inet_pton (Ft_Update info now clk) ft = fst (ft_update inet_pton info now clk ft)"
| "ft_step inet_pton (Ft_Evict now) ft = evict_expired_flows now ft"

interpretation ftm: preserving "ft_step inet_pton" ft_inv for inet_pton
proof
  fix ft e
  assume "ft_inv ft"
  then show "ft_inv (ft_step inet_pton e ft)" by (cases e) (simp_all add: ft_update_inv evict_inv)
qed

section \<open>Look-ups\<close>

lemma evict_find:
  assumes "ft_inv ft"
  shows "umap_find (ft_table (evict_expired_flows now ft)) k =
     (case umap_find (ft_table ft) k of None \<Rightarrow> None
      | Some r \<Rightarrow> if expired (ft_config ft) now r then None else Some r)"
  unfolding evict_table using assms by (simp add: ft_inv_def um.find_erase)

lemma snapshot_loop_eq:
  "length result \<le> n \<Longrightarrow> snapshot_loop m n result = result @ take (n - length result) (map fst m)"
proof (induction m n result rule: snapshot_loop.induct)
  case (2 k r m n result)
  show ?case
  proof (cases "length result \<ge> n")
    case False
    then have "n - length result = Suc (n - Suc (length result))" by simp
    then show ?thesis using 2 False by simp
  qed (use 2 in simp)
qed simp

lemma snapshot_eq: "snapshot_active_flows n ft = take n (map fst (ft_table ft))"
  by (simp add: snapshot_active_flows_def snapshot_loop_eq)

section \<open>Properties\<close>

text \<open>
  Claim C4. After any sequence of packets and evictions the flow table holds at most \<open>max_flows\<close>
  flows, the number of active flows is the size of the table, the flows created are the active and the
  evicted ones, and every record has consistent totals under its own normalised key.
\<close>

theorem flow_table_invariant:
  "let ft = fold (ft_step inet_pton) es (new_flow_table cfg)
   in umap_size (ft_table ft) \<le> max_flows cfg \<and> ft_active ft = of_nat (umap_size (ft_table ft)) \<and>
      ft_created ft = ft_active ft + ft_evicted ft \<and> ft_inv ft"
proof -
  have upd: "ft_config (fst (ft_update inet_pton info now clk ft)) = ft_config ft" for info now clk ft
    by (simp add: ft_update_def Let_def split: option.splits)
  have "ft_config (fold (ft_step inet_pton) es ft) = ft_config ft" for ft
  proof (induction es arbitrary: ft)
    case (Cons e es)
    then show ?case by (cases e) (simp_all add: upd evict_counters(4))
  qed simp
  then have "ft_config (fold (ft_step inet_pton) es (new_flow_table cfg)) = cfg"
    by (simp add: new_flow_table_def)
  then show ?thesis
    using ftm.run_inv [OF ft_inv_new, of inet_pton es cfg] by (auto simp: Let_def ft_inv_def)
qed

text \<open>
  Claim C22. Eviction removes exactly the expired flows and leaves every other record as it is; the
  counter of evicted flows grows by the number of records that went.
\<close>

theorem eviction_exact:
  assumes "ft_inv ft"
  shows "umap_find (ft_table (evict_expired_flows now ft)) k =
      (case umap_find (ft_table ft) k of None \<Rightarrow> None
       | Some r \<Rightarrow> if expired (ft_config ft) now r then None else Some r) \<and>
     ft_evicted (evict_expired_flows now ft) = ft_evicted ft +
       of_nat (umap_size (ft_table ft) - umap_size (ft_table (evict_expired_flows now ft)))"
  using evict_find [OF assms] evict_counters(2) [OF refl] by blast

definition sample_flows :: flow_table where
  "sample_flows = (let k = make_key [1] [2] 3 4 6
     in \<lparr> ft_config = default_flow_tracker, ft_table = [(k, new_flow_record k 0)], ft_created = 1,
          ft_evicted = 0, ft_active = 1 \<rparr>)"

lemma sample_flows_inv: "ft_inv sample_flows"
  by (simp add: ft_inv_def sample_flows_def Let_def umap_wf_def umap_size_def umap_find_def
      default_flow_tracker_def flow_ok_new make_key_normal)

lemma eviction_exact_witness:
  "umap_find (ft_table (evict_expired_flows 500000000 sample_flows)) (make_key [1] [2] 3 4 6) =
     (if expired default_flow_tracker 500000000 (new_flow_record (make_key [1] [2] 3 4 6) 0) then None
      else Some (new_flow_record (make_key [1] [2] 3 4 6) 0))"
  using eviction_exact [OF sample_flows_inv, of 500000000 "make_key [1] [2] 3 4 6"]
  by (simp add: sample_flows_def Let_def umap_find_def)

definition reply_of :: "packet_info \<Rightarrow> packet_info" where
  "reply_of info = info\<lparr> src_ip := dst_ip info, dst_ip := src_ip info,
     src_port := dst_port info, dst_port := src_port info \<rparr>"

text \<open>
  A packet that was tracked and its reply are accounted to the same flow.
\<close>

theorem reply_same_flow:
  assumes "snd (ft_update inet_pton info now clk ft) = Some k"
  shows "snd (ft_update inet_pton (reply_of info) now' clk' (fst (ft_update inet_pton info now clk ft))) = Some k"
proof -
  obtain s d where e: "endpoint_addrs inet_pton info = Some (s, d)"
    using assms by (cases "endpoint_addrs inet_pton info") (auto simp: ft_update_def)
  then have e': "endpoint_addrs inet_pton (reply_of info) = Some (d, s)"
    by (auto simp: endpoint_addrs_def reply_of_def split: if_splits)
  have key: "make_key d s (src_port (reply_of info)) (dst_port (reply_of info)) (ip_proto_num (reply_of info)) =
      make_key s d (src_port info) (dst_port info) (ip_proto_num info)"
    using make_key_symmetric_lemma by (simp add: reply_of_def)
  have k: "k = make_key s d (src_port info) (dst_port info) (ip_proto_num info)"
    using assms e by (auto simp: ft_update_def Let_def split: option.splits if_splits)
  then have "\<exists>r. umap_find (ft_table (fst (ft_update inet_pton info now clk ft))) k = Some r"
    using assms e by (auto simp: ft_update_def Let_def um.find_put split: option.splits if_splits)
  then show ?thesis
    by (auto simp: ft_update_def [of _ "reply_of info"] e' key Let_def simp flip: k)
qed

definition sample_info :: packet_info where
  "sample_info = empty_info\<lparr> valid := True, l3_proto := L3_IPv4, src_ip := format_ipv4 1,
     dst_ip := format_ipv4 2, src_port := 3, dst_port := 4, ip_proto_num := 17 \<rparr>"

lemma reply_same_flow_witness:
  "snd (ft_update (\<lambda>_. None) (reply_of sample_info) 5 5
     (fst (ft_update (\<lambda>_. None) sample_info 0 0 (new_flow_table default_flow_tracker)))) =
   Some (make_key (ipv4_to_addr128 1) (ipv4_to_addr128 2) 3 4 17)"
  by (rule reply_same_flow)
    (simp add: ft_update_def endpoint_addrs_def sample_info_def addr128_from_ipv4_string_def
      sscanf_format_ipv4 new_flow_table_def default_flow_tracker_def Let_def empty_info_def)

text \<open>
  The direction of a packet is taken from the addresses alone, the key's order from addresses
  and ports: between two ports of one host, a packet of the key's high endpoint is counted as sent by
  the low one.
\<close>

theorem loopback_direction:
  assumes "endpoint_addrs inet_pton info = Some (a, a)" "dst_port info < src_port info"
    and "ft_table ft = []" "0 < max_flows (ft_config ft)"
  shows "\<exists>k r. umap_find (ft_table (fst (ft_update inet_pton info now clk ft))) k = Some r \<and>
     fk_hi_port k = src_port info \<and> fk_lo_port k = dst_port info \<and>
     fr_lo_to_hi_packets r = 1 \<and> fr_hi_to_lo_packets r = 0"
proof -
  let ?k = "make_key a a (src_port info) (dst_port info) (ip_proto_num info)"
  let ?r = "update_record info LO_TO_HI now (new_flow_record ?k clk)"
  have "umap_find (ft_table (fst (ft_update inet_pton info now clk ft))) ?k = Some ?r"
    using assms by (simp add: ft_update_def Let_def direction_of_def um.find_put)
  moreover have "fk_hi_port ?k = src_port info \<and> fk_lo_port ?k = dst_port info"
    using assms(2) by (auto simp: make_key_def)
  moreover have "fr_lo_to_hi_packets ?r = 1 \<and> fr_hi_to_lo_packets ?r = 0"
    using update_record_account [of info LO_TO_HI now "new_flow_record ?k clk"]
    by (simp add: same_account_def account_def new_flow_record_def Let_def)
  ultimately show ?thesis by blast
qed

lemma loopback_direction_witness:
  "\<exists>k r. umap_find (ft_table (fst (ft_update (\<lambda>_. None)
       (sample_info\<lparr> dst_ip := format_ipv4 1, src_port := 9 \<rparr>) 0 0 (new_flow_table default_flow_tracker)))) k = Some r \<and>
     fk_hi_port k = 9 \<and> fr_lo_to_hi_packets r = 1"
  using loopback_direction [of "\<lambda>_. None" "sample_info\<lparr> dst_ip := format_ipv4 1, src_port := 9 \<rparr>"
      "ipv4_to_addr128 1" "new_flow_table default_flow_tracker" 0 0]
  by (auto simp: endpoint_addrs_def sample_info_def addr128_from_ipv4_string_def sscanf_format_ipv4
      new_flow_table_def default_flow_tracker_def)

text \<open>
  Claim C35. The text the dissector writes for an IPv4 address is read back by the flow tracker as that
  address.
\<close>

theorem ipv4_text_roundtrip: "addr128_from_ipv4_string (format_ipv4 a) = ipv4_to_addr128 a"
  by (simp add: addr128_from_ipv4_string_def sscanf_format_ipv4)

end
