(* ===== verification/RingBuffer.thy ===== *)
theory RingBuffer
  imports Packet
begin

text \<open>
  \<open>include/PacketRingBuffer.hpp\<close>: the bounded queue between the capture thread and the consumer,
  with its counters and its shutdown flag.

  \<open>rb_push\<close>, \<open>rb_pop\<close> and \<open>rb_shutdown_op\<close> are the bodies of the methods, each atomic: \<open>push\<close> and the
  part of \<open>pop\<close> behind the wait run under the mutex. \<open>rb_pop\<close> is \<open>Pop_Blocked\<close> when the predicate of
  the wait is false. The theory \<open>RingWait\<close> opens the wait: there the check of the predicate and the
  blocking are separate steps, as \<open>condition_variable::wait\<close> has them.
\<close>

section \<open>Operations\<close>

record ring =
  rb_capacity :: nat
  rb_queue :: "captured_packet list"
  rb_shut :: bool
  rb_pushed :: u64
  rb_popped :: u64
  rb_dropped :: u64

definition new_ring :: "ring_buffer_config \<Rightarrow> ring" where
  "new_ring cfg = \<lparr> rb_capacity = max_capacity cfg, rb_queue = [], rb_shut = False, rb_pushed = 0,
     rb_popped = 0, rb_dropped = 0 \<rparr>"

definition rb_push :: "captured_packet \<Rightarrow> ring \<Rightarrow> ring \<times> bool" where
  "rb_push p s =
     (if length (rb_queue s) \<ge> rb_capacity s then (s\<lparr> rb_dropped := rb_dropped s + 1 \<rparr>, False)
      else (s\<lparr> rb_queue := rb_queue s @ [p], rb_pushed := rb_pushed s + 1 \<rparr>, True))"

datatype pop_outcome = Popped captured_packet | Pop_Finished | Pop_Blocked

definition rb_ready :: "ring \<Rightarrow> bool" where
  "rb_ready s \<longleftrightarrow> rb_queue s \<noteq> [] \<or> rb_shut s"

definition rb_pop :: "ring \<Rightarrow> ring \<times> pop_outcome" where
  "rb_pop s =
     (if \<not> rb_ready s then (s, Pop_Blocked)
      else case rb_queue s of
             [] \<Rightarrow> (s, Pop_Finished)
           | p # rest \<Rightarrow> (s\<lparr> rb_queue := rest, rb_popped := rb_popped s + 1 \<rparr>, Popped p))"

definition rb_shutdown_op :: "ring \<Rightarrow> ring" where
  "rb_shutdown_op s = s\<lparr> rb_shut := True \<rparr>"

definition rb_size :: "ring \<Rightarrow> nat" where
  "rb_size s = length (rb_queue s)"

definition rb_empty :: "ring \<Rightarrow> bool" where
  "rb_empty s \<longleftrightarrow> rb_queue s = []"

definition drop_rate_percent :: "ring \<Rightarrow> real" where
  "drop_rate_percent s =
     (if rb_pushed s = 0 then 0
      else dmul (ddiv (dbl_of_word (rb_dropped s)) (dbl_of_word (rb_pushed s))) 100)"

section \<open>A bounded FIFO\<close>

text \<open>
  The contract the pipeline relies on: what is accepted comes out in order, and what does not fit
  is refused. The lemma on runs relates the packets taken out to the packets accepted.
\<close>

datatype ('a, 'r) queue_event = Q_Push 'a | Q_Pop | Q_Other 'r

locale bounded_fifo =
  fixes push :: "'a \<Rightarrow> 's \<Rightarrow> 's \<times> bool"
    and pop :: "'s \<Rightarrow> 's \<times> 'a option"
    and other :: "'r \<Rightarrow> 's \<Rightarrow> 's"
    and contents :: "'s \<Rightarrow> 'a list"
    and capacity :: "'s \<Rightarrow> nat"
  assumes push_contents: "contents (fst (push x s)) = (if snd (push x s) then contents s @ [x] else contents s)"
    and push_accepts: "snd (push x s) \<longleftrightarrow> length (contents s) < capacity s"
    and pop_contents: "contents s = (case snd (pop s) of None \<Rightarrow> contents (fst (pop s))
          | Some x \<Rightarrow> x # contents (fst (pop s)))"
    and pop_some: "contents s \<noteq> [] \<Longrightarrow> snd (pop s) \<noteq> None"
    and other_contents: "contents (other r s) = contents s"
    and capacity_const: "capacity (fst (push x s)) = capacity s" "capacity (fst (pop s)) = capacity s"
      "capacity (other r s) = capacity s"
begin

fun run :: "('a, 'r) queue_event list \<Rightarrow> 's \<Rightarrow> 's \<times> 'a list \<times> 'a list" where
  "run [] s = (s, [], [])"
| "run (e # es) s =
     (let s' = (case e of Q_Push x \<Rightarrow> fst (push x s) | Q_Pop \<Rightarrow> fst (pop s) | Q_Other r \<Rightarrow> other r s);
          inp = (case e of Q_Push x \<Rightarrow> if snd (push x s) then [x] else [] | _ \<Rightarrow> []);
          out = (case e of Q_Pop \<Rightarrow> (case snd (pop s) of None \<Rightarrow> [] | Some x \<Rightarrow> [x]) | _ \<Rightarrow> []);
          (s'', inps, outs) = run es s'
      in (s'', inp @ inps, out @ outs))"

lemma run_fifo: "run es s = (s', inp, out) \<Longrightarrow> out @ contents s' = contents s @ inp"
proof (induction es arbitrary: s s' inp out)
  case (Cons e es)
  show ?case
  proof (cases e)
    case (Q_Push x)
    then show ?thesis
      using Cons push_contents [of x s] by (fastforce simp: Let_def split: prod.splits)
  next
    case Q_Pop
    then show ?thesis
      using Cons pop_contents [of s]
      by (cases "snd (pop s)") (fastforce simp: Let_def split: prod.splits)+
  next
    case (Q_Other r)
    then show ?thesis using Cons other_contents [of r s] by (fastforce simp: Let_def split: prod.splits)
  qed
qed simp

lemma step_bounded:
  "length (contents s) \<le> capacity s \<Longrightarrow> length (contents (fst (push x s))) \<le> capacity s"
  "length (contents s) \<le> capacity s \<Longrightarrow> length (contents (fst (pop s))) \<le> capacity s"
  using push_contents [of x s] push_accepts [of x s] pop_contents [of s]
  by (auto split: if_splits option.splits)

lemma run_bounded:
  "run es s = (s', inp, out) \<Longrightarrow> length (contents s) \<le> capacity s \<Longrightarrow>
   length (contents s') \<le> capacity s' \<and> capacity s' = capacity s"
proof (induction es arbitrary: s s' inp out)
  case (Cons e es)
  define s1 where "s1 = (case e of Q_Push x \<Rightarrow> fst (push x s) | Q_Pop \<Rightarrow> fst (pop s) | Q_Other r \<Rightarrow> other r s)"
  obtain s2 i2 o2 where r: "run es s1 = (s2, i2, o2)" by (cases "run es s1")
  have "s2 = s'" using Cons.prems(1) r by (simp add: s1_def Let_def)
  moreover have "length (contents s1) \<le> capacity s1 \<and> capacity s1 = capacity s"
    using Cons.prems(2) step_bounded [of s] capacity_const other_contents
    by (cases e) (simp_all add: s1_def)
  ultimately show ?case using Cons.IH [OF r] by simp
qed simp

end

definition rb_take :: "ring \<Rightarrow> ring \<times> captured_packet option" where
  "rb_take s = (let (s', r) = rb_pop s in (s', case r of Popped p \<Rightarrow> Some p | _ \<Rightarrow> None))"

definition rb_other :: "unit \<Rightarrow> ring \<Rightarrow> ring" where
  "rb_other _ s = rb_shutdown_op s"

interpretation rb: bounded_fifo rb_push rb_take rb_other rb_queue rb_capacity
  by unfold_locales
    (auto simp: rb_push_def rb_take_def rb_pop_def rb_ready_def rb_other_def rb_shutdown_op_def Let_def
      split: list.splits prod.splits pop_outcome.splits)

section \<open>Counters\<close>

text \<open>The counters account for every packet: what was accepted was taken out or is still queued.\<close>

definition rb_inv :: "ring \<Rightarrow> bool" where
  "rb_inv s \<longleftrightarrow> length (rb_queue s) \<le> rb_capacity s \<and>
     rb_pushed s = rb_popped s + of_nat (length (rb_queue s))"

datatype ring_event = Ring_Push captured_packet | Ring_Pop | Ring_Shutdown

fun ring_step :: "ring_event \<Rightarrow> ring \<Rightarrow> ring" where
  "ring_step (Ring_Push p) s = fst (rb_push p s)"
| "ring_step Ring_Pop s = fst (rb_pop s)"
| "ring_step Ring_Shutdown s = rb_shutdown_op s"

lemma rb_inv_new: "rb_inv (new_ring cfg)"
  by (simp add: rb_inv_def new_ring_def)

interpretation rbm: preserving ring_step rb_inv
proof
  fix s e
  assume "rb_inv s"
  then show "rb_inv (ring_step e s)"
    by (cases e)
      (auto simp: rb_inv_def rb_push_def rb_pop_def rb_ready_def rb_shutdown_op_def split: list.splits)
qed

fun count_pushes :: "ring_event list \<Rightarrow> nat" where
  "count_pushes [] = 0"
| "count_pushes (Ring_Push p # es) = Suc (count_pushes es)"
| "count_pushes (e # es) = count_pushes es"

text \<open>Every call of \<open>push\<close> is counted once, as pushed or as dropped.\<close>

lemma ring_run_counts:
  "rb_pushed (fold ring_step es s) + rb_dropped (fold ring_step es s) =
     rb_pushed s + rb_dropped s + of_nat (count_pushes es)"
proof (induction es arbitrary: s)
  case (Cons e es)
  then show ?case
    by (cases e) (auto simp: rb_push_def rb_pop_def rb_ready_def rb_shutdown_op_def algebra_simps
        split: list.splits)
qed simp

section \<open>Properties\<close>

text \<open>The packets accepted and the packets taken out by a sequence of calls, and the state after it.\<close>

fun ring_io :: "ring_event list \<Rightarrow> ring \<Rightarrow> ring \<times> captured_packet list \<times> captured_packet list" where
  "ring_io [] s = (s, [], [])"
| "ring_io (Ring_Push p # es) s =
     (let (s', accepted) = rb_push p s; (s'', inp, out) = ring_io es s'
      in (s'', (if accepted then [p] else []) @ inp, out))"
| "ring_io (Ring_Pop # es) s =
     (let (s', r) = rb_pop s; (s'', inp, out) = ring_io es s'
      in (s'', inp, (case r of Popped p \<Rightarrow> [p] | _ \<Rightarrow> []) @ out))"
| "ring_io (Ring_Shutdown # es) s = ring_io es (rb_shutdown_op s)"

fun queue_call :: "ring_event \<Rightarrow> (captured_packet, unit) queue_event" where
  "queue_call (Ring_Push p) = Q_Push p"
| "queue_call Ring_Pop = Q_Pop"
| "queue_call Ring_Shutdown = Q_Other ()"

lemma ring_io_run: "ring_io es s = rb.run (map queue_call es) s"
proof (induction es s rule: ring_io.induct)
  case (3 es s)
  obtain s' r where pop: "rb_pop s = (s', r)" by fastforce
  have "fst (rb_take s) = s'" "snd (rb_take s) = (case r of Popped p \<Rightarrow> Some p | _ \<Rightarrow> None)"
    by (simp_all add: rb_take_def pop)
  then show ?case
    using 3 [OF pop [symmetric] refl] by (cases r) (auto simp: Let_def pop split: prod.splits)
next
  case (4 es s)
  have "rb_other () s = rb_shutdown_op s" by (simp add: rb_other_def)
  then show ?case using 4 by (auto simp: Let_def split: prod.splits)
qed (auto simp: Let_def split: prod.splits)

text \<open>
  Claim C5. The ring is a bounded queue: whatever the calls of \<open>push\<close>, \<open>pop\<close> and \<open>shutdown\<close>, the packets
  taken out, followed by the queue, are the packets accepted, in order, and the queue never exceeds
  its capacity.
\<close>

theorem ring_fifo:
  assumes "ring_io es (new_ring cfg) = (s, inp, out)"
  shows "out @ rb_queue s = inp \<and> length (rb_queue s) \<le> max_capacity cfg"
proof -
  have r: "rb.run (map queue_call es) (new_ring cfg) = (s, inp, out)"
    using assms by (simp add: ring_io_run)
  then have "out @ rb_queue s = rb_queue (new_ring cfg) @ inp" by (rule rb.run_fifo)
  moreover have "length (rb_queue s) \<le> rb_capacity s \<and> rb_capacity s = rb_capacity (new_ring cfg)"
    by (rule rb.run_bounded [OF r]) (simp add: new_ring_def)
  ultimately show ?thesis by (simp add: new_ring_def)
qed

definition sample_packet :: "u8 \<Rightarrow> captured_packet" where
  "sample_packet b = \<lparr> cp_data = [b], cp_captured_length = 1, cp_original_length = 1, cp_timestamp_us = 0 \<rparr>"

lemma ring_fifo_witness:
  "\<exists>s inp out. ring_io [Ring_Push (sample_packet 1), Ring_Push (sample_packet 2), Ring_Pop]
     (new_ring \<lparr> max_capacity = 1 \<rparr>) = (s, inp, out) \<and> out @ rb_queue s = inp \<and> length (rb_queue s) \<le> 1"
proof -
  obtain s inp out where io: "ring_io [Ring_Push (sample_packet 1), Ring_Push (sample_packet 2), Ring_Pop]
     (new_ring \<lparr> max_capacity = 1 \<rparr>) = (s, inp, out)"
    by (cases "ring_io [Ring_Push (sample_packet 1), Ring_Push (sample_packet 2), Ring_Pop]
     (new_ring \<lparr> max_capacity = 1 \<rparr>)")
  from ring_fifo [OF io] io show ?thesis by auto
qed

text \<open>
  The counters account for every call: pushed and dropped sum to the calls of \<open>push\<close>, and the
  packets pushed are the ones popped and the ones still queued.
\<close>

theorem ring_counters:
  "let s = fold ring_step es (new_ring cfg)
   in rb_pushed s + rb_dropped s = of_nat (count_pushes es) \<and>
      rb_pushed s = rb_popped s + of_nat (length (rb_queue s))"
  using ring_run_counts [of es "new_ring cfg"] rbm.run_inv [OF rb_inv_new, of es cfg]
  by (simp add: Let_def rb_inv_def) (simp add: new_ring_def)

text \<open>
  The drop rate divides the drops by the accepted packets only, so it is no percentage: three
  packets offered to a full-at-one ring give 200.
\<close>

theorem drop_rate_exceeds_100:
  "drop_rate_percent (fold ring_step [Ring_Push p, Ring_Push q, Ring_Push r] (new_ring \<lparr> max_capacity = 1 \<rparr>)) = 200"
proof -
  have "dbl_of_nat 2 = 2" "dbl_of_nat 1 = 1" by (simp_all add: dbl_of_nat_exact)
  moreover have "rnd 2 = 2" "rnd 200 = 200" by (simp_all add: dbl.exact_numeral)
  ultimately show ?thesis
    by (simp add: new_ring_def rb_push_def drop_rate_percent_def dbl_of_word_def ddiv_def dmul_def)
qed

end
