(* ===== verification/Capture.thy ===== *)
theory Capture
  imports RingBuffer
begin

text \<open>
  \<open>include/Capturelayer.hpp\<close> and \<open>src/CaptureLayer.cpp\<close>: the choice of the interface, the callback
  that copies a frame into the ring, and the life of the capture thread.

  libpcap is outside the repository: the list of devices, the frames it delivers and whether a
  handle opens are arguments. The time stamp of a frame is computed without the bound of \<open>int64_t\<close>,
  which \<open>tv_sec\<close> would have to exceed by 292,000 years to matter. A thread object is \<open>No_Thread\<close>, or joinable, with its function still
  running or ended. Destroying or overwriting a joinable \<open>std::thread\<close> calls \<open>std::terminate\<close>, the
  outcome \<open>Terminated\<close>.
\<close>

section \<open>The interface\<close>

record pcap_device =
  dev_name :: string
  dev_up :: bool
  dev_running :: bool
  dev_loopback :: bool

datatype capture_error = Findalldevs_Failed | No_Interfaces | Open_Failed

fun discover_loop :: "pcap_device list \<Rightarrow> string \<Rightarrow> string \<Rightarrow> string \<times> string" where
  "discover_loop [] selected first_available = (selected, first_available)"
| "discover_loop (d # ds) selected first_available =
     (let first1 = (if first_available = [] then dev_name d else first_available);
          selected1 = (if selected = [] \<and> dev_up d \<and> dev_running d \<and> \<not> dev_loopback d
                       then dev_name d else selected)
      in discover_loop ds selected1 first1)"

text \<open>\<open>None\<close> is the failure of \<open>pcap_findalldevs\<close>, the empty list a null list.\<close>

definition discover_interface :: "pcap_device list option \<Rightarrow> capture_error + string" where
  "discover_interface devs =
     (case devs of
        None \<Rightarrow> Inl Findalldevs_Failed
      | Some [] \<Rightarrow> Inl No_Interfaces
      | Some ds \<Rightarrow>
          (let (selected, first_available) = discover_loop ds [] []
           in Inr (if selected = [] then first_available else selected)))"

section \<open>The callback\<close>

record pcap_header =
  ph_sec :: int
  ph_usec :: int
  ph_caplen :: u32
  ph_len :: u32

record capture_counts =
  cc_ring :: ring
  cc_captured :: u64
  cc_dropped :: u64

definition packet_callback :: "pcap_header \<Rightarrow> u8 list \<Rightarrow> capture_counts \<Rightarrow> capture_counts option" where
  "packet_callback h bytes c =
     do { pkt \<leftarrow> captured_packet_of bytes (ph_caplen h) (ph_len h) (ph_sec h * 1000000 + ph_usec h);
          let c1 = c\<lparr> cc_captured := cc_captured c + 1 \<rparr>;
              (r, accepted) = rb_push pkt (cc_ring c1);
              c2 = c1\<lparr> cc_ring := r \<rparr>
          in Some (if \<not> accepted then c2\<lparr> cc_dropped := cc_dropped c2 + 1 \<rparr> else c2) }"

section \<open>The thread\<close>

datatype thread_obj = No_Thread | Running_Thread | Ended_Thread

datatype 'a outcome = Ok 'a | Throws capture_error 'a | Terminated

record capture_layer =
  cl_running :: bool
  cl_thread :: thread_obj
  cl_handle :: bool
  cl_interface :: string

definition new_capture_layer :: capture_layer where
  "new_capture_layer = \<lparr> cl_running = False, cl_thread = No_Thread, cl_handle = False, cl_interface = [] \<rparr>"

text \<open>
  An exception leaves a state behind: the one in which the handlers run.

  \<open>start\<close>: the configured interface or a discovered one, the handle, the thread. Assigning to a
  joinable thread object terminates the program.
\<close>

definition cl_start :: "string \<Rightarrow> pcap_device list option \<Rightarrow> bool \<Rightarrow> capture_layer \<Rightarrow> capture_layer outcome" where
  "cl_start configured devs opens c =
     (if cl_running c then Ok c
      else case (if configured = [] then discover_interface devs else Inr configured) of
             Inl e \<Rightarrow> Throws e c
           | Inr iface \<Rightarrow>
               if \<not> opens then Throws Open_Failed (c\<lparr> cl_interface := iface \<rparr>)
               else if cl_thread c \<noteq> No_Thread then Terminated
               else Ok (c\<lparr> cl_interface := iface, cl_handle := True, cl_running := True,
                           cl_thread := Running_Thread \<rparr>))"

text \<open>\<open>producer_loop\<close> returns: \<open>pcap_loop\<close> was broken by the signal handler, or failed.\<close>

definition cl_producer_ends :: "capture_layer \<Rightarrow> capture_layer" where
  "cl_producer_ends c =
     (if cl_thread c = Running_Thread then c\<lparr> cl_running := False, cl_thread := Ended_Thread \<rparr> else c)"

definition cl_stop :: "capture_layer \<Rightarrow> capture_layer" where
  "cl_stop c =
     (if \<not> cl_running c then c
      else c\<lparr> cl_running := False, cl_thread := No_Thread, cl_handle := False \<rparr>)"

text \<open>The destructor: \<open>stop\<close>, then the destructor of the thread object.\<close>

definition cl_destroy :: "capture_layer \<Rightarrow> unit outcome" where
  "cl_destroy c = (if cl_thread (cl_stop c) \<noteq> No_Thread then Terminated else Ok ())"

section \<open>Lemmas\<close>

definition usable :: "pcap_device \<Rightarrow> bool" where
  "usable d \<longleftrightarrow> dev_up d \<and> dev_running d \<and> \<not> dev_loopback d"

lemma discover_loop_eq:
  "\<forall>d \<in> set ds. dev_name d \<noteq> [] \<Longrightarrow>
   discover_loop ds sel ini =
     (if sel = [] then (case filter usable ds of [] \<Rightarrow> [] | d # _ \<Rightarrow> dev_name d) else sel,
      if ini = [] then (case ds of [] \<Rightarrow> [] | d # _ \<Rightarrow> dev_name d) else ini)"
  by (induction ds sel ini rule: discover_loop.induct)
    (auto simp: Let_def usable_def split: list.splits)

lemma discover_interface_eq:
  assumes "\<forall>d \<in> set ds. dev_name d \<noteq> []" "ds \<noteq> []"
  shows "discover_interface (Some ds) =
     Inr (case filter usable ds of [] \<Rightarrow> dev_name (hd ds) | d # _ \<Rightarrow> dev_name d)"
proof -
  have "dev_name d \<noteq> []" if "filter usable ds = d # xs" for d xs
  proof -
    have "d \<in> set (filter usable ds)" using that by simp
    then show ?thesis using assms(1) by auto
  qed
  then show ?thesis
    using assms discover_loop_eq [OF assms(1), of "[]" "[]"]
    by (cases ds) (auto simp: discover_interface_def split: list.splits)
qed

text \<open>Every frame is counted once, and the callback's drop counter is the ring's.\<close>

definition cc_inv :: "capture_counts \<Rightarrow> bool" where
  "cc_inv c \<longleftrightarrow> cc_captured c = rb_pushed (cc_ring c) + rb_dropped (cc_ring c) \<and>
     cc_dropped c = rb_dropped (cc_ring c)"

lemma packet_callback_inv:
  "cc_inv c \<Longrightarrow> packet_callback h bytes c = Some c' \<Longrightarrow> cc_inv c'"
  by (auto simp: packet_callback_def cc_inv_def rb_push_def Let_def bind_eq_Some_conv
      split: if_splits)

lemma packet_callback_returns:
  assumes "unat (ph_caplen h) \<le> length bytes"
  shows "returns (\<lambda>c'. cc_captured c' = cc_captured c + 1) (packet_callback h bytes c)"
  unfolding packet_callback_def
  by (rule returns_bind [OF captured_packet_of_returns [OF assms]])
    (auto simp: Let_def returns_def split: prod.splits)

text \<open>What holds of the thread object at every point of the layer's life.\<close>

definition cl_inv :: "capture_layer \<Rightarrow> bool" where
  "cl_inv c \<longleftrightarrow> (cl_running c \<longleftrightarrow> cl_thread c = Running_Thread) \<and> (cl_running c \<longrightarrow> cl_handle c)"

datatype cl_event = Cl_Start string "pcap_device list option" bool | Cl_Producer_Ends | Cl_Stop

fun cl_step :: "cl_event \<Rightarrow> capture_layer \<Rightarrow> capture_layer" where
  "cl_step (Cl_Start conf devs opens) c = 
     (case cl_start conf devs opens c of Ok c' \<Rightarrow> c' | Throws e c' \<Rightarrow> c' | Terminated \<Rightarrow> c)"
| "cl_step Cl_Producer_Ends c = cl_producer_ends c"
| "cl_step Cl_Stop c = cl_stop c"

lemma cl_inv_new: "cl_inv new_capture_layer"
  by (simp add: cl_inv_def new_capture_layer_def)

interpretation clm: preserving cl_step cl_inv
proof
  fix c e
  assume "cl_inv c"
  then show "cl_inv (cl_step e c)"
    by (cases e)
      (auto simp: cl_inv_def cl_start_def cl_producer_ends_def cl_stop_def
        split: outcome.splits sum.splits if_splits)
qed

lemma cl_destroy_iff: "cl_inv c \<Longrightarrow> cl_destroy c = Terminated \<longleftrightarrow> cl_thread c = Ended_Thread"
  by (cases "cl_thread c") (auto simp: cl_inv_def cl_destroy_def cl_stop_def)

section \<open>Properties\<close>

text \<open>
  Every frame the callback copies is counted once as captured, and ends as one push or one drop
  of the ring; the callback's drop counter is the ring's.
\<close>

theorem callback_counts:
  assumes "cc_inv c" "packet_callback h bytes c = Some c'"
  shows "cc_captured c' = cc_captured c + 1 \<and>
     cc_captured c' = rb_pushed (cc_ring c') + rb_dropped (cc_ring c') \<and>
     cc_dropped c' = rb_dropped (cc_ring c')"
proof -
  have "cc_captured c' = cc_captured c + 1"
    using assms(2) by (auto simp: packet_callback_def Let_def rb_push_def bind_eq_Some_conv split: if_splits)
  then show ?thesis using packet_callback_inv [OF assms] by (simp add: cc_inv_def)
qed

definition sample_counts :: capture_counts where
  "sample_counts = \<lparr> cc_ring = new_ring \<lparr> max_capacity = 0 \<rparr>, cc_captured = 0, cc_dropped = 0 \<rparr>"

lemma callback_counts_witness:
  "\<exists>c'. packet_callback \<lparr> ph_sec = 1, ph_usec = 2, ph_caplen = 1, ph_len = 1 \<rparr> [7] sample_counts = Some c' \<and>
     cc_captured c' = 1 \<and> cc_dropped c' = rb_dropped (cc_ring c')"
proof -
  have inv: "cc_inv sample_counts" by (simp add: cc_inv_def sample_counts_def new_ring_def)
  obtain c' where c': "packet_callback \<lparr> ph_sec = 1, ph_usec = 2, ph_caplen = 1, ph_len = 1 \<rparr> [7] sample_counts = Some c'"
    by (simp add: packet_callback_def captured_packet_of_def bytes_at_def rb_push_def sample_counts_def
        new_ring_def)
  from callback_counts [OF inv c'] c' show ?thesis by (simp add: sample_counts_def)
qed

text \<open>
  Destroying the capture layer terminates the program exactly when its thread has ended by
  itself and was not joined since: \<open>stop\<close> returns early then, because the thread has cleared
  \<open>running_\<close>.
\<close>

theorem capture_destroy_terminates:
  "cl_destroy (fold cl_step es new_capture_layer) = Terminated \<longleftrightarrow>
     cl_thread (fold cl_step es new_capture_layer) = Ended_Thread"
  by (rule cl_destroy_iff [OF clm.run_inv [OF cl_inv_new]])

end
