(* ===== verification/Delivery.thy ===== *)
theory Delivery
  imports Alerts Config
begin

text \<open>
  \<open>include/Deliverylayer.hpp\<close> and \<open>src/DeliveryLayer.cpp\<close>: the alert queue, the writer thread that
  persists alerts and feeds the ring of recent ones, the start and the stop of the layer, and the
  text of the dashboard.

  SQLite is outside the repository: whether an \<open>INSERT\<close> succeeds is a function \<open>insert_ok\<close> of the
  row, an argument of every step that writes, and the outcomes of the calls in \<open>init_database\<close> are
  the record \<open>db_outcomes\<close>. \<open>dl_rows\<close> is the table of the database, \<open>dl_printed\<close> the alerts printed on
  standard output, \<open>dl_handled\<close> the calls of \<open>persist_alert\<close> in their order. Window drawing is not
  modelled; the columns of the alert list are (\<open>dashboard_rows\<close>).
\<close>

section \<open>State\<close>

record db_row =
  row_timestamp :: string
  row_threat_type :: string
  row_src_ip :: string
  row_dst_ip :: string
  row_src_port :: int
  row_dst_port :: int
  row_severity :: string
  row_description :: string
  row_observed :: real
  row_baseline :: real
  row_threshold :: real

definition row_of :: "threat_alert \<Rightarrow> db_row" where
  "row_of a = \<lparr> row_timestamp = c_str (al_timestamp_iso a),
     row_threat_type = attack_type_to_string (al_attack_type a),
     row_src_ip = c_str (al_src_ip a), row_dst_ip = c_str (al_dst_ip a),
     row_src_port = uint (al_src_port a), row_dst_port = uint (al_dst_port a),
     row_severity = severity_to_string (al_severity a),
     row_description = c_str (al_evidence_summary a), row_observed = al_observed_value a,
     row_baseline = al_baseline_value a, row_threshold = al_threshold_value a \<rparr>"

abbreviation (input) DISPLAY_RING_SIZE :: nat where "DISPLAY_RING_SIZE \<equiv> 50"

record delivery_layer =
  dl_db_open :: bool
  dl_stmt_ready :: bool
  dl_queue :: "threat_alert list"
  dl_display :: "threat_alert list"
  dl_running :: bool
  dl_persisted :: u64
  dl_ncurses :: bool
  dl_rows :: "db_row list"
  dl_printed :: "threat_alert list"
  dl_handled :: "threat_alert list"

definition new_delivery_layer :: delivery_layer where
  "new_delivery_layer = \<lparr> dl_db_open = False, dl_stmt_ready = False, dl_queue = [], dl_display = [],
     dl_running = False, dl_persisted = 0, dl_ncurses = False, dl_rows = [], dl_printed = [],
     dl_handled = [] \<rparr>"

section \<open>The writer\<close>

definition persist_alert :: "(db_row \<Rightarrow> bool) \<Rightarrow> threat_alert \<Rightarrow> delivery_layer \<Rightarrow> delivery_layer" where
  "persist_alert insert_ok a d =
     (let d1 = d\<lparr> dl_handled := dl_handled d @ [a] \<rparr>
      in if \<not> dl_db_open d1 \<or> \<not> dl_stmt_ready d1 then d1
         else if insert_ok (row_of a)
         then d1\<lparr> dl_rows := dl_rows d1 @ [row_of a], dl_persisted := dl_persisted d1 + 1 \<rparr>
         else d1)"

definition push_display :: "threat_alert \<Rightarrow> threat_alert list \<Rightarrow> threat_alert list" where
  "push_display a ring =
     (let ring1 = ring @ [a] in drop (length ring1 - DISPLAY_RING_SIZE) ring1)"

text \<open>One turn of the loop of \<open>writer_loop\<close>; with an empty queue it waits, or goes round.\<close>

definition writer_turn :: "(db_row \<Rightarrow> bool) \<Rightarrow> delivery_layer \<Rightarrow> delivery_layer" where
  "writer_turn insert_ok d =
     (if \<not> dl_running d then d
      else case dl_queue d of
             [] \<Rightarrow> d
           | a # rest \<Rightarrow>
               (let d1 = persist_alert insert_ok a (d\<lparr> dl_queue := rest \<rparr>);
                    d2 = (if \<not> dl_ncurses d1 then d1\<lparr> dl_printed := dl_printed d1 @ [a] \<rparr> else d1)
                in d2\<lparr> dl_display := push_display a (dl_display d2) \<rparr>))"

text \<open>The loop behind it, which empties the queue once \<open>running_\<close> is false.\<close>

function writer_drain :: "(db_row \<Rightarrow> bool) \<Rightarrow> delivery_layer \<Rightarrow> delivery_layer" where
  "writer_drain insert_ok d =
     (case dl_queue d of
        [] \<Rightarrow> d
      | a # rest \<Rightarrow> writer_drain insert_ok ((persist_alert insert_ok a d)\<lparr> dl_queue := rest \<rparr>))"
  by pat_completeness auto
termination by (relation "measure (\<lambda>(f, d). length (dl_queue d))") auto

declare writer_drain.simps [simp del]

section \<open>Start, stop and enqueue\<close>

text \<open>
  \<open>dl_db_open\<close> says that \<open>db_\<close> is not null, which \<open>sqlite3_open\<close> also leaves so when it fails, unless it
  has no memory for the handle (\<open>open_handle\<close>).
\<close>

record db_outcomes =
  open_ok :: bool
  open_handle :: bool
  ddl_ok :: bool
  prepare_ok :: bool

text \<open>
  \<open>Inl\<close> is the exception of \<open>init_database\<close> with the layer it leaves: \<open>running_\<close> is false, and a handle
  that was opened is not closed.
\<close>

datatype delivery_error = Cannot_Open_Db | Ddl_Failed | Prepare_Failed

definition init_database ::
  "db_outcomes \<Rightarrow> delivery_layer \<Rightarrow> (delivery_error \<times> delivery_layer) + delivery_layer" where
  "init_database out d =
     (if \<not> open_ok out then Inl (Cannot_Open_Db, d\<lparr> dl_db_open := open_handle out \<rparr>)
      else if \<not> ddl_ok out then Inl (Ddl_Failed, d\<lparr> dl_db_open := True \<rparr>)
      else if \<not> prepare_ok out then Inl (Prepare_Failed, d\<lparr> dl_db_open := True, dl_stmt_ready := False \<rparr>)
      else Inr (d\<lparr> dl_db_open := True, dl_stmt_ready := True \<rparr>))"

definition dl_start ::
  "db_outcomes \<Rightarrow> bool \<Rightarrow> delivery_layer \<Rightarrow> (delivery_error \<times> delivery_layer) + delivery_layer" where
  "dl_start out is_tty d =
     (if dl_running d then Inr d
      else case init_database out d of
             Inl failure \<Rightarrow> Inl failure
           | Inr d1 \<Rightarrow> Inr (d1\<lparr> dl_ncurses := is_tty, dl_running := True \<rparr>))"

text \<open>
  \<open>stop\<close> joins the writer, which by then has left its loop and emptied the queue. The turns that
  the writer still takes before it sees \<open>running_\<close> are turns of the run in front of \<open>stop\<close>.
\<close>

definition dl_stop :: "(db_row \<Rightarrow> bool) \<Rightarrow> delivery_layer \<Rightarrow> delivery_layer" where
  "dl_stop insert_ok d =
     (if \<not> dl_running d then d
      else (writer_drain insert_ok (d\<lparr> dl_running := False \<rparr>))
             \<lparr> dl_ncurses := False, dl_db_open := False, dl_stmt_ready := False \<rparr>)"

definition enqueue_alert :: "threat_alert \<Rightarrow> delivery_layer \<Rightarrow> delivery_layer" where
  "enqueue_alert a d = d\<lparr> dl_queue := dl_queue d @ [a] \<rparr>"

text \<open>\<open>delivery_fire_alert\<close>: without a layer the alert is only printed.\<close>

definition delivery_fire_alert ::
  "threat_alert \<Rightarrow> delivery_layer option \<times> string list \<Rightarrow> delivery_layer option \<times> string list" where
  "delivery_fire_alert a s =
     (case s of
        (Some d, out) \<Rightarrow> (Some (enqueue_alert a d), out)
      | (None, out) \<Rightarrow> (None, out @ [''[ALERT] '' @ attack_type_to_string (al_attack_type a) @ '' | '' @ al_src_ip a]))"

section \<open>The dashboard's text\<close>

definition severity_to_color_pair :: "severity \<Rightarrow> int" where
  "severity_to_color_pair s = (case s of LOW \<Rightarrow> 3 | MEDIUM \<Rightarrow> 4 | HIGH \<Rightarrow> 5 | CRITICAL \<Rightarrow> 6)"

definition format_double :: "real \<Rightarrow> nat \<Rightarrow> string" where
  "format_double v p = fixed_string p v"

text \<open>\<open>substr(0, n - 2)\<close>; for \<open>n < 2\<close> the unsigned subtraction wraps and the whole text is taken.\<close>

definition truncate_text :: "string \<Rightarrow> nat \<Rightarrow> string" where
  "truncate_text s n = (if length s \<le> n then s else (if n < 2 then s else take (n - 2) s) @ ''..'')"

definition short_time :: "string \<Rightarrow> string" where
  "short_time ts = (if length ts \<ge> 19 then take 8 (drop 11 ts) else ts)"

record dashboard_row =
  dr_color :: int
  dr_time :: string
  dr_src :: string
  dr_dst :: string
  dr_port :: nat
  dr_type :: string
  dr_severity :: string

definition dashboard_row_of :: "threat_alert \<Rightarrow> dashboard_row" where
  "dashboard_row_of a = \<lparr> dr_color = severity_to_color_pair (al_severity a),
     dr_time = short_time (al_timestamp_iso a), dr_src = truncate_text (al_src_ip a) 17,
     dr_dst = truncate_text (al_dst_ip a) 17, dr_port = unat (al_dst_port a),
     dr_type = truncate_text (attack_type_to_string (al_attack_type a)) 13,
     dr_severity = severity_to_string (al_severity a) \<rparr>"

text \<open>
  The sleep of a turn of \<open>dashboard_loop\<close>, in milliseconds. Without ncurses it is ten refresh
  intervals, computed in \<open>int\<close>: \<open>None\<close> when that overflows.
\<close>

definition dashboard_sleep_ms :: "bool \<Rightarrow> delivery_config \<Rightarrow> int option" where
  "dashboard_sleep_ms ncurses cfg =
     (if ncurses then Some (dashboard_refresh_ms cfg)
      else if dashboard_refresh_ms cfg * 10 > int_max then None else Some (dashboard_refresh_ms cfg * 10))"

text \<open>The loop over the ring from its end, \<open>row\<close> from 2 while it is below the height less one.\<close>

fun dashboard_loop :: "threat_alert list \<Rightarrow> int \<Rightarrow> int \<Rightarrow> dashboard_row list" where
  "dashboard_loop [] row wr = []"
| "dashboard_loop (a # as) row wr =
     (if row < wr - 1 then dashboard_row_of a # dashboard_loop as (row + 1) wr else [])"

definition dashboard_rows :: "int \<Rightarrow> delivery_layer \<Rightarrow> dashboard_row list" where
  "dashboard_rows wr d = dashboard_loop (rev (dl_display d)) 2 wr"

section \<open>Lemmas on the operations\<close>

lemma persist_alert_sel [simp]:
  "dl_queue (persist_alert f a d) = dl_queue d"
  "dl_display (persist_alert f a d) = dl_display d"
  "dl_running (persist_alert f a d) = dl_running d"
  "dl_ncurses (persist_alert f a d) = dl_ncurses d"
  "dl_printed (persist_alert f a d) = dl_printed d"
  "dl_handled (persist_alert f a d) = dl_handled d @ [a]"
  "dl_db_open (persist_alert f a d) = dl_db_open d"
  "dl_stmt_ready (persist_alert f a d) = dl_stmt_ready d"
  by (simp_all add: persist_alert_def Let_def)

lemma writer_drain_effect:
  "dl_queue (writer_drain f d) = [] \<and> dl_handled (writer_drain f d) = dl_handled d @ dl_queue d \<and>
   dl_display (writer_drain f d) = dl_display d \<and> dl_running (writer_drain f d) = dl_running d"
proof (induction f d rule: writer_drain.induct)
  case (1 f d)
  show ?case
  proof (cases "dl_queue d")
    case Nil
    then show ?thesis by (subst (1 2 3 4) writer_drain.simps) simp
  next
    case (Cons a rest)
    from 1 [OF Cons] show ?thesis
      by (subst (1 2 3 4) writer_drain.simps) (simp add: Cons)
  qed
qed

datatype dl_event = Dl_Start db_outcomes bool | Dl_Enqueue threat_alert | Dl_Turn "db_row \<Rightarrow> bool" | Dl_Stop "db_row \<Rightarrow> bool"

fun dl_step :: "dl_event \<Rightarrow> delivery_layer \<Rightarrow> delivery_layer" where
  "dl_step (Dl_Start out tty) d = (case dl_start out tty d of Inl (e, d') \<Rightarrow> d' | Inr d' \<Rightarrow> d')"
| "dl_step (Dl_Enqueue a) d = enqueue_alert a d"
| "dl_step (Dl_Turn f) d = writer_turn f d"
| "dl_step (Dl_Stop f) d = dl_stop f d"

fun enqueued :: "dl_event list \<Rightarrow> threat_alert list" where
  "enqueued [] = []"
| "enqueued (Dl_Enqueue a # es) = a # enqueued es"
| "enqueued (e # es) = enqueued es"

text \<open>No step loses, duplicates or reorders an alert.\<close>

lemma dl_start_frame:
  "dl_start out tty d = Inr d' \<or> dl_start out tty d = Inl (e, d') \<Longrightarrow> dl_handled d' = dl_handled d \<and> dl_queue d' = dl_queue d \<and>
     dl_display d' = dl_display d \<and> dl_rows d' = dl_rows d \<and> dl_persisted d' = dl_persisted d"
  by (auto simp: dl_start_def init_database_def split: if_splits)

lemma writer_turn_fifo:
  "dl_handled (writer_turn f d) @ dl_queue (writer_turn f d) = dl_handled d @ dl_queue d"
  by (simp add: writer_turn_def Let_def split: list.splits)

lemma dl_run_fifo:
  "dl_handled (fold dl_step es d) @ dl_queue (fold dl_step es d) = dl_handled d @ dl_queue d @ enqueued es"
proof (induction es arbitrary: d)
  case (Cons e es)
  show ?case
  proof (cases e)
    case (Dl_Start out tty)
    then show ?thesis
      using Cons [of "dl_step e d"] dl_start_frame [of out tty d] by (auto split: sum.splits)
  next
    case (Dl_Enqueue a)
    then show ?thesis using Cons [of "dl_step e d"] by (simp add: enqueue_alert_def)
  next
    case (Dl_Turn f)
    then show ?thesis using Cons [of "dl_step e d"] writer_turn_fifo [of f d]
      by (metis append.assoc dl_step.simps(3) enqueued.simps(4) fold_simps(2))
  next
    case (Dl_Stop f)
    then show ?thesis
      using Cons [of "dl_step e d"] writer_drain_effect [of f "d\<lparr>dl_running := False\<rparr>"]
      by (simp add: dl_stop_def)
  qed
qed simp

text \<open>The counter of persisted alerts is the number of rows; the ring never exceeds its size.\<close>

definition dl_inv :: "delivery_layer \<Rightarrow> bool" where
  "dl_inv d \<longleftrightarrow> dl_persisted d = of_nat (length (dl_rows d)) \<and> length (dl_display d) \<le> DISPLAY_RING_SIZE"

lemma dl_inv_new: "dl_inv new_delivery_layer"
  by (simp add: dl_inv_def new_delivery_layer_def)

lemma push_display_length: "length (push_display a ring) \<le> DISPLAY_RING_SIZE"
  by (simp add: push_display_def Let_def)

lemma persist_count:
  "dl_persisted d = of_nat (length (dl_rows d)) \<Longrightarrow>
   dl_persisted (persist_alert f a d) = of_nat (length (dl_rows (persist_alert f a d)))"
  by (simp add: persist_alert_def Let_def)

lemma drain_count:
  "dl_persisted d = of_nat (length (dl_rows d)) \<Longrightarrow>
   dl_persisted (writer_drain f d) = of_nat (length (dl_rows (writer_drain f d)))"
proof (induction f d rule: writer_drain.induct)
  case (1 f d)
  show ?case
  proof (cases "dl_queue d")
    case Nil
    then show ?thesis using 1(2) by (subst (1 2) writer_drain.simps) simp
  next
    case (Cons a rest)
    have "dl_persisted ((persist_alert f a d)\<lparr>dl_queue := rest\<rparr>) =
        of_nat (length (dl_rows ((persist_alert f a d)\<lparr>dl_queue := rest\<rparr>)))"
      using persist_count [OF 1(2)] by simp
    from 1(1) [OF Cons this] show ?thesis
      by (subst (1 2) writer_drain.simps) (simp add: Cons)
  qed
qed

interpretation dlm: preserving dl_step dl_inv
proof
  fix d e
  assume inv: "dl_inv d"
  show "dl_inv (dl_step e d)"
  proof (cases e)
    case (Dl_Start out tty)
    then show ?thesis using inv dl_start_frame [of out tty d] by (auto simp: dl_inv_def split: sum.splits)
  next
    case (Dl_Turn f)
    have "dl_persisted (persist_alert f a (d\<lparr>dl_queue := rest\<rparr>)) =
        of_nat (length (dl_rows (persist_alert f a (d\<lparr>dl_queue := rest\<rparr>))))" for a rest
      by (rule persist_count) (use inv in \<open>simp add: dl_inv_def\<close>)
    then show ?thesis
      using inv Dl_Turn push_display_length
      by (simp add: dl_inv_def writer_turn_def Let_def split: list.splits)
  next
    case (Dl_Stop f)
    have "dl_persisted (writer_drain f (d\<lparr>dl_running := False\<rparr>)) =
        of_nat (length (dl_rows (writer_drain f (d\<lparr>dl_running := False\<rparr>))))"
      by (rule drain_count) (use inv in \<open>simp add: dl_inv_def\<close>)
    then show ?thesis
      using inv Dl_Stop writer_drain_effect [of f "d\<lparr>dl_running := False\<rparr>"]
      by (simp add: dl_inv_def dl_stop_def)
  qed (use inv in \<open>simp add: dl_inv_def enqueue_alert_def\<close>)
qed

text \<open>With a working database every handled alert is a row, in order.\<close>

lemma drain_rows:
  assumes "dl_db_open d" "dl_stmt_ready d" "dl_rows d = map row_of (filter (\<lambda>a. f (row_of a)) (dl_handled d))"
  shows "dl_rows (writer_drain f d) = map row_of (filter (\<lambda>a. f (row_of a)) (dl_handled (writer_drain f d)))"
  using assms
proof (induction f d rule: writer_drain.induct)
  case (1 f d)
  show ?case
  proof (cases "dl_queue d")
    case Nil
    then show ?thesis using 1(4) by (subst (1 2) writer_drain.simps) simp
  next
    case (Cons a rest)
    let ?d = "(persist_alert f a d)\<lparr>dl_queue := rest\<rparr>"
    have "dl_db_open ?d" "dl_stmt_ready ?d" "dl_rows ?d = map row_of (filter (\<lambda>a. f (row_of a)) (dl_handled ?d))"
      using 1(2-4) by (simp_all add: persist_alert_def Let_def)
    from 1(1) [OF Cons this] show ?thesis by (subst (1 2) writer_drain.simps) (simp add: Cons)
  qed
qed

definition dl_live :: "(db_row \<Rightarrow> bool) \<Rightarrow> delivery_layer \<Rightarrow> bool" where
  "dl_live f d \<longleftrightarrow> dl_running d \<and> dl_db_open d \<and> dl_stmt_ready d \<and>
     dl_rows d = map row_of (filter (\<lambda>a. f (row_of a)) (dl_handled d)) \<and>
     dl_display d = drop (length (dl_handled d) - DISPLAY_RING_SIZE) (dl_handled d)"

lemma push_display_last:
  "push_display a (drop (length xs - DISPLAY_RING_SIZE) xs) =
     drop (length (xs @ [a]) - DISPLAY_RING_SIZE) (xs @ [a])"
proof (cases "length xs < DISPLAY_RING_SIZE")
  case False
  then have "drop (length xs - 50) xs @ [a] = drop (length xs - 50) (xs @ [a])" by simp
  moreover have "length (drop (length xs - 50) xs @ [a]) - 50 = 1" using False by simp
  moreover have "Suc (length xs - 50) = length xs - 49" using False by simp
  ultimately show ?thesis using False by (simp only: push_display_def Let_def) simp
qed (simp add: push_display_def)

lemma dl_live_enqueue: "dl_live f d \<Longrightarrow> dl_live f (enqueue_alert a d)"
  by (simp add: dl_live_def enqueue_alert_def)

lemma dl_live_turn: "dl_live f d \<Longrightarrow> dl_live f (writer_turn f d)"
proof (cases "dl_queue d")
  case (Cons a rest)
  assume "dl_live f d"
  then show ?thesis
    using Cons push_display_last [of a "dl_handled d"]
    by (simp add: dl_live_def writer_turn_def persist_alert_def Let_def)
qed (simp add: writer_turn_def dl_live_def)

lemma truncate_text_length: "2 \<le> n \<Longrightarrow> length (truncate_text s n) \<le> n"
  by (auto simp: truncate_text_def)

lemma dashboard_loop_eq:
  "dashboard_loop as row wr = map dashboard_row_of (take (nat (wr - 1 - row)) as)"
proof (induction as row wr rule: dashboard_loop.induct)
  case (2 a as row wr)
  show ?case
  proof (cases "row < wr - 1")
    case True
    then have "nat (wr - 1 - row) = Suc (nat (wr - 1 - (row + 1)))" by simp
    then show ?thesis using 2 True by simp
  qed simp
qed simp

section \<open>Properties\<close>

text \<open>
  No alert is lost, duplicated or reordered in the delivery layer: after any sequence of starts,
  stops, calls of \<open>enqueue_alert\<close> and turns of the writer, the alerts handled followed by the ones
  queued are the alerts enqueued.
\<close>

theorem delivery_fifo:
  "dl_handled (fold dl_step es new_delivery_layer) @ dl_queue (fold dl_step es new_delivery_layer) = enqueued es"
  using dl_run_fifo [of es new_delivery_layer] by (simp add: new_delivery_layer_def)

text \<open>
  Stopping a running layer handles every queued alert, in order, before the database is closed,
  and the counter of persisted alerts stays the number of rows.
\<close>

theorem stop_drains_queue:
  assumes "dl_running d" "dl_inv d"
  shows "dl_queue (dl_stop f d) = [] \<and> dl_handled (dl_stop f d) = dl_handled d @ dl_queue d \<and>
     \<not> dl_running (dl_stop f d) \<and> \<not> dl_db_open (dl_stop f d) \<and>
     dl_persisted (dl_stop f d) = of_nat (length (dl_rows (dl_stop f d)))"
  using assms(1) writer_drain_effect [of f "d\<lparr>dl_running := False\<rparr>"] dlm.step_inv [OF assms(2), of "Dl_Stop f"]
  by (simp add: dl_stop_def dl_inv_def)

text \<open>
  A start that fails behind the opening of the database leaves its handle open, and \<open>stop\<close> does not
  close it: it returns early, because the layer is not running.
\<close>

lemma init_failure_leaves_handle:
  assumes "\<not> dl_running d" "open_ok out" "\<not> ddl_ok out \<or> \<not> prepare_ok out"
  shows "\<exists>e d'. dl_start out tty d = Inl (e, d') \<and> dl_db_open (dl_stop f d')"
  using assms by (auto simp: dl_start_def init_database_def dl_stop_def)

definition started_layer :: "bool \<Rightarrow> delivery_layer" where
  "started_layer tty = new_delivery_layer\<lparr> dl_db_open := True, dl_stmt_ready := True, dl_ncurses := tty,
     dl_running := True \<rparr>"

definition sample_alert :: threat_alert where
  "sample_alert = new_alert ''2024-01-01T00:00:00Z'' 0 PORT_SCAN HIGH ''10.0.0.1'' ''10.0.0.2'' 1 2 ''x''"

lemma stop_drains_queue_witness:
  "dl_handled (dl_stop (\<lambda>_. True) (enqueue_alert sample_alert (started_layer False))) = [sample_alert]"
  using stop_drains_queue [of "enqueue_alert sample_alert (started_layer False)" "\<lambda>_. True"]
  by (simp add: started_layer_def enqueue_alert_def new_delivery_layer_def dl_inv_def)

text \<open>
  On a started layer the table holds the rows of the handled alerts whose insertion succeeded,
  in order, and the dashboard's ring is the last 50 alerts handled.
\<close>

theorem display_and_rows:
  assumes "\<forall>e \<in> set es. e = Dl_Turn f \<or> e \<in> range Dl_Enqueue"
  shows "let d = fold dl_step es (started_layer tty)
     in dl_rows d = map row_of (filter (\<lambda>a. f (row_of a)) (dl_handled d)) \<and>
        dl_display d = drop (length (dl_handled d) - 50) (dl_handled d)"
proof -
  have "dl_live f (fold dl_step es d)" if "dl_live f d" for d
    using assms that by (induction es arbitrary: d) (auto simp: dl_live_enqueue dl_live_turn)
  moreover have "dl_live f (started_layer tty)"
    by (simp add: dl_live_def started_layer_def new_delivery_layer_def)
  ultimately show ?thesis by (simp add: dl_live_def Let_def)
qed

lemma display_and_rows_witness:
  "dl_display (fold dl_step [Dl_Enqueue sample_alert, Dl_Turn (\<lambda>_. True)] (started_layer True)) = [sample_alert] \<and>
   dl_rows (fold dl_step [Dl_Enqueue sample_alert, Dl_Turn (\<lambda>_. True)] (started_layer True)) = [row_of sample_alert]"
proof -
  have "dl_handled (fold dl_step [Dl_Enqueue sample_alert, Dl_Turn (\<lambda>_. True)] (started_layer True)) = [sample_alert]"
    by (simp add: enqueue_alert_def writer_turn_def started_layer_def new_delivery_layer_def Let_def)
  then show ?thesis
    using display_and_rows [of "[Dl_Enqueue sample_alert, Dl_Turn (\<lambda>_. True)]" "\<lambda>_. True" True]
    by (simp add: Let_def)
qed

end
