(* ===== verification/Pipeline.thy ===== *)
theory Pipeline
  imports AlertRules Dissector FlowTracker Capture Delivery
begin

text \<open>
  \<open>src/main.cpp\<close>: the consumer thread that drives dissection, flow tracking and detection, the
  statistics, the signal handler, and the order in which \<open>main\<close> starts and stops the layers.

  The consumer's turn takes the clock readings of its calls as the record \<open>turn_clocks\<close>. An alert
  that \<open>inspect\<close> fires goes through \<open>delivery_fire_alert\<close> into the delivery layer's queue; between
  two calls nothing else runs in the consumer, so the alerts of a turn are enqueued in the order of
  the detector's log.
\<close>

section \<open>The consumer\<close>

record turn_clocks =
  tc_flow_now :: ns
  tc_flow_new :: ns
  tc_now :: ns
  tc_detector :: clocks

record pipeline =
  pl_flows :: flow_table
  pl_detector :: detector
  pl_delivery :: delivery_layer
  pl_processed :: u64

definition new_pipeline :: "config \<Rightarrow> delivery_layer \<Rightarrow> pipeline" where
  "new_pipeline cfg d = \<lparr> pl_flows = new_flow_table (flow_tracker cfg), pl_detector = new_detector cfg,
     pl_delivery = d, pl_processed = 0 \<rparr>"

definition fired_since :: "detector \<Rightarrow> detector \<Rightarrow> threat_alert list" where
  "fired_since d d' = map snd (drop (length (td_fired d)) (td_fired d'))"

definition detect :: "turn_clocks \<Rightarrow> packet_info \<Rightarrow> pipeline \<Rightarrow> pipeline" where
  "detect tc info pl =
     (let d' = inspect (tc_detector tc) info (tc_now tc) (pl_detector pl)
      in pl\<lparr> pl_detector := d',
             pl_delivery := fold enqueue_alert (fired_since (pl_detector pl) d') (pl_delivery pl) \<rparr>)"

definition consume ::
  "(string \<Rightarrow> u8 list option) \<Rightarrow> turn_clocks \<Rightarrow> captured_packet \<Rightarrow> pipeline \<Rightarrow> pipeline option" where
  "consume inet_pton tc pkt pl =
     do { info \<leftarrow> dissect_packet pkt;
          let pl1 = (if valid info
                     then pl\<lparr> pl_flows := fst (ft_update inet_pton info (tc_flow_now tc) (tc_flow_new tc) (pl_flows pl)) \<rparr>
                     else pl);
              pl2 = (if valid info then detect tc info pl1 else pl1)
          in Some (pl2\<lparr> pl_processed := pl_processed pl2 + 1 \<rparr>) }"

text \<open>
  The loop: the ring at the loop head, and for every packet popped the clock readings and the value
  of \<open>g_shutdown_flag\<close> behind the turn. Beside the pipeline and the ring, the result says where the
  thread then is: the list of turns is used up, the thread waits in \<open>pop\<close> for a packet, \<open>pop\<close> has
  returned false, or the flag was seen. Only the last two are ends of the loop.
\<close>

datatype consumer_end = Turns_Over | Waiting_In_Pop | Pop_Returned_False | Flag_Seen

fun consumer_loop ::
  "(string \<Rightarrow> u8 list option) \<Rightarrow> (turn_clocks \<times> bool) list \<Rightarrow> ring \<Rightarrow> pipeline \<Rightarrow>
   (pipeline \<times> ring \<times> consumer_end) option" where
  "consumer_loop inet_pton [] r pl = Some (pl, r, Turns_Over)"
| "consumer_loop inet_pton ((tc, shutdown) # turns) r pl =
     (case rb_pop r of
        (r', Popped pkt) \<Rightarrow>
          do { pl' \<leftarrow> consume inet_pton tc pkt pl;
               if shutdown then Some (pl', r', Flag_Seen) else consumer_loop inet_pton turns r' pl' }
      | (r', Pop_Blocked) \<Rightarrow> Some (pl, r', Waiting_In_Pop)
      | (r', Pop_Finished) \<Rightarrow> Some (pl, r', Pop_Returned_False))"

section \<open>Statistics\<close>

record engine_stats =
  es_packets_captured :: u64
  es_packets_dropped_ring :: u64
  es_packets_dropped_kernel :: u64
  es_ring_queue_depth :: nat
  es_active_flows :: u64
  es_total_alerts :: u64
  es_capture_pps :: real
  es_drop_rate_pct :: real

definition collect_stats :: "ring option \<Rightarrow> flow_table option \<Rightarrow> delivery_layer option \<Rightarrow> ns \<Rightarrow> ns \<Rightarrow> engine_stats" where
  "collect_stats ring flows deliv start now =
     (let captured = (case ring of None \<Rightarrow> 0 | Some r \<Rightarrow> rb_pushed r);
          uptime = seconds (now - start)
      in \<lparr> es_packets_captured = captured,
           es_packets_dropped_ring = (case ring of None \<Rightarrow> 0 | Some r \<Rightarrow> rb_dropped r),
           es_packets_dropped_kernel = 0,
           es_ring_queue_depth = (case ring of None \<Rightarrow> 0 | Some r \<Rightarrow> rb_size r),
           es_active_flows = (case flows of None \<Rightarrow> 0 | Some f \<Rightarrow> ft_active f),
           es_total_alerts = (case deliv of None \<Rightarrow> 0 | Some d \<Rightarrow> dl_persisted d),
           es_capture_pps = (if uptime > 0 then ddiv (dbl_of_word captured) uptime else 0),
           es_drop_rate_pct = (case ring of None \<Rightarrow> 0 | Some r \<Rightarrow> drop_rate_percent r) \<rparr>)"

section \<open>Start and stop\<close>

text \<open>
  The part of the program's state that decides how it ends: the shutdown flag, the ring, the capture
  layer, the delivery layer (running or not) and the two other thread objects.
\<close>

record engine =
  en_shutdown :: bool
  en_ring :: ring
  en_capture :: capture_layer
  en_delivery :: delivery_layer
  en_reaper :: thread_obj
  en_consumer :: thread_obj

definition signal_handler :: "engine \<Rightarrow> engine" where
  "signal_handler e = e\<lparr> en_shutdown := True, en_ring := rb_shutdown_op (en_ring e) \<rparr>"

datatype exit_status = Exit_Success | Exit_Failure | Std_Terminate

text \<open>What the environment decides in a run of \<open>main\<close> after the arguments are parsed.\<close>

record scenario =
  sc_db :: db_outcomes
  sc_tty :: bool
  sc_devices :: "pcap_device list option"
  sc_handle_opens :: bool
  sc_producer_first :: bool
  sc_insert_ok :: "db_row \<Rightarrow> bool"

definition stop_reaper :: "engine \<Rightarrow> engine" where
  "stop_reaper e = e\<lparr> en_reaper := No_Thread \<rparr>"

text \<open>
  The end of \<open>main\<close>: the objects are destroyed. \<open>~DeliveryLayer\<close> and \<open>~FlowTracker\<close> stop and join;
  \<open>~CaptureLayer\<close> is \<open>cl_destroy\<close>.
\<close>

definition main_destroy :: "exit_status \<Rightarrow> engine \<Rightarrow> exit_status" where
  "main_destroy code e = (case cl_destroy (en_capture e) of Ok _ \<Rightarrow> code | _ \<Rightarrow> Std_Terminate)"

definition new_engine :: "config \<Rightarrow> engine" where
  "new_engine cfg = \<lparr> en_shutdown = False, en_ring = new_ring (ring_buffer cfg),
     en_capture = new_capture_layer, en_delivery = new_delivery_layer, en_reaper = No_Thread,
     en_consumer = No_Thread \<rparr>"

text \<open>The handler of \<open>catch (const std::exception&)\<close>, and what follows it.\<close>

definition main_catch :: "scenario \<Rightarrow> engine \<Rightarrow> exit_status" where
  "main_catch sc e =
     (let e1 = e\<lparr> en_shutdown := True, en_ring := rb_shutdown_op (en_ring e),
                  en_delivery := dl_stop (sc_insert_ok sc) (en_delivery e) \<rparr>;
          e2 = stop_reaper e1;
          e3 = e2\<lparr> en_capture := cl_stop (en_capture e2) \<rparr>
      in main_destroy Exit_Failure e3)"

text \<open>
  Behind \<open>consumer.join()\<close>, which returns once the shutdown flag or the ring's flag is set:
  \<open>sc_producer_first\<close> says whether the capture thread has left \<open>producer_loop\<close> before \<open>main\<close> calls
  \<open>stop\<close>. The signal handler breaks \<open>pcap_loop\<close> before it wakes the consumer, so both orders occur.
\<close>

definition main_shutdown :: "scenario \<Rightarrow> engine \<Rightarrow> exit_status" where
  "main_shutdown sc e =
     (let e1 = signal_handler (e\<lparr> en_consumer := No_Thread \<rparr>);
          e2 = (if sc_producer_first sc then e1\<lparr> en_capture := cl_producer_ends (en_capture e1) \<rparr> else e1);
          e3 = e2\<lparr> en_capture := cl_stop (en_capture e2) \<rparr>;
          e4 = stop_reaper e3;
          e5 = e4\<lparr> en_delivery := dl_stop (sc_insert_ok sc) (en_delivery e4) \<rparr>
      in main_destroy Exit_Success e5)"

text \<open>
  The \<open>try\<close> block of \<open>main\<close>. The thread object \<open>consumer\<close> is local to it: an exception of
  \<open>g_capture->start()\<close> destroys it, joinable, before any handler runs. \<open>None\<close> is undefined behaviour:
  the dashboard thread that \<open>g_delivery->start()\<close> creates overflows an \<open>int\<close> when it computes its sleep.
\<close>

definition main_run :: "config \<Rightarrow> scenario \<Rightarrow> exit_status option" where
  "main_run cfg sc =
     (let e = new_engine cfg
      in case dl_start (sc_db sc) (sc_tty sc) (en_delivery e) of
           Inl (_, d) \<Rightarrow> Some (main_catch sc (e\<lparr> en_delivery := d \<rparr>))
         | Inr d \<Rightarrow>
             do { _ \<leftarrow> dashboard_sleep_ms (dl_ncurses d) (delivery cfg);
                  let e1 = e\<lparr> en_delivery := d, en_reaper := Running_Thread, en_consumer := Running_Thread \<rparr>
                  in Some (case cl_start (cap_interface (capture cfg)) (sc_devices sc) (sc_handle_opens sc) (en_capture e1) of
                       Ok c \<Rightarrow> main_shutdown sc (e1\<lparr> en_capture := c \<rparr>)
                     | Throws err c \<Rightarrow>
                         if en_consumer e1 \<noteq> No_Thread then Std_Terminate
                         else main_catch sc (e1\<lparr> en_capture := c \<rparr>)
                     | Terminated \<Rightarrow> Std_Terminate) })"

definition capture_opens :: "config \<Rightarrow> scenario \<Rightarrow> bool" where
  "capture_opens cfg sc \<longleftrightarrow> sc_handle_opens sc \<and>
     (cap_interface (capture cfg) \<noteq> [] \<or> (\<exists>iface. discover_interface (sc_devices sc) = Inr iface))"

definition db_opens :: "scenario \<Rightarrow> bool" where
  "db_opens sc \<longleftrightarrow> open_ok (sc_db sc) \<and> ddl_ok (sc_db sc) \<and> prepare_ok (sc_db sc)"

section \<open>Lemmas on the consumer\<close>

lemma fired_since_grows:
  "grows_by src now kinds d d' \<Longrightarrow> \<exists>new. fired_since d d' = map snd new \<and> td_fired d' = td_fired d @ new \<and>
     (\<forall>(t, a) \<in> set new. t = now \<and> al_src_ip a = src)"
  by (auto simp: grows_by_def fired_since_def)

lemma fold_enqueue:
  "dl_queue (fold enqueue_alert as d) = dl_queue d @ as \<and> dl_handled (fold enqueue_alert as d) = dl_handled d"
  by (induction as arbitrary: d) (simp_all add: enqueue_alert_def)

text \<open>The alerts that reached the delivery layer, handled or still queued, are the ones fired.\<close>

definition pl_inv :: "pipeline \<Rightarrow> bool" where
  "pl_inv pl \<longleftrightarrow> ft_inv (pl_flows pl) \<and>
     dl_handled (pl_delivery pl) @ dl_queue (pl_delivery pl) = map snd (td_fired (pl_detector pl))"

lemma pl_inv_new:
  "dl_handled d = [] \<Longrightarrow> dl_queue d = [] \<Longrightarrow> pl_inv (new_pipeline cfg d)"
  by (simp add: pl_inv_def new_pipeline_def new_detector_def ft_inv_new)

lemma detect_inv: "pl_inv pl \<Longrightarrow> pl_inv (detect tc info pl)"
  using inspect_grows [of info "tc_now tc" "pl_detector pl" "tc_detector tc"]
  by (auto simp: pl_inv_def detect_def Let_def fold_enqueue grows_by_def fired_since_def)

lemma consume_returns:
  assumes "captured_ok pkt" "pl_inv pl"
  shows "returns (\<lambda>pl'. pl_inv pl' \<and> pl_processed pl' = pl_processed pl + 1) (consume inet_pton tc pkt pl)"
proof -
  have flows: "pl_inv (pl\<lparr> pl_flows := fst (ft_update inet_pton info n c (pl_flows pl)) \<rparr>)" for info n c
    using assms(2) ft_update_inv by (simp add: pl_inv_def)
  have proc: "pl_inv (pl'\<lparr> pl_processed := n \<rparr>) = pl_inv pl'" for pl' n
    by (simp add: pl_inv_def)
  have cnt: "pl_processed (detect tc info pl') = pl_processed pl'" for info pl'
    by (simp add: detect_def Let_def)
  show ?thesis
    unfolding consume_def
    by (rule returns_bind [OF dissect_packet_returns_lemma [OF assms(1)]])
      (simp add: Let_def returns_Some proc cnt flows detect_inv assms(2))
qed

lemma rb_pop_cases:
  "rb_pop r = (r', Popped pkt) \<Longrightarrow> rb_queue r = pkt # rb_queue r'"
  by (auto simp: rb_pop_def split: if_splits list.splits)

text \<open>Where the thread is, and what that says of the ring and of the packets seen.\<close>

definition end_ok :: "(turn_clocks \<times> bool) list \<Rightarrow> captured_packet list \<Rightarrow> ring \<Rightarrow> consumer_end \<Rightarrow> bool" where
  "end_ok turns seen r e =
     (case e of
        Turns_Over \<Rightarrow> length seen = length turns \<and> list_all (Not \<circ> snd) turns
      | Waiting_In_Pop \<Rightarrow> rb_queue r = [] \<and> \<not> rb_shut r \<and> length seen < length turns
      | Pop_Returned_False \<Rightarrow> rb_queue r = [] \<and> rb_shut r \<and> length seen < length turns
      | Flag_Seen \<Rightarrow> seen \<noteq> [] \<and> length seen \<le> length turns \<and> snd (turns ! (length seen - 1)))"

lemma end_ok_Cons: "end_ok turns seen r e \<Longrightarrow> end_ok ((tc, False) # turns) (p # seen) r e"
  by (auto simp: end_ok_def nth_Cons split: consumer_end.splits nat.split)

lemma rb_pop_stops:
  "rb_pop r = (r', Pop_Blocked) \<Longrightarrow> r' = r \<and> rb_queue r = [] \<and> \<not> rb_shut r"
  "rb_pop r = (r', Pop_Finished) \<Longrightarrow> r' = r \<and> rb_queue r = [] \<and> rb_shut r"
  by (auto simp: rb_pop_def rb_ready_def split: if_splits list.splits)

definition loop_result :: "(turn_clocks \<times> bool) list \<Rightarrow> ring \<Rightarrow> pipeline \<Rightarrow> pipeline \<times> ring \<times> consumer_end \<Rightarrow> bool" where
  "loop_result turns r pl = (\<lambda>(pl', r', e). pl_inv pl' \<and> (\<exists>seen. rb_queue r = seen @ rb_queue r' \<and>
       pl_processed pl' = pl_processed pl + of_nat (length seen) \<and> end_ok turns seen r' e))"

lemma loop_result_Cons:
  "loop_result turns r' pl1 x \<Longrightarrow> rb_queue r = pkt # rb_queue r' \<Longrightarrow> pl_processed pl1 = pl_processed pl + 1 \<Longrightarrow>
   loop_result ((tc, False) # turns) r pl x"
  by (fastforce simp: loop_result_def intro: end_ok_Cons)

lemma consumer_loop_returns:
  assumes "\<forall>p \<in> set (rb_queue r). captured_ok p" "pl_inv pl"
  shows "returns (loop_result turns r pl) (consumer_loop inet_pton turns r pl)"
  using assms
proof (induction inet_pton turns r pl rule: consumer_loop.induct)
  case (1 inet_pton r pl)
  then show ?case by (auto intro: returns_Some simp: loop_result_def end_ok_def)
next
  case (2 inet_pton tc shutdown turns r pl)
  obtain r' o1 where pop: "rb_pop r = (r', o1)" by fastforce
  show ?case
  proof (cases o1)
    case (Popped pkt)
    have q: "rb_queue r = pkt # rb_queue r'" using rb_pop_cases pop Popped by simp
    then have ok: "captured_ok pkt" "\<forall>p \<in> set (rb_queue r'). captured_ok p" using 2(2) by simp_all
    obtain pl1 where pl1: "consume inet_pton tc pkt pl = Some pl1" "pl_inv pl1"
      "pl_processed pl1 = pl_processed pl + 1"
      using consume_returns [OF ok(1) 2(3)] by (auto simp: returns_iff)
    show ?thesis
    proof (cases shutdown)
      case True
      then show ?thesis using pl1 q pop Popped
        by (auto simp: returns_def loop_result_def end_ok_def intro!: exI [of _ "[pkt]"])
    next
      case False
      have "returns (loop_result turns r' pl1) (consumer_loop inet_pton turns r' pl1)"
        by (rule 2(1) [OF pop [symmetric] Popped pl1(1) False ok(2) pl1(2)])
      then have "returns (loop_result ((tc, False) # turns) r pl) (consumer_loop inet_pton turns r' pl1)"
        by (rule returns_mono) (rule loop_result_Cons [OF _ q pl1(3)])
      then show ?thesis using pop Popped pl1(1) False by simp
    qed
  qed (use pop 2(3) in \<open>auto dest: rb_pop_stops simp: loop_result_def end_ok_def intro!: returns_Some\<close>)
qed

section \<open>Properties\<close>

text \<open>
  Claim C1. The consumer survives every input: whatever well-formed captures are in the ring, the loop
  makes no read outside a frame; it has processed a prefix of the queue, each packet once, in
  order; the alerts fired are, in order, the alerts that reached the delivery layer; and the flow
  table keeps its invariant. When the thread is then waiting in \<open>pop\<close>, or \<open>pop\<close> has returned false,
  the queue is empty: it waits only on a ring that is not shut down, and is let go only by one that
  is.
\<close>

theorem consumer_safe:
  assumes "list_all captured_ok (rb_queue r)" "dl_handled d = []" "dl_queue d = []"
  shows "\<exists>pl r' e seen. consumer_loop inet_pton turns r (new_pipeline cfg d) = Some (pl, r', e) \<and>
     rb_queue r = seen @ rb_queue r' \<and> pl_processed pl = of_nat (length seen) \<and>
     dl_handled (pl_delivery pl) @ dl_queue (pl_delivery pl) = map snd (td_fired (pl_detector pl)) \<and>
     ft_inv (pl_flows pl) \<and>
     (e = Waiting_In_Pop \<longrightarrow> rb_queue r' = [] \<and> \<not> rb_shut r') \<and>
     (e = Pop_Returned_False \<longrightarrow> rb_queue r' = [] \<and> rb_shut r') \<and>
     (e = Turns_Over \<longrightarrow> length seen = length turns)"
proof -
  have "\<forall>p \<in> set (rb_queue r). captured_ok p" using assms(1) by (simp add: list_all_iff)
  from consumer_loop_returns [OF this pl_inv_new [OF assms(2,3), of cfg], of turns inet_pton]
  obtain pl r' e seen where "consumer_loop inet_pton turns r (new_pipeline cfg d) = Some (pl, r', e)"
    "pl_inv pl" "rb_queue r = seen @ rb_queue r'" "end_ok turns seen r' e"
    "pl_processed pl = pl_processed (new_pipeline cfg d) + of_nat (length seen)"
    by (auto simp: returns_iff loop_result_def)
  then show ?thesis
    by (intro exI [of _ pl] exI [of _ r'] exI [of _ e] exI [of _ seen])
      (auto simp: pl_inv_def new_pipeline_def end_ok_def)
qed

definition sample_ring :: ring where
  "sample_ring = (new_ring \<lparr> max_capacity = 2 \<rparr>)\<lparr> rb_queue := [short_frame, short_frame], rb_pushed := 2 \<rparr>"

definition sample_turn :: turn_clocks where
  "sample_turn = \<lparr> tc_flow_now = 0, tc_flow_new = 0, tc_now = 0,
     tc_detector = \<lparr> ck_ewma = 0, ck_syn = 0, ck_scan = 0, ck_port = 0, ck_stamp = (\<lambda>_. []), ck_alert = (\<lambda>_. 0) \<rparr> \<rparr>"

lemma sample_ring_ok: "list_all captured_ok (rb_queue sample_ring)"
  by (simp add: sample_ring_def captured_ok_def short_frame_def)

lemma consumer_safe_witness:
  "\<exists>pl r' seen. consumer_loop (\<lambda>_. None) [(sample_turn, False)] sample_ring
     (new_pipeline default_config new_delivery_layer) = Some (pl, r', Turns_Over) \<and>
     rb_queue sample_ring = seen @ rb_queue r' \<and> length seen = 1"
proof -
  from consumer_safe [OF sample_ring_ok, of new_delivery_layer "\<lambda>_. None" "[(sample_turn, False)]" default_config]
  obtain pl r' e seen where r: "consumer_loop (\<lambda>_. None) [(sample_turn, False)] sample_ring
      (new_pipeline default_config new_delivery_layer) = Some (pl, r', e)"
    "rb_queue sample_ring = seen @ rb_queue r'" "e = Turns_Over \<longrightarrow> length seen = 1"
    by (auto simp: new_delivery_layer_def)
  have "e = Turns_Over" using r(1)
    by (auto simp: sample_ring_def rb_pop_def rb_ready_def bind_eq_Some_conv)
  with r show ?thesis by auto
qed

text \<open>
  A consumer that sees the shutdown flag behind a turn leaves the rest of the queue unprocessed:
  the ring is not drained.
\<close>

theorem shutdown_leaves_queue:
  assumes "captured_ok p" "rb_queue r = p # rest" "pl_inv pl"
  shows "\<exists>pl' r'. consumer_loop inet_pton ((tc, True) # turns) r pl = Some (pl', r', Flag_Seen) \<and> rb_queue r' = rest \<and>
     pl_processed pl' = pl_processed pl + 1"
proof -
  obtain pl' where "consume inet_pton tc p pl = Some pl'" "pl_processed pl' = pl_processed pl + 1"
    using consume_returns [OF assms(1,3)] by (auto simp: returns_iff)
  moreover have "rb_pop r = (r\<lparr> rb_queue := rest, rb_popped := rb_popped r + 1 \<rparr>, Popped p)"
    using assms(2) by (simp add: rb_pop_def rb_ready_def)
  ultimately show ?thesis by auto
qed

lemma shutdown_leaves_queue_witness:
  "\<exists>pl' r'. consumer_loop (\<lambda>_. None) [(sample_turn, True)] sample_ring
     (new_pipeline default_config new_delivery_layer) = Some (pl', r', Flag_Seen) \<and> rb_queue r' = [short_frame]"
proof -
  have "captured_ok short_frame" by (simp add: captured_ok_def short_frame_def)
  moreover have "rb_queue sample_ring = [short_frame, short_frame]" by (simp add: sample_ring_def)
  moreover have "pl_inv (new_pipeline default_config new_delivery_layer)"
    by (rule pl_inv_new) (simp_all add: new_delivery_layer_def)
  ultimately show ?thesis
    using shutdown_leaves_queue [of short_frame sample_ring "[short_frame]"
        "new_pipeline default_config new_delivery_layer" "\<lambda>_. None" sample_turn "[]"] by blast
qed

text \<open>
  How a run of \<open>main\<close> ends: a database that does not open is reported as a failure; a dashboard sleep
  that overflows is undefined behaviour; a capture
  handle that does not open terminates the program, because the exception destroys the joinable
  consumer thread; and a run that is stopped ends normally only if the capture thread is still in its
  loop when \<open>stop\<close> is called.
\<close>

theorem main_exit:
  "main_run cfg sc =
     (if \<not> db_opens sc then Some Exit_Failure
      else if dashboard_sleep_ms (sc_tty sc) (delivery cfg) = None then None
      else if \<not> capture_opens cfg sc then Some Std_Terminate
      else if sc_producer_first sc then Some Std_Terminate else Some Exit_Success)"
  by (auto simp: main_run_def new_engine_def db_opens_def capture_opens_def dl_start_def init_database_def
      new_delivery_layer_def main_catch_def main_destroy_def cl_destroy_def cl_stop_def
      new_capture_layer_def stop_reaper_def cl_start_def main_shutdown_def signal_handler_def
      cl_producer_ends_def Let_def bind_eq_None_conv split: sum.splits if_splits option.splits bind_splits)

end
