(* ===== verification/CaptureRun.thy ===== *)
theory CaptureRun
  imports Pipeline
begin

text \<open>
  \<open>CaptureLayer\<close> over libpcap: the calls with which \<open>open_pcap_handle_for_interface\<close> opens a handle,
  \<open>start\<close> and \<open>stop\<close> with these calls, what \<open>producer_loop\<close> reports when \<open>pcap_loop\<close> returns, and what one
  call of the callback does. The run of \<open>pcap_loop\<close> against the other threads is in \<open>LiveRun\<close>.

  libpcap is outside the repository. \<open>pcap_api\<close> holds the results it gives (whether \<open>pcap_create\<close>
  returns a handle, the return code of \<open>pcap_activate\<close>); the calls made are recorded in order as
  \<open>pcap_call\<close>. That a frame holds the \<open>caplen\<close> bytes its header announces (\<open>frame_ok\<close>) is libpcap's
  promise.
\<close>

section \<open>Opening a handle\<close>

datatype pcap_call = Pcap_Create string | Pcap_Set_Snaplen int | Pcap_Set_Promisc int
  | Pcap_Set_Buffer_Size int | Pcap_Set_Timeout int | Pcap_Activate | Pcap_Breakloop | Pcap_Stats | Pcap_Close

record pcap_api =
  pa_create :: "string \<Rightarrow> bool"
  pa_activate :: "string \<Rightarrow> int"

datatype open_error = Create_Failed | Activate_Failed int

definition open_pcap_handle_for_interface ::
  "pcap_api \<Rightarrow> capture_config \<Rightarrow> string \<Rightarrow> pcap_call list \<times> (open_error + unit)" where
  "open_pcap_handle_for_interface api cfg iface =
     (if \<not> pa_create api iface then ([Pcap_Create iface], Inl Create_Failed)
      else
        (let setup = [Pcap_Create iface, Pcap_Set_Snaplen (snaplen cfg), Pcap_Set_Promisc (promiscuous cfg),
                      Pcap_Set_Buffer_Size (kernel_buffer_bytes cfg), Pcap_Set_Timeout (read_timeout_ms cfg),
                      Pcap_Activate];
             rc = pa_activate api iface
         in if rc < 0 then (setup @ [Pcap_Close], Inl (Activate_Failed rc)) else (setup, Inr ())))"

text \<open>\<open>start\<close> with its calls; what it does to the layer is \<open>cl_start\<close>.\<close>

definition capture_start ::
  "pcap_api \<Rightarrow> capture_config \<Rightarrow> pcap_device list option \<Rightarrow> capture_layer \<Rightarrow> pcap_call list \<times> capture_layer outcome" where
  "capture_start api cfg devs c =
     (if cl_running c then ([], Ok c)
      else case (if cap_interface cfg = [] then discover_interface devs else Inr (cap_interface cfg)) of
             Inl e \<Rightarrow> ([], Throws e c)
           | Inr iface \<Rightarrow>
               (let (calls, r) = open_pcap_handle_for_interface api cfg iface
                in (calls, cl_start (cap_interface cfg) devs (r = Inr ()) c)))"

definition capture_stop :: "capture_layer \<Rightarrow> pcap_call list \<times> capture_layer" where
  "capture_stop c =
     (if \<not> cl_running c then ([], c)
      else ((if cl_handle c then [Pcap_Breakloop, Pcap_Stats, Pcap_Close] else []), cl_stop c))"

text \<open>Handles created and not closed; a create that fails gives no handle.\<close>

fun open_handles :: "pcap_api \<Rightarrow> pcap_call list \<Rightarrow> int" where
  "open_handles api [] = 0"
| "open_handles api (Pcap_Create iface # cs) = (if pa_create api iface then 1 else 0) + open_handles api cs"
| "open_handles api (Pcap_Close # cs) = open_handles api cs - 1"
| "open_handles api (_ # cs) = open_handles api cs"

lemma open_handles_append [simp]: "open_handles api (xs @ ys) = open_handles api xs + open_handles api ys"
  by (induction api xs rule: open_handles.induct) simp_all

lemma open_balance:
  "open_pcap_handle_for_interface api cfg iface = (calls, r) \<Longrightarrow>
   open_handles api calls = (if r = Inr () then 1 else 0)"
  by (auto simp: open_pcap_handle_for_interface_def Let_def split: if_splits)

text \<open>The life of the layer with its calls; a start that terminates the program is its last step.\<close>

datatype capture_op = Op_Start "pcap_device list option" | Op_Producer_Ends | Op_Stop

fun capture_op_step :: "pcap_api \<Rightarrow> capture_config \<Rightarrow> capture_op \<Rightarrow> pcap_call list \<times> capture_layer \<Rightarrow> pcap_call list \<times> capture_layer" where
  "capture_op_step api cfg (Op_Start devs) (calls, c) =
     (let (new, r) = capture_start api cfg devs c
      in case r of Ok c' \<Rightarrow> (calls @ new, c') | Throws e c' \<Rightarrow> (calls @ new, c') | Terminated \<Rightarrow> (calls, c))"
| "capture_op_step api cfg Op_Producer_Ends (calls, c) = (calls, cl_producer_ends c)"
| "capture_op_step api cfg Op_Stop (calls, c) = (let (new, c') = capture_stop c in (calls @ new, c'))"

definition handle_inv :: "pcap_api \<Rightarrow> pcap_call list \<times> capture_layer \<Rightarrow> bool" where
  "handle_inv api s \<longleftrightarrow> cl_inv (snd s) \<and> (cl_handle (snd s) \<longleftrightarrow> cl_thread (snd s) \<noteq> No_Thread) \<and>
     open_handles api (fst s) = (if cl_handle (snd s) then 1 else 0)"

lemma capture_start_inv:
  assumes "handle_inv api (calls, c)" "capture_start api cfg devs c = (new, r)"
    and "r = Ok c' \<or> (\<exists>e. r = Throws e c')"
  shows "handle_inv api (calls @ new, c')"
proof (cases "cl_running c")
  case True
  then show ?thesis using assms by (auto simp: capture_start_def)
next
  case False
  show ?thesis
    using assms False
    by (auto dest!: open_balance simp: capture_start_def cl_start_def handle_inv_def cl_inv_def Let_def
        split: sum.splits prod.splits if_splits)
qed

interpretation com: preserving "capture_op_step api cfg" "handle_inv api"
proof
  fix s e
  assume inv: "handle_inv api s"
  obtain calls c where s: "s = (calls, c)" by fastforce
  show "handle_inv api (capture_op_step api cfg e s)"
  proof (cases e)
    case (Op_Start devs)
    obtain new r where r: "capture_start api cfg devs c = (new, r)" by fastforce
    show ?thesis using inv capture_start_inv [OF _ r] by (cases r) (auto simp: s Op_Start r)
  next
    case Op_Producer_Ends
    then show ?thesis using inv by (auto simp: s handle_inv_def cl_inv_def cl_producer_ends_def)
  next
    case Op_Stop
    then show ?thesis using inv by (auto simp: s handle_inv_def cl_inv_def capture_stop_def cl_stop_def Let_def)
  qed
qed

section \<open>The capture thread\<close>

datatype producer_log = Loop_Exited_Cleanly | Loop_Error

definition PCAP_ERROR :: int where "PCAP_ERROR = - 1"
definition PCAP_ERROR_BREAK :: int where "PCAP_ERROR_BREAK = - 2"

text \<open>What \<open>producer_loop\<close> reports behind \<open>pcap_loop\<close>, by its return code.\<close>

definition producer_exit_log :: "int \<Rightarrow> producer_log list" where
  "producer_exit_log rc =
     (if rc = PCAP_ERROR_BREAK then [Loop_Exited_Cleanly] else if rc = PCAP_ERROR then [Loop_Error] else [])"

definition frame_ok :: "pcap_header \<times> u8 list \<Rightarrow> bool" where
  "frame_ok f \<longleftrightarrow> unat (ph_caplen (fst f)) \<le> length (snd f)"

text \<open>What the callback puts into the ring for a frame.\<close>

definition packet_of :: "pcap_header \<times> u8 list \<Rightarrow> captured_packet" where
  "packet_of f = \<lparr> cp_data = take (unat (ph_caplen (fst f))) (snd f), cp_captured_length = ph_caplen (fst f),
     cp_original_length = ph_len (fst f), cp_timestamp_us = ph_sec (fst f) * 1000000 + ph_usec (fst f) \<rparr>"

lemma packet_of_ok: "frame_ok f \<Longrightarrow> captured_ok (packet_of f)"
  by (simp add: frame_ok_def packet_of_def captured_ok_def)

lemma packet_callback_eq:
  assumes "frame_ok (h, bytes)"
  shows "packet_callback h bytes c =
    (let (r, accepted) = rb_push (packet_of (h, bytes)) (cc_ring c)
     in Some (c\<lparr> cc_ring := r, cc_captured := cc_captured c + 1,
                cc_dropped := cc_dropped c + (if accepted then 0 else 1) \<rparr>))"
  using assms
  by (auto simp: packet_callback_def captured_packet_of_def bytes_at_def packet_of_def frame_ok_def Let_def
      split: prod.splits)

lemma rb_push_queue:
  "length (rb_queue r) < rb_capacity r \<Longrightarrow> rb_push p r = (r\<lparr> rb_queue := rb_queue r @ [p], rb_pushed := rb_pushed r + 1 \<rparr>, True)"
  "\<not> length (rb_queue r) < rb_capacity r \<Longrightarrow> rb_push p r = (r\<lparr> rb_dropped := rb_dropped r + 1 \<rparr>, False)"
  by (simp_all add: rb_push_def)

section \<open>What the consumer does with the packets it pops\<close>

fun consume_all ::
  "(string \<Rightarrow> u8 list option) \<Rightarrow> (turn_clocks \<times> captured_packet) list \<Rightarrow> pipeline \<Rightarrow> pipeline option" where
  "consume_all inet_pton [] pl = Some pl"
| "consume_all inet_pton ((tc, pkt) # ps) pl = do { pl' \<leftarrow> consume inet_pton tc pkt pl; consume_all inet_pton ps pl' }"

section \<open>Properties\<close>

text \<open>
  Claim C30. The pcap handles of the capture layer are balanced, whatever the results of libpcap and the order
  of start, stop and the end of the thread: a failing open closes what it created, and one handle is
  open exactly as long as the thread object is joinable. A thread that ended by itself therefore
  leaves its handle open behind \<open>stop\<close>.
\<close>

theorem capture_handles_balanced:
  "open_handles api (fst (fold (capture_op_step api cfg) ops ([], new_capture_layer))) =
     (if cl_thread (snd (fold (capture_op_step api cfg) ops ([], new_capture_layer))) = No_Thread then 0 else 1)"
proof -
  have "handle_inv api ([], new_capture_layer)"
    by (simp add: handle_inv_def cl_inv_new) (simp add: new_capture_layer_def)
  from com.run_inv [OF this, of cfg ops] show ?thesis by (auto simp: handle_inv_def)
qed

end
