(* ===== verification/LiveRun.thy ===== *)
theory LiveRun
  imports CaptureRun Traces
begin

text \<open>
  The running program, as \<open>main\<close> starts it: the consumer and the reaper first, then the capture. The
  capture thread hands a frame to the callback while \<open>pcap_loop\<close> runs, the consumer pops, dissects,
  tracks and inspects, the writer takes alerts, the reaper evicts, and a signal sets the flag and
  shuts the ring down; the steps of these threads come in any order (\<open>live_step\<close>).

  A step is the part of a thread that shares state with the others: a call of \<open>push\<close> or \<open>pop\<close> is
  atomic because of the ring's mutex. The waits inside \<open>pop\<close>, \<open>writer_loop\<close> and \<open>reaper_loop\<close> are in
  \<open>RingWait\<close>, \<open>WriterWait\<close> and \<open>ReaperWait\<close>, which show that the atomic operations used here are what
  the threads do.
\<close>

section \<open>The threads\<close>

datatype consumer_at = At_Pop | At_Flag_Test | Left_Loop

record live_state =
  lv_counts :: capture_counts
  lv_capture :: capture_layer
  lv_log :: "producer_log list"
  lv_pipeline :: pipeline
  lv_consumer :: consumer_at
  lv_flag :: bool

datatype live_label =
    LV_Frame pcap_header "u8 list" bool \<comment> \<open>a frame of \<open>pcap_loop\<close>, and whether the ring had room\<close>
  | LV_Loop_Ends int
  | LV_Turn turn_clocks captured_packet
  | LV_Flag_Test
  | LV_Pop_False
  | LV_Write "db_row \<Rightarrow> bool"
  | LV_Evict ns
  | LV_Signal
  | LV_Ring_Shutdown
  | LV_Stop_Capture

inductive live_step ::
  "(string \<Rightarrow> u8 list option) \<Rightarrow> live_label \<Rightarrow> live_state \<Rightarrow> live_state \<Rightarrow> bool" for inet_pton where
  frame: "cl_thread (lv_capture s) = Running_Thread \<Longrightarrow> packet_callback h bytes (lv_counts s) = Some c \<Longrightarrow>
    accepted = (length (rb_queue (cc_ring (lv_counts s))) < rb_capacity (cc_ring (lv_counts s))) \<Longrightarrow>
    live_step inet_pton (LV_Frame h bytes accepted) s (s\<lparr> lv_counts := c \<rparr>)"
| loop_ends: "cl_thread (lv_capture s) = Running_Thread \<Longrightarrow>
    live_step inet_pton (LV_Loop_Ends rc) s
      (s\<lparr> lv_capture := cl_producer_ends (lv_capture s), lv_log := lv_log s @ producer_exit_log rc \<rparr>)"
| turn: "lv_consumer s = At_Pop \<Longrightarrow> rb_pop (cc_ring (lv_counts s)) = (r, Popped pkt) \<Longrightarrow>
    consume inet_pton tc pkt (lv_pipeline s) = Some pl \<Longrightarrow>
    live_step inet_pton (LV_Turn tc pkt) s
      (s\<lparr> lv_counts := (lv_counts s)\<lparr> cc_ring := r \<rparr>, lv_pipeline := pl, lv_consumer := At_Flag_Test \<rparr>)"
| flag_test: "lv_consumer s = At_Flag_Test \<Longrightarrow>
    live_step inet_pton LV_Flag_Test s (s\<lparr> lv_consumer := (if lv_flag s then Left_Loop else At_Pop) \<rparr>)"
| pop_false: "lv_consumer s = At_Pop \<Longrightarrow> rb_pop (cc_ring (lv_counts s)) = (r, Pop_Finished) \<Longrightarrow>
    live_step inet_pton LV_Pop_False s (s\<lparr> lv_consumer := Left_Loop \<rparr>)"
| write_alert: "live_step inet_pton (LV_Write ok) s
    (s\<lparr> lv_pipeline := (lv_pipeline s)\<lparr> pl_delivery := writer_turn ok (pl_delivery (lv_pipeline s)) \<rparr> \<rparr>)"
| evict: "live_step inet_pton (LV_Evict now) s
    (s\<lparr> lv_pipeline := (lv_pipeline s)\<lparr> pl_flows := evict_expired_flows now (pl_flows (lv_pipeline s)) \<rparr> \<rparr>)"
| signal: "live_step inet_pton LV_Signal s (s\<lparr> lv_flag := True \<rparr>)"
| ring_shutdown: "lv_flag s \<Longrightarrow> live_step inet_pton LV_Ring_Shutdown s
    (s\<lparr> lv_counts := (lv_counts s)\<lparr> cc_ring := rb_shutdown_op (cc_ring (lv_counts s)) \<rparr> \<rparr>)"
| stop_capture: "lv_consumer s = Left_Loop \<Longrightarrow>
    live_step inet_pton LV_Stop_Capture s (s\<lparr> lv_capture := cl_stop (lv_capture s) \<rparr>)"

inductive_cases live_stepE: "live_step inet_pton l s s'"

definition live_init :: "config \<Rightarrow> delivery_layer \<Rightarrow> capture_layer \<Rightarrow> live_state" where
  "live_init cfg d c = \<lparr> lv_counts = \<lparr> cc_ring = new_ring (ring_buffer cfg), cc_captured = 0, cc_dropped = 0 \<rparr>,
     lv_capture = c, lv_log = [], lv_pipeline = new_pipeline cfg d, lv_consumer = At_Pop, lv_flag = False \<rparr>"

section \<open>What a run did\<close>

definition frames_of :: "live_label list \<Rightarrow> (pcap_header \<times> u8 list) list" where
  "frames_of ls = concat (map (\<lambda>l. case l of LV_Frame h bytes a \<Rightarrow> [(h, bytes)] | _ \<Rightarrow> []) ls)"

definition accepted_of :: "live_label list \<Rightarrow> (pcap_header \<times> u8 list) list" where
  "accepted_of ls = concat (map (\<lambda>l. case l of LV_Frame h bytes True \<Rightarrow> [(h, bytes)] | _ \<Rightarrow> []) ls)"

definition turns_of :: "live_label list \<Rightarrow> (turn_clocks \<times> captured_packet) list" where
  "turns_of ls = concat (map (\<lambda>l. case l of LV_Turn tc pkt \<Rightarrow> [(tc, pkt)] | _ \<Rightarrow> []) ls)"

lemma run_of_simps [simp]:
  "frames_of [] = []" "accepted_of [] = []" "turns_of [] = []"
  "frames_of (ls @ ms) = frames_of ls @ frames_of ms"
  "accepted_of (ls @ ms) = accepted_of ls @ accepted_of ms"
  "turns_of (ls @ ms) = turns_of ls @ turns_of ms"
  by (simp_all add: frames_of_def accepted_of_def turns_of_def)

lemma run_of_label [simp]:
  "frames_of [l] = (case l of LV_Frame h bytes a \<Rightarrow> [(h, bytes)] | _ \<Rightarrow> [])"
  "accepted_of [l] = (case l of LV_Frame h bytes True \<Rightarrow> [(h, bytes)] | _ \<Rightarrow> [])"
  "turns_of [l] = (case l of LV_Turn tc pkt \<Rightarrow> [(tc, pkt)] | _ \<Rightarrow> [])"
  by (simp_all add: frames_of_def accepted_of_def turns_of_def)

lemma consume_all_append:
  "consume_all inet_pton (xs @ ys) pl = consume_all inet_pton xs pl \<bind> consume_all inet_pton ys"
  by (induction inet_pton xs pl rule: consume_all.induct) (auto split: bind_splits)

text \<open>
  What detection depends on. The writer and the reaper change the rest of the pipeline, and no turn
  of the consumer reads that rest for its detection.
\<close>

definition same_detection :: "pipeline \<Rightarrow> pipeline \<Rightarrow> bool" where
  "same_detection pl pl' \<longleftrightarrow> pl_detector pl = pl_detector pl' \<and> pl_processed pl = pl_processed pl'"

lemma consume_same_detection:
  assumes "same_detection pl q" "consume inet_pton tc pkt q = Some q'"
  shows "\<exists>pl'. consume inet_pton tc pkt pl = Some pl' \<and> same_detection pl' q'"
proof -
  obtain info where "dissect_packet pkt = Some info"
    using assms(2) by (auto simp: consume_def bind_eq_Some_conv)
  then show ?thesis
    using assms by (cases "valid info") (auto simp: consume_def same_detection_def detect_def Let_def)
qed

lemma pl_inv_steps:
  "pl_inv pl \<Longrightarrow> pl_inv (pl\<lparr> pl_delivery := writer_turn ok (pl_delivery pl) \<rparr>)"
  "pl_inv pl \<Longrightarrow> pl_inv (pl\<lparr> pl_flows := evict_expired_flows now (pl_flows pl) \<rparr>)"
  by (simp_all add: pl_inv_def writer_turn_fifo evict_inv)

lemma packet_callback_frame_ok: "packet_callback h bytes c = Some c' \<Longrightarrow> frame_ok (h, bytes)"
  by (auto simp: packet_callback_def captured_packet_of_def bytes_at_def frame_ok_def bind_eq_Some_conv
      split: if_splits)

section \<open>The invariant\<close>

text \<open>What the ring and the counters say of the frames so far.\<close>

definition ring_live :: "config \<Rightarrow> live_label list \<Rightarrow> capture_counts \<Rightarrow> bool" where
  "ring_live cfg ls c \<longleftrightarrow>
     map packet_of (accepted_of ls) = map snd (turns_of ls) @ rb_queue (cc_ring c) \<and>
     (\<forall>p \<in> set (rb_queue (cc_ring c)). captured_ok p) \<and>
     rb_capacity (cc_ring c) = max_capacity (ring_buffer cfg) \<and>
     length (rb_queue (cc_ring c)) \<le> rb_capacity (cc_ring c) \<and>
     cc_captured c = of_nat (length (frames_of ls)) \<and>
     cc_dropped c = of_nat (length (frames_of ls)) - of_nat (length (accepted_of ls))"

definition detect_live ::
  "(string \<Rightarrow> u8 list option) \<Rightarrow> config \<Rightarrow> delivery_layer \<Rightarrow> live_label list \<Rightarrow> pipeline \<Rightarrow> bool" where
  "detect_live inet_pton cfg d ls pl \<longleftrightarrow> pl_inv pl \<and>
     (\<exists>pl0. consume_all inet_pton (turns_of ls) (new_pipeline cfg d) = Some pl0 \<and> same_detection pl0 pl)"

lemma ring_live_step:
  assumes "live_step inet_pton l s s'" "ring_live cfg ls (lv_counts s)"
  shows "ring_live cfg (ls @ [l]) (lv_counts s')"
  using assms(1)
proof (cases rule: live_step.cases)
  case (frame h bytes c accepted)
  have ok: "frame_ok (h, bytes)" using packet_callback_frame_ok frame(4) .
  show ?thesis
    using assms(2) frame packet_callback_eq [OF ok, of "lv_counts s"] packet_of_ok [OF ok]
    by (auto simp: ring_live_def rb_push_queue split: if_splits)
next
  case (turn r pkt tc pl)
  then have "rb_queue (cc_ring (lv_counts s)) = pkt # rb_queue r" "rb_capacity r = rb_capacity (cc_ring (lv_counts s))"
    by (auto simp: rb_pop_def split: if_splits list.splits)
  then show ?thesis using assms(2) turn by (simp add: ring_live_def)
qed (use assms(2) in \<open>simp_all add: ring_live_def rb_shutdown_op_def\<close>)

lemma detect_live_step:
  assumes "live_step inet_pton l s s'" "detect_live inet_pton cfg d ls (lv_pipeline s)"
    and "ring_live cfg ls (lv_counts s)"
  shows "detect_live inet_pton cfg d (ls @ [l]) (lv_pipeline s')"
  using assms(1)
proof (cases rule: live_step.cases)
  case (turn r pkt tc pl)
  have "captured_ok pkt"
    using assms(3) turn(4) rb_pop_cases by (fastforce simp: ring_live_def)
  then have "pl_inv pl"
    using assms(2) turn(5) consume_returns [of pkt "lv_pipeline s" inet_pton tc]
    by (auto simp: detect_live_def returns_iff)
  then show ?thesis
    using assms(2) turn consume_same_detection [OF _ turn(5)]
    by (fastforce simp: detect_live_def consume_all_append)
qed (use assms(2) in \<open>auto simp: detect_live_def same_detection_def pl_inv_steps\<close>)

lemma live_run:
  assumes "trace (live_step inet_pton) (live_init cfg d c) ls s" "dl_handled d = []" "dl_queue d = []"
  shows "ring_live cfg ls (lv_counts s) \<and> detect_live inet_pton cfg d ls (lv_pipeline s)"
  using assms(1)
proof (induction rule: trace.induct)
  case start
  then show ?case
    using pl_inv_new [OF assms(2,3), of cfg]
    by (simp add: ring_live_def detect_live_def live_init_def new_ring_def same_detection_def)
next
  case (snoc ls s l s')
  then show ?case using ring_live_step detect_live_step by blast
qed

text \<open>No thread is stuck on a packet: a well-formed frame can be taken, and a queued one consumed.\<close>

lemma frame_enabled:
  "cl_thread (lv_capture s) = Running_Thread \<Longrightarrow> frame_ok (h, bytes) \<Longrightarrow>
   \<exists>accepted s'. live_step inet_pton (LV_Frame h bytes accepted) s s'"
  using packet_callback_eq [of h bytes "lv_counts s"]
  by (auto simp: Let_def split: prod.splits intro: live_step.frame)

lemma turn_enabled:
  assumes "lv_consumer s = At_Pop" "rb_queue (cc_ring (lv_counts s)) = pkt # rest"
    and "captured_ok pkt" "pl_inv (lv_pipeline s)"
  shows "\<exists>s'. live_step inet_pton (LV_Turn tc pkt) s s'"
proof -
  obtain pl where "consume inet_pton tc pkt (lv_pipeline s) = Some pl"
    using consume_returns [OF assms(3,4)] by (auto simp: returns_iff)
  moreover obtain r where "rb_pop (cc_ring (lv_counts s)) = (r, Popped pkt)"
    using assms(2) by (simp add: rb_pop_def rb_ready_def)
  ultimately show ?thesis using live_step.turn [OF assms(1)] by blast
qed

section \<open>Properties\<close>

text \<open>
  Claim C23. From the wire to the detector, with all threads running: at every point of every interleaving of
  the capture thread, the consumer, the writer, the reaper and a signal, the frames that found room
  in the ring are, in order, the packets consumed so far followed by the ring's queue; every frame
  is counted as captured and the ones without room as dropped; the detector is in the state it
  would have if it alone had consumed these packets one after the other, and its alerts are, in
  order, the ones handled by the delivery layer and the ones in its queue; and the flow table keeps
  its invariant. A frame of libpcap can be taken at any point at which the capture thread runs, and a packet
  at the head of the queue can be consumed whenever the consumer is at \<open>pop\<close>: neither step reads
  outside a frame.
\<close>

theorem capture_to_detection:
  assumes "trace (live_step inet_pton) (live_init cfg d c) ls s" "dl_handled d = []" "dl_queue d = []"
  shows "map packet_of (accepted_of ls) = map snd (turns_of ls) @ rb_queue (cc_ring (lv_counts s)) \<and>
     length (rb_queue (cc_ring (lv_counts s))) \<le> max_capacity (ring_buffer cfg) \<and>
     cc_captured (lv_counts s) = of_nat (length (frames_of ls)) \<and>
     cc_dropped (lv_counts s) = of_nat (length (frames_of ls)) - of_nat (length (accepted_of ls)) \<and>
     (\<exists>pl. consume_all inet_pton (turns_of ls) (new_pipeline cfg d) = Some pl \<and>
        pl_detector (lv_pipeline s) = pl_detector pl \<and> pl_processed (lv_pipeline s) = pl_processed pl) \<and>
     dl_handled (pl_delivery (lv_pipeline s)) @ dl_queue (pl_delivery (lv_pipeline s)) =
       map snd (td_fired (pl_detector (lv_pipeline s))) \<and>
     ft_inv (pl_flows (lv_pipeline s)) \<and>
     (cl_thread (lv_capture s) = Running_Thread \<and> frame_ok (h, bytes) \<longrightarrow>
        (\<exists>accepted s'. live_step inet_pton (LV_Frame h bytes accepted) s s')) \<and>
     (lv_consumer s = At_Pop \<and> rb_queue (cc_ring (lv_counts s)) = pkt # rest \<longrightarrow>
        (\<exists>s'. live_step inet_pton (LV_Turn tc pkt) s s'))"
  using live_run [OF assms] frame_enabled turn_enabled
  by (simp add: ring_live_def detect_live_def pl_inv_def same_detection_def) metis

definition running_capture :: capture_layer where
  "running_capture = \<lparr> cl_running = True, cl_thread = Running_Thread, cl_handle = True, cl_interface = ''eth0'' \<rparr>"

definition short_header :: pcap_header where
  "short_header = \<lparr> ph_sec = 1, ph_usec = 2, ph_caplen = 2, ph_len = 60 \<rparr>"

lemma capture_to_detection_witness:
  "\<exists>s. trace (live_step (\<lambda>_. None)) (live_init default_config new_delivery_layer running_capture)
       [LV_Frame short_header [1, 2] True] s \<and>
     rb_queue (cc_ring (lv_counts s)) = [packet_of (short_header, [1, 2])] \<and> cc_captured (lv_counts s) = 1 \<and>
     cc_dropped (lv_counts s) = 0 \<and>
     (\<exists>s'. live_step (\<lambda>_. None) (LV_Turn sample_turn (packet_of (short_header, [1, 2]))) s s')"
proof -
  let ?s = "live_init default_config new_delivery_layer running_capture"
  have "frame_ok (short_header, [1, 2])" by (simp add: frame_ok_def short_header_def)
  then obtain c where "packet_callback short_header [1, 2] (lv_counts ?s) = Some c"
    using packet_callback_eq [of short_header "[1, 2]" "lv_counts ?s"]
    by (cases "rb_push (packet_of (short_header, [1, 2])) (cc_ring (lv_counts ?s))") simp
  then have step: "live_step (\<lambda>_. None) (LV_Frame short_header [1, 2] True) ?s (?s\<lparr> lv_counts := c \<rparr>)"
    by (rule live_step.frame [rotated])
      (simp_all add: live_init_def running_capture_def new_ring_def default_config_def default_ring_buffer_def)
  let ?t = "?s\<lparr> lv_counts := c \<rparr>"
  have run: "trace (live_step (\<lambda>_. None)) ?s [LV_Frame short_header [1, 2] True] ?t"
    by (rule trace_single, rule step)
  have "dl_handled new_delivery_layer = []" "dl_queue new_delivery_layer = []" "lv_consumer ?t = At_Pop"
    by (simp_all add: new_delivery_layer_def live_init_def)
  then have "trace (live_step (\<lambda>_. None)) ?s [LV_Frame short_header [1, 2] True] ?t \<and>
      rb_queue (cc_ring (lv_counts ?t)) = [packet_of (short_header, [1, 2])] \<and> cc_captured (lv_counts ?t) = 1 \<and>
      cc_dropped (lv_counts ?t) = 0 \<and>
      (\<exists>s'. live_step (\<lambda>_. None) (LV_Turn sample_turn (packet_of (short_header, [1, 2]))) ?t s')"
    using capture_to_detection [OF run, of short_header "[]" "packet_of (short_header, [1, 2])" "[]"
        sample_turn] run
    by (simp add: accepted_of_def turns_of_def frames_of_def)
  then show ?thesis by blast
qed

end
