(* ===== verification/FlowTypes.thy ===== *)
theory FlowTypes
  imports LiveRun FrameSpec
begin

text \<open>
  What the TCP fields of a flow record say, over the runs of the whole program: \<open>tcp_fields_ok\<close> ties the
  state of a record to the flags accumulated in it and to the protocol of its key. It is an
  invariant of \<open>live_step\<close>, because the dissector gives TCP values only to packets whose protocol
  number is TCP's (\<open>l4_ok\<close>).
\<close>

section \<open>Records\<close>

definition flags_fit :: "tcp_state \<Rightarrow> u8 \<Rightarrow> bool" where
  "flags_fit s flags \<longleftrightarrow>
     (case s of
        TCP_INIT \<Rightarrow> \<not> flag_set flags TCP_FLAG_RST
      | TCP_SYN_SENT \<Rightarrow> flag_set flags TCP_FLAG_SYN
      | TCP_SYN_RECEIVED \<Rightarrow> flag_set flags TCP_FLAG_SYN \<and> flag_set flags TCP_FLAG_ACK
      | TCP_ESTABLISHED \<Rightarrow> flag_set flags TCP_FLAG_SYN \<and> flag_set flags TCP_FLAG_ACK
      | TCP_FIN_WAIT \<Rightarrow> flag_set flags TCP_FLAG_SYN \<and> flag_set flags TCP_FLAG_ACK \<and> flag_set flags TCP_FLAG_FIN
      | TCP_CLOSED \<Rightarrow> flag_set flags TCP_FLAG_RST \<or>
          flag_set flags TCP_FLAG_SYN \<and> flag_set flags TCP_FLAG_ACK \<and> flag_set flags TCP_FLAG_FIN)"

definition no_tcp :: "flow_record \<Rightarrow> bool" where
  "no_tcp r \<longleftrightarrow> fr_tcp_state r = TCP_INIT \<and> fr_tcp_flags_seen r = 0 \<and> fr_syn_count r = 0 \<and>
     fr_syn_ack_count r = 0 \<and> fr_ack_count r = 0 \<and> fr_fin_count r = 0 \<and> fr_rst_count r = 0 \<and> fr_psh_count r = 0 \<and>
     fr_completed_handshakes r = 0 \<and> fr_dst_ports_contacted r = {} \<and> fr_syn_window_count r = 0"

definition tcp_fields_ok :: "flow_key \<Rightarrow> flow_record \<Rightarrow> bool" where
  "tcp_fields_ok k r \<longleftrightarrow> (fk_protocol k = IPPROTO_TCP_NUM \<or> no_tcp r) \<and>
     flags_fit (fr_tcp_state r) (fr_tcp_flags_seen r) \<and> 0 \<notin> fr_dst_ports_contacted r"

lemma flag_set_or: "flag_set (or a b) f \<longleftrightarrow> flag_set a f \<or> flag_set b f"
  by (simp add: flag_set_def bit.conj_disj_distrib2 or_eq_0_iff)

lemma flags_fit_step:
  assumes "flags_fit (fr_tcp_state r) (fr_tcp_flags_seen r)"
  shows "flags_fit (fr_tcp_state (fst (advance_tcp_state f dir r))) (fr_tcp_flags_seen (fst (advance_tcp_state f dir r)))"
proof -
  have flags: "fr_tcp_flags_seen (fst (advance_tcp_state f dir r)) = or (fr_tcp_flags_seen r) f"
    using advance_flags_seen [of r "(f, dir)"] by (simp add: advance_def)
  show ?thesis
    unfolding flags using assms
    by (cases "fr_tcp_state r")
      (auto simp: advance_tcp_state_def Let_def tcp_switch_state flags_fit_def flag_set_or syn_only_flags)
qed

lemma tcp_fields_new: "tcp_fields_ok k (new_flow_record k' clk)"
  by (simp add: tcp_fields_ok_def no_tcp_def new_flow_record_def flags_fit_def flag_set_def)

lemma tcp_fields_account: "tcp_fields_ok k (account info dir now r) = tcp_fields_ok k r"
  by (cases dir) (simp_all add: account_def tcp_fields_ok_def no_tcp_def Let_def)

lemma tcp_fields_l7: "tcp_fields_ok k (note_l7 info r) = tcp_fields_ok k r"
  by (simp add: note_l7_def tcp_fields_ok_def no_tcp_def Let_def split: option.split)

lemma advance_ports: "fr_dst_ports_contacted (fst (advance_tcp_state f dir r)) = fr_dst_ports_contacted r"
  by (cases "fr_tcp_state r") (simp_all add: advance_tcp_state_def tcp_switch_def count_tcp_flags_def Let_def)

lemma tcp_fields_tcp:
  assumes "tcp_fields_ok k r" "fk_protocol k = IPPROTO_TCP_NUM"
  shows "tcp_fields_ok k (fst (advance_tcp_state f dir r))"
    and "tcp_fields_ok k (track_port info dir now r)"
    and "tcp_fields_ok k (track_syn info now r)"
  using assms flags_fit_step [of r f dir]
  by (simp_all add: tcp_fields_ok_def advance_ports) (auto simp: track_port_def track_syn_def Let_def)

lemma tcp_fields_update:
  assumes "tcp_fields_ok k r" "l4_proto info = L4_TCP \<longrightarrow> fk_protocol k = IPPROTO_TCP_NUM"
  shows "tcp_fields_ok k (update_record info dir now r)"
proof -
  have "tcp_fields_ok k (account info dir now r)" using assms(1) by (simp add: tcp_fields_account)
  then show ?thesis
    using assms(2) by (auto simp: update_record_def Let_def tcp_fields_l7 intro: tcp_fields_tcp)
qed

section \<open>The table\<close>

definition ft_tcp :: "flow_table \<Rightarrow> bool" where
  "ft_tcp ft \<longleftrightarrow> (\<forall>k r. umap_find (ft_table ft) k = Some r \<longrightarrow> tcp_fields_ok k r)"

lemma ft_tcp_new: "ft_tcp (new_flow_table cfg)"
  by (simp add: ft_tcp_def new_flow_table_def)

lemma make_key_protocol: "fk_protocol (make_key a b sp dp proto) = proto"
  by (simp add: make_key_def Let_def)

lemma ft_update_tcp:
  assumes "ft_tcp ft" "l4_ok info"
  shows "ft_tcp (fst (ft_update inet_pton info now clk ft))"
proof (cases "endpoint_addrs inet_pton info")
  case (Some ab)
  obtain a b where ab: "ab = (a, b)" by fastforce
  let ?k = "make_key a b (src_port info) (dst_port info) (ip_proto_num info)"
  have proto: "l4_proto info = L4_TCP \<longrightarrow> fk_protocol ?k = IPPROTO_TCP_NUM"
    using assms(2) by (simp add: make_key_protocol l4_ok_def)
  have "tcp_fields_ok ?k (update_record info dir now r)" if "umap_find (ft_table ft) ?k = Some r" for dir r
    using assms(1) that tcp_fields_update proto by (auto simp: ft_tcp_def)
  moreover have "tcp_fields_ok ?k (update_record info dir now (new_flow_record ?k clk))" for dir
    using tcp_fields_update [OF tcp_fields_new proto] .
  ultimately show ?thesis
    using assms(1) Some ab by (auto simp: ft_update_def ft_tcp_def Let_def um.find_put split: option.splits)
qed (use assms(1) in \<open>simp add: ft_update_def\<close>)

lemma evict_tcp: "ft_inv ft \<Longrightarrow> ft_tcp ft \<Longrightarrow> ft_tcp (evict_expired_flows now ft)"
  unfolding ft_tcp_def using evict_find by (fastforce split: option.splits if_splits)

lemma consume_tcp:
  assumes "captured_ok pkt" "ft_tcp (pl_flows pl)" "consume inet_pton tc pkt pl = Some pl'"
  shows "ft_tcp (pl_flows pl')"
proof -
  obtain info where info: "dissect_packet pkt = Some info" "l4_ok info"
    using dissect_packet_returns_lemma [OF assms(1)] by (auto simp: returns_iff result_ok_def info_ok_def)
  show ?thesis
    using assms(2,3) info ft_update_tcp [OF assms(2) info(2)]
    by (cases "valid info") (auto simp: consume_def detect_def Let_def)
qed

lemma live_tcp_step:
  assumes "live_step inet_pton l s s'" "ring_live cfg ls (lv_counts s)" "pl_inv (lv_pipeline s)"
    and "ft_tcp (pl_flows (lv_pipeline s))"
  shows "ft_tcp (pl_flows (lv_pipeline s'))"
  using assms(1)
proof (cases rule: live_step.cases)
  case (turn r pkt tc pl)
  have "captured_ok pkt" using assms(2) turn(4) rb_pop_cases by (fastforce simp: ring_live_def)
  then show ?thesis using consume_tcp [OF _ assms(4) turn(5)] turn(2) by simp
qed (use assms(3,4) evict_tcp in \<open>auto simp: pl_inv_def\<close>)

lemma live_tcp:
  assumes "trace (live_step inet_pton) (live_init cfg d c) ls s" "dl_handled d = []" "dl_queue d = []"
  shows "ft_tcp (pl_flows (lv_pipeline s))"
  using assms(1)
proof (induction rule: trace.induct)
  case start
  then show ?case by (simp add: live_init_def new_pipeline_def ft_tcp_new)
next
  case (snoc ls s l s')
  then show ?case using live_tcp_step live_run [OF snoc(1) assms(2,3)] by (auto simp: detect_live_def)
qed

section \<open>Properties\<close>

text \<open>
  Claim C28. In every state the running program reaches, whatever frames were captured and however the threads
  interleave, the TCP fields of every flow record agree with each other and with its key: a flow
  that is not TCP is in INIT, with no flag, count, handshake, port or SYN window; a flow in INIT has
  seen no RST, one in SYN_RECEIVED, ESTABLISHED or FIN_WAIT has seen SYN and ACK, one in FIN_WAIT also a
  FIN, one in CLOSED a RST or all of the three; and port 0 is never among the ports contacted.
\<close>

theorem flow_tcp_fields:
  assumes "trace (live_step inet_pton) (live_init cfg d c) ls s" "dl_handled d = []" "dl_queue d = []"
    and "umap_find (ft_table (pl_flows (lv_pipeline s))) k = Some r"
  shows "(fk_protocol k = IPPROTO_TCP_NUM \<or> no_tcp r) \<and> flags_fit (fr_tcp_state r) (fr_tcp_flags_seen r) \<and>
    0 \<notin> fr_dst_ports_contacted r"
  using live_tcp [OF assms(1-3)] assms(4) by (auto simp: ft_tcp_def tcp_fields_ok_def)

text \<open>A run with one TCP frame, captured and consumed.\<close>

definition sample_frame_bytes :: "u8 list" where
  "sample_frame_bytes = tcp_frame [1, 2, 3, 4, 5, 6] [7, 8, 9, 10, 11, 12] (sample_ipv4 6) sample_tcp [65, 66]"

definition sample_frame_header :: pcap_header where
  "sample_frame_header = \<lparr> ph_sec = 0, ph_usec = 0, ph_caplen = of_nat (length sample_frame_bytes), ph_len = 60 \<rparr>"

lemma sample_frame_length: "length sample_frame_bytes = 60"
  by (simp add: sample_frame_bytes_def tcp_frame_def ethernet_bytes_def sample_ipv4_def sample_tcp_def)

lemma sample_frame_packet:
  "packet_of (sample_frame_header, sample_frame_bytes) = frame_of sample_frame_bytes 60 0"
  by (simp add: packet_of_def sample_frame_header_def frame_of_def sample_frame_length)

lemma sample_frame_info:
  "\<exists>info. dissect_packet (frame_of sample_frame_bytes 60 0) = Some info \<and> valid info \<and> l3_proto info = L3_IPv4"
proof -
  have "length (tcp_frame [1, 2, 3, 4, 5, 6] [7, 8, 9, 10, 11, 12] (sample_ipv4 6) sample_tcp [65, 66]) < 2 ^ 32"
    using sample_frame_length by (simp add: sample_frame_bytes_def)
  from tcp_frame_result [OF _ _ _ _ _ this, of 60 0] show ?thesis
    by (auto simp: sample_frame_bytes_def only_l7_def tcp_info_def ipv4_info_def ethernet_info_def options_ok_def
        sample_ipv4_def sample_tcp_def)
qed

lemma first_flow:
  assumes "valid info" "l3_proto info = L3_IPv4" "max_flows cfg > 0"
  shows "\<exists>k r. umap_find (ft_table (fst (ft_update inet_pton info now clk (new_flow_table cfg)))) k = Some r"
  using assms by (auto simp: ft_update_def endpoint_addrs_def new_flow_table_def Let_def um.find_put umap_size_def)

lemma live_flow_reachable:
  "\<exists>ls s k r. trace (live_step (\<lambda>_. None)) (live_init default_config new_delivery_layer running_capture) ls s \<and>
     umap_find (ft_table (pl_flows (lv_pipeline s))) k = Some r"
proof -
  let ?s = "live_init default_config new_delivery_layer running_capture" and ?p = "frame_of sample_frame_bytes 60 0"
  let ?c = "(lv_counts ?s)\<lparr> cc_ring := (cc_ring (lv_counts ?s))\<lparr> rb_queue := [?p], rb_pushed := 1 \<rparr>, cc_captured := 1 \<rparr>"
  let ?t = "?s\<lparr> lv_counts := ?c \<rparr>"
  have room: "length (rb_queue (cc_ring (lv_counts ?s))) < rb_capacity (cc_ring (lv_counts ?s))"
    by (simp add: live_init_def new_ring_def default_config_def default_ring_buffer_def)
  have "frame_ok (sample_frame_header, sample_frame_bytes)"
    by (simp add: frame_ok_def sample_frame_header_def sample_frame_length)
  then have "packet_callback sample_frame_header sample_frame_bytes (lv_counts ?s) = Some ?c"
    using room by (simp add: packet_callback_eq rb_push_queue sample_frame_packet) (simp add: live_init_def new_ring_def)
  then have step1: "live_step (\<lambda>_. None) (LV_Frame sample_frame_header sample_frame_bytes True) ?s ?t"
    by (rule live_step.frame [rotated]) (use room in \<open>simp_all add: live_init_def running_capture_def\<close>)
  obtain info where info: "dissect_packet ?p = Some info" "valid info" "l3_proto info = L3_IPv4"
    using sample_frame_info by blast
  obtain pl where pl: "consume (\<lambda>_. None) sample_turn ?p (lv_pipeline ?t) = Some pl"
    "pl_flows pl = fst (ft_update (\<lambda>_. None) info 0 0 (new_flow_table default_flow_tracker))"
    using info(1,2)
    by (simp add: consume_def detect_def Let_def live_init_def new_pipeline_def sample_turn_def default_config_def)
  obtain r where pop: "rb_pop (cc_ring (lv_counts ?t)) = (r, Popped ?p)"
    by (simp add: rb_pop_def rb_ready_def)
  let ?u = "?t\<lparr> lv_counts := (lv_counts ?t)\<lparr> cc_ring := r \<rparr>, lv_pipeline := pl, lv_consumer := At_Flag_Test \<rparr>"
  have step2: "live_step (\<lambda>_. None) (LV_Turn sample_turn ?p) ?t ?u"
    by (rule turn [OF _ pop pl(1)]) (simp add: live_init_def)
  have "path (live_step (\<lambda>_. None)) ?s [(LV_Frame sample_frame_header sample_frame_bytes True, ?t), (LV_Turn sample_turn ?p, ?u)]"
    using step1 step2 by simp
  from path_trace [OF this] have "\<exists>ls. trace (live_step (\<lambda>_. None)) ?s ls ?u" by auto
  moreover have "\<exists>k r. umap_find (ft_table (pl_flows (lv_pipeline ?u))) k = Some r"
    using first_flow [OF info(2,3), of default_flow_tracker "\<lambda>_. None" 0 0] pl(2)
    by (simp add: default_flow_tracker_def)
  ultimately show ?thesis by blast
qed

lemma flow_tcp_fields_witness:
  "\<exists>ls s k r. trace (live_step (\<lambda>_. None)) (live_init default_config new_delivery_layer running_capture) ls s \<and>
     umap_find (ft_table (pl_flows (lv_pipeline s))) k = Some r \<and> flags_fit (fr_tcp_state r) (fr_tcp_flags_seen r)"
proof -
  have d: "dl_handled new_delivery_layer = []" "dl_queue new_delivery_layer = []"
    by (simp_all add: new_delivery_layer_def)
  from live_flow_reachable obtain ls s k r where
    run: "trace (live_step (\<lambda>_. None)) (live_init default_config new_delivery_layer running_capture) ls s"
    and found: "umap_find (ft_table (pl_flows (lv_pipeline s))) k = Some r" by blast
  from flow_tcp_fields [OF run d found] run found show ?thesis by blast
qed

end
