(* ===== verification/ReaperWait.thy ===== *)
theory ReaperWait
  imports FlowTracker Traces
begin

text \<open>
  The threads of \<open>FlowTracker\<close>: the consumer in \<open>update\<close>, which looks the key up under the shared lock
  and, when it misses, takes the exclusive lock and starts again; the reaper, which waits on its
  condition variable for at most the interval and then evicts; and \<open>stop_reaper\<close>, which stores
  \<open>running_\<close> without the reaper's mutex, notifies and joins.

  The two locked sections of \<open>update\<close> and the eviction are atomic: the second section repeats the
  look-up, so it is \<open>ft_update\<close> itself. \<open>wait_for\<close> tests its predicate under the mutex, blocks, and
  returns when it is notified with the predicate true or when the time is over.
\<close>

section \<open>The threads\<close>

datatype reaper_pc = P_Top | P_Locked | P_Predicate_False | P_Waiting | P_After | P_Evict | P_Exited

datatype update_pc = U_Idle | U_Missed packet_info ns

datatype reaper_stop_pc = T_Not_Called | T_Stored | T_Joining | T_Returned

record tracker_state =
  rt_table :: flow_table
  rt_running :: bool
  rt_reaper :: reaper_pc
  rt_update :: update_pc
  rt_stop :: reaper_stop_pc

datatype tracker_label = RL_Test | RL_Leave | RL_Wait | RL_Ready | RL_Block | RL_Wake | RL_Timeout | RL_Go | RL_Break
  | RL_Evict ns | RL_Hit packet_info ns | RL_Miss packet_info ns | RL_Insert packet_info ns ns
  | RL_Store | RL_Notify | RL_Join

text \<open>The section of \<open>update\<close> under the shared lock; \<open>None\<close> is a miss.\<close>

definition update_lookup ::
  "(string \<Rightarrow> u8 list option) \<Rightarrow> packet_info \<Rightarrow> ns \<Rightarrow> flow_table \<Rightarrow> (flow_table \<times> flow_key option) option" where
  "update_lookup inet_pton info now ft =
     (case endpoint_addrs inet_pton info of
        None \<Rightarrow> Some (ft, None)
      | Some (src_addr, dst_addr) \<Rightarrow>
          (let key = make_key src_addr dst_addr (src_port info) (dst_port info) (ip_proto_num info)
           in case umap_find (ft_table ft) key of
                None \<Rightarrow> None
              | Some r \<Rightarrow> Some (ft\<lparr> ft_table := umap_put key
                    (update_record info (direction_of src_addr dst_addr) now r) (ft_table ft) \<rparr>, Some key)))"

definition wake_reaper :: "reaper_pc \<Rightarrow> reaper_pc" where
  "wake_reaper c = (if c = P_Waiting then P_Locked else c)"

inductive rt_step :: "(string \<Rightarrow> u8 list option) \<Rightarrow> tracker_label \<Rightarrow> tracker_state \<Rightarrow> tracker_state \<Rightarrow> bool"
  for inet_pton where
  test: "rt_reaper s = P_Top \<Longrightarrow> rt_running s \<Longrightarrow> rt_step inet_pton RL_Test s (s\<lparr> rt_reaper := P_Locked \<rparr>)"
| leave: "rt_reaper s = P_Top \<Longrightarrow> \<not> rt_running s \<Longrightarrow> rt_step inet_pton RL_Leave s (s\<lparr> rt_reaper := P_Exited \<rparr>)"
| wait: "rt_reaper s = P_Locked \<Longrightarrow> rt_running s \<Longrightarrow>
    rt_step inet_pton RL_Wait s (s\<lparr> rt_reaper := P_Predicate_False \<rparr>)"
| ready: "rt_reaper s = P_Locked \<Longrightarrow> \<not> rt_running s \<Longrightarrow> rt_step inet_pton RL_Ready s (s\<lparr> rt_reaper := P_After \<rparr>)"
| block: "rt_reaper s = P_Predicate_False \<Longrightarrow> rt_step inet_pton RL_Block s (s\<lparr> rt_reaper := P_Waiting \<rparr>)"
| spurious: "rt_reaper s = P_Waiting \<Longrightarrow> rt_step inet_pton RL_Wake s (s\<lparr> rt_reaper := P_Locked \<rparr>)"
| timeout: "rt_reaper s = P_Waiting \<Longrightarrow> rt_step inet_pton RL_Timeout s (s\<lparr> rt_reaper := P_After \<rparr>)"
| go: "rt_reaper s = P_After \<Longrightarrow> rt_running s \<Longrightarrow> rt_step inet_pton RL_Go s (s\<lparr> rt_reaper := P_Evict \<rparr>)"
| break: "rt_reaper s = P_After \<Longrightarrow> \<not> rt_running s \<Longrightarrow> rt_step inet_pton RL_Break s (s\<lparr> rt_reaper := P_Exited \<rparr>)"
| evict: "rt_reaper s = P_Evict \<Longrightarrow>
    rt_step inet_pton (RL_Evict now) s (s\<lparr> rt_reaper := P_Top, rt_table := evict_expired_flows now (rt_table s) \<rparr>)"
| hit: "rt_update s = U_Idle \<Longrightarrow> update_lookup inet_pton info now (rt_table s) = Some (ft, k) \<Longrightarrow>
    rt_step inet_pton (RL_Hit info now) s (s\<lparr> rt_table := ft \<rparr>)"
| miss: "rt_update s = U_Idle \<Longrightarrow> update_lookup inet_pton info now (rt_table s) = None \<Longrightarrow>
    rt_step inet_pton (RL_Miss info now) s (s\<lparr> rt_update := U_Missed info now \<rparr>)"
| insert: "rt_update s = U_Missed info now \<Longrightarrow>
    rt_step inet_pton (RL_Insert info now clk) s
      (s\<lparr> rt_update := U_Idle, rt_table := fst (ft_update inet_pton info now clk (rt_table s)) \<rparr>)"
| store: "rt_stop s = T_Not_Called \<Longrightarrow>
    rt_step inet_pton RL_Store s (s\<lparr> rt_running := False, rt_stop := T_Stored \<rparr>)"
| notify: "rt_stop s = T_Stored \<Longrightarrow>
    rt_step inet_pton RL_Notify s (s\<lparr> rt_stop := T_Joining, rt_reaper := wake_reaper (rt_reaper s) \<rparr>)"
| join: "rt_stop s = T_Joining \<Longrightarrow> rt_reaper s = P_Exited \<Longrightarrow>
    rt_step inet_pton RL_Join s (s\<lparr> rt_stop := T_Returned \<rparr>)"

inductive_cases rt_stepE: "rt_step inet_pton l s s'"

text \<open>\<open>start_reaper\<close> on a new table.\<close>

definition rt_init :: "flow_tracker_config \<Rightarrow> tracker_state" where
  "rt_init cfg = \<lparr> rt_table = new_flow_table cfg, rt_running = True, rt_reaper = P_Top, rt_update = U_Idle,
     rt_stop = T_Not_Called \<rparr>"

section \<open>Refinement of the atomic table\<close>

text \<open>
  The atomic operation a step stands for. A hit creates no record, so the clock reading of the
  record's constructor does not matter there.
\<close>

fun rt_event :: "tracker_label \<Rightarrow> ft_event list" where
  "rt_event (RL_Evict now) = [Ft_Evict now]"
| "rt_event (RL_Hit info now) = [Ft_Update info now 0]"
| "rt_event (RL_Insert info now clk) = [Ft_Update info now clk]"
| "rt_event _ = []"

lemma update_lookup_hit:
  "update_lookup inet_pton info now ft = Some r \<Longrightarrow> ft_update inet_pton info now clk ft = r"
  by (auto simp: update_lookup_def ft_update_def Let_def split: option.splits)

lemma rt_step_refines:
  "rt_step inet_pton l s s' \<Longrightarrow> rt_table s' = fold (ft_step inet_pton) (rt_event l) (rt_table s)"
  by (erule rt_stepE) (auto simp: update_lookup_hit)

interpretation rts: simulation "rt_step inet_pton" "rt_init cfg" "\<lambda>_. True" "ft_step inet_pton" rt_event rt_table
  by unfold_locales (simp_all add: rt_step_refines)

section \<open>The end of the reaper\<close>

definition reaper_rank :: "reaper_pc \<Rightarrow> nat" where
  "reaper_rank c = (case c of P_Exited \<Rightarrow> 0 | P_Top \<Rightarrow> 1 | P_After \<Rightarrow> 1 | P_Locked \<Rightarrow> 2 | P_Evict \<Rightarrow> 2
     | P_Waiting \<Rightarrow> 3 | P_Predicate_False \<Rightarrow> 4)"

text \<open>
  The steps the reaper takes by itself. A spurious wake-up is not one of them: nothing promises that
  it comes, so a blocked reaper has only the end of its interval to rely on.
\<close>

definition reaper_label :: "tracker_label \<Rightarrow> bool" where
  "reaper_label l \<longleftrightarrow> (case l of RL_Hit _ _ \<Rightarrow> False | RL_Miss _ _ \<Rightarrow> False | RL_Insert _ _ _ \<Rightarrow> False
     | RL_Store \<Rightarrow> False | RL_Notify \<Rightarrow> False | RL_Join \<Rightarrow> False | RL_Wake \<Rightarrow> False | _ \<Rightarrow> True)"

lemma reaper_step_decreases:
  "rt_step inet_pton l s s' \<Longrightarrow> reaper_label l \<Longrightarrow> \<not> rt_running s \<Longrightarrow>
   reaper_rank (rt_reaper s') < reaper_rank (rt_reaper s) \<and> \<not> rt_running s'"
  by (erule rt_stepE) (auto simp: reaper_label_def reaper_rank_def)

lemma reaper_step_enabled:
  assumes "\<not> rt_running s" "rt_reaper s \<noteq> P_Exited"
  shows "\<exists>l s'. reaper_label l \<and> rt_step inet_pton l s s' \<and> True"
proof (cases "rt_reaper s")
  case P_Top
  show ?thesis by (rule enabledI, rule leave) (use assms P_Top in \<open>simp_all add: reaper_label_def\<close>)
next
  case P_Locked
  show ?thesis by (rule enabledI, rule ready) (use assms P_Locked in \<open>simp_all add: reaper_label_def\<close>)
next
  case P_Predicate_False
  show ?thesis by (rule enabledI, rule block) (use assms P_Predicate_False in \<open>simp_all add: reaper_label_def\<close>)
next
  case P_Waiting
  show ?thesis by (rule enabledI, rule timeout) (use assms P_Waiting in \<open>simp_all add: reaper_label_def\<close>)
next
  case P_After
  show ?thesis by (rule enabledI, rule break) (use assms P_After in \<open>simp_all add: reaper_label_def\<close>)
next
  case P_Evict
  show ?thesis by (rule enabledI, rule evict) (use assms P_Evict in \<open>simp_all add: reaper_label_def\<close>)
qed (use assms in simp_all)

interpretation rte: ending reaper_label "rt_step inet_pton" "\<lambda>s. \<not> rt_running s" "\<lambda>s. reaper_rank (rt_reaper s)"
    "\<lambda>_. True" "\<lambda>s. rt_reaper s = P_Exited"
  by unfold_locales (simp add: reaper_step_decreases, rule reaper_step_enabled)

section \<open>Properties\<close>

text \<open>
  Claim C21. The flow table is linearizable: whatever the interleaving of the consumer's two locked sections,
  the reaper's evictions and \<open>stop_reaper\<close>, the table is the one of the atomic updates and evictions in
  the order of the sections, and it keeps its invariant.
\<close>

theorem tracker_linearizable:
  assumes "trace (rt_step inet_pton) (rt_init cfg) ls s"
  shows "rt_table s = fold (ft_step inet_pton) (concat (map rt_event ls)) (new_flow_table cfg) \<and> ft_inv (rt_table s)"
  using rts.trace_refines [OF assms] ftm.run_inv [OF ft_inv_new, of inet_pton "concat (map rt_event ls)" cfg] by (simp add: rt_init_def)

definition missed_state :: "flow_tracker_config \<Rightarrow> packet_info \<Rightarrow> tracker_state" where
  "missed_state cfg info = (rt_init cfg)\<lparr> rt_update := U_Missed info 0 \<rparr>"

lemma missed_state_reachable:
  assumes "endpoint_addrs inet_pton info \<noteq> None"
  shows "trace (rt_step inet_pton) (rt_init cfg) [RL_Miss info 0] (missed_state cfg info)"
proof -
  have "rt_step inet_pton (RL_Miss info 0) (rt_init cfg) (missed_state cfg info)"
    unfolding missed_state_def
    by (rule miss) (use assms in \<open>auto simp: rt_init_def update_lookup_def new_flow_table_def\<close>)
  then show ?thesis by (rule trace_single)
qed

definition sample_flow_packet :: packet_info where
  "sample_flow_packet = empty_info\<lparr> valid := True, l3_proto := L3_IPv4, src_ip := ''10.0.0.1'', dst_ip := ''10.0.0.2'' \<rparr>"

lemma tracker_linearizable_witness:
  "ft_inv (rt_table (missed_state default_flow_tracker sample_flow_packet))"
  by (rule tracker_linearizable [OF missed_state_reachable [of "\<lambda>_. None"], THEN conjunct2])
    (simp add: endpoint_addrs_def sample_flow_packet_def)

text \<open>
  Claim C40. \<open>stop_reaper\<close> cannot hang, because the reaper waits with a time limit: once \<open>running_\<close> is false,
  and with no notification and no spurious wake-up to come, the reaper takes at most four more
  steps, is never without a next step before it has ended, and so ends. This holds wherever it is, be it
  between the test of the predicate and the wait, where the notification is lost, or already
  waiting.
\<close>

theorem reaper_stops:
  assumes "\<not> rt_running s"
  shows "(\<forall>n s'. own_steps reaper_label (rt_step inet_pton) n s s' \<longrightarrow> n \<le> 4) \<and>
    (\<forall>n s'. own_steps reaper_label (rt_step inet_pton) n s s' \<and> rt_reaper s' \<noteq> P_Exited \<longrightarrow>
       (\<exists>l s''. reaper_label l \<and> rt_step inet_pton l s' s'')) \<and>
    (\<exists>n s'. own_steps reaper_label (rt_step inet_pton) n s s' \<and> rt_reaper s' = P_Exited)"
proof -
  have "reaper_rank (rt_reaper s) \<le> 4" by (simp add: reaper_rank_def split: reaper_pc.splits)
  from rte.stops [OF assms TrueI this] rte.stays_stopped [OF _ assms] reaper_step_enabled show ?thesis by blast
qed

definition lost_notification :: tracker_state where
  "lost_notification = (rt_init default_flow_tracker)\<lparr> rt_running := False, rt_reaper := P_Waiting, rt_stop := T_Joining \<rparr>"

lemma reaper_stops_witness:
  "\<exists>n s'. own_steps reaper_label (rt_step (\<lambda>_. None)) n lost_notification s' \<and> rt_reaper s' = P_Exited"
  using reaper_stops [of lost_notification "\<lambda>_. None"] by (simp add: lost_notification_def)

end
