(* ===== verification/RingWait.thy ===== *)
theory RingWait
  imports RingBuffer Traces
begin

text \<open>
  The wait in \<open>PacketRingBuffer::pop\<close> against \<open>push\<close> and \<open>shutdown\<close>, at the granularity of the
  synchronisation: the consumer checks the predicate under the mutex, then blocks and releases the
  mutex in one step; \<open>push\<close> changes the queue under the mutex and notifies afterwards; \<open>shutdown\<close>
  stores the flag without the mutex and notifies afterwards. A blocked consumer may also wake up
  spuriously, as the standard allows.

  \<open>wait_inv\<close> holds the invariant that a push never leaves a blocked consumer behind; every step is a
  stutter or one operation of the atomic ring (\<open>wait_step_refines\<close>);
  \<open>lost_state\<close> is a reachable state in which \<open>shutdown\<close> has returned and the consumer is blocked.
\<close>

datatype consumer_pc = At_Check | Predicate_False | Waiting_Cv | Exited

datatype producer_pc = At_Push | At_Notify

datatype stopper_pc = Not_Called | Flag_Stored | Returned

record wait_state =
  ws_ring :: ring
  ws_consumer :: consumer_pc
  ws_producer :: producer_pc
  ws_stopper :: stopper_pc

datatype wait_label = L_Check | L_Block | L_Push captured_packet | L_Notify_One | L_Store | L_Notify_All | L_Spurious

definition wake :: "consumer_pc \<Rightarrow> consumer_pc" where
  "wake c = (if c = Waiting_Cv then At_Check else c)"

inductive wait_step :: "wait_label \<Rightarrow> wait_state \<Rightarrow> wait_state \<Rightarrow> bool" where
  take: "ws_consumer s = At_Check \<Longrightarrow> rb_pop (ws_ring s) = (r, Popped p) \<Longrightarrow>
    wait_step L_Check s (s\<lparr> ws_ring := r \<rparr>)"
| finish: "ws_consumer s = At_Check \<Longrightarrow> rb_pop (ws_ring s) = (r, Pop_Finished) \<Longrightarrow>
    wait_step L_Check s (s\<lparr> ws_ring := r, ws_consumer := Exited \<rparr>)"
| not_ready: "ws_consumer s = At_Check \<Longrightarrow> rb_pop (ws_ring s) = (r, Pop_Blocked) \<Longrightarrow>
    wait_step L_Check s (s\<lparr> ws_consumer := Predicate_False \<rparr>)"
| block: "ws_consumer s = Predicate_False \<Longrightarrow> wait_step L_Block s (s\<lparr> ws_consumer := Waiting_Cv \<rparr>)"
| push_accept: "ws_producer s = At_Push \<Longrightarrow> ws_consumer s \<noteq> Predicate_False \<Longrightarrow>
    rb_push p (ws_ring s) = (r, True) \<Longrightarrow>
    wait_step (L_Push p) s (s\<lparr> ws_ring := r, ws_producer := At_Notify \<rparr>)"
| push_drop: "ws_producer s = At_Push \<Longrightarrow> ws_consumer s \<noteq> Predicate_False \<Longrightarrow>
    rb_push p (ws_ring s) = (r, False) \<Longrightarrow>
    wait_step (L_Push p) s (s\<lparr> ws_ring := r \<rparr>)"
| notify_one: "ws_producer s = At_Notify \<Longrightarrow>
    wait_step L_Notify_One s (s\<lparr> ws_producer := At_Push, ws_consumer := wake (ws_consumer s) \<rparr>)"
| store: "ws_stopper s = Not_Called \<Longrightarrow>
    wait_step L_Store s (s\<lparr> ws_ring := rb_shutdown_op (ws_ring s), ws_stopper := Flag_Stored \<rparr>)"
| notify_all: "ws_stopper s = Flag_Stored \<Longrightarrow>
    wait_step L_Notify_All s (s\<lparr> ws_stopper := Returned, ws_consumer := wake (ws_consumer s) \<rparr>)"
| spurious: "ws_consumer s = Waiting_Cv \<Longrightarrow> wait_step L_Spurious s (s\<lparr> ws_consumer := At_Check \<rparr>)"

inductive_cases wait_stepE: "wait_step l s s'"

definition wait_init :: "ring_buffer_config \<Rightarrow> wait_state" where
  "wait_init cfg = \<lparr> ws_ring = new_ring cfg, ws_consumer = At_Check, ws_producer = At_Push,
     ws_stopper = Not_Called \<rparr>"

text \<open>
  The invariant of the hand-over: a consumer that is blocked, or about to block, over a non-empty
  queue has a notification under way. The mutex makes it hold: a push cannot fall between the check
  and the block.
\<close>

definition wait_inv :: "wait_state \<Rightarrow> bool" where
  "wait_inv s \<longleftrightarrow>
     (ws_consumer s = Predicate_False \<longrightarrow> rb_queue (ws_ring s) = []) \<and>
     (ws_consumer s = Waiting_Cv \<and> rb_queue (ws_ring s) \<noteq> [] \<longrightarrow> ws_producer s = At_Notify) \<and>
     (ws_consumer s = Exited \<longrightarrow> rb_shut (ws_ring s)) \<and>
     (ws_stopper s \<noteq> Not_Called \<longrightarrow> rb_shut (ws_ring s))"

lemma wait_inv_step: "wait_inv s \<Longrightarrow> wait_step l s s' \<Longrightarrow> wait_inv s'"
  by (erule wait_stepE)
    (auto simp: wait_inv_def wake_def rb_pop_def rb_ready_def rb_push_def rb_shutdown_op_def
      split: if_splits list.splits)

lemma wait_inv_init: "wait_inv (wait_init cfg)"
  by (simp add: wait_inv_def wait_init_def)

text \<open>The atomic operation of a step; a check that finds nothing is a \<open>pop\<close> that changes nothing.\<close>

fun wait_event :: "wait_label \<Rightarrow> ring_event list" where
  "wait_event L_Check = [Ring_Pop]"
| "wait_event (L_Push p) = [Ring_Push p]"
| "wait_event L_Store = [Ring_Shutdown]"
| "wait_event _ = []"

lemma pop_blocked: "rb_pop s = (r, Pop_Blocked) \<Longrightarrow> r = s"
  by (auto simp: rb_pop_def split: if_splits list.splits)

lemma wait_step_refines: "wait_step l s s' \<Longrightarrow> ws_ring s' = fold ring_step (wait_event l) (ws_ring s)"
  by (erule wait_stepE) (auto dest: pop_blocked)

interpretation wts: simulation wait_step "wait_init cfg" wait_inv ring_step wait_event ws_ring
  by unfold_locales (simp_all add: wait_inv_init wait_inv_step wait_step_refines)

text \<open>The schedule that loses the wake-up of \<open>shutdown\<close>: check, store, notify, block.\<close>

definition lost_state :: "ring_buffer_config \<Rightarrow> wait_state" where
  "lost_state cfg = \<lparr> ws_ring = rb_shutdown_op (new_ring cfg), ws_consumer = Waiting_Cv,
     ws_producer = At_Push, ws_stopper = Returned \<rparr>"

lemma lost_state_reachable: "\<exists>ls. trace wait_step (wait_init cfg) ls (lost_state cfg)"
proof -
  let ?r = "new_ring cfg"
  let ?s1 = "(wait_init cfg)\<lparr> ws_consumer := Predicate_False \<rparr>"
  let ?s2 = "?s1\<lparr> ws_ring := rb_shutdown_op (ws_ring ?s1), ws_stopper := Flag_Stored \<rparr>"
  let ?s3 = "?s2\<lparr> ws_stopper := Returned, ws_consumer := wake (ws_consumer ?s2) \<rparr>"
  let ?s4 = "?s3\<lparr> ws_consumer := Waiting_Cv \<rparr>"
  have "path wait_step (wait_init cfg) [(L_Check, ?s1), (L_Store, ?s2), (L_Notify_All, ?s3), (L_Block, ?s4)]"
    unfolding path.simps
    by (intro conjI not_ready [of _ ?r] store notify_all block TrueI)
      (simp_all add: wait_init_def rb_pop_def rb_ready_def new_ring_def wake_def)
  from path_trace [OF this] show ?thesis by (auto simp: lost_state_def wait_init_def)
qed

lemma lost_state_steps: "wait_step l (lost_state cfg) s' \<Longrightarrow> l = L_Spurious \<or> (\<exists>p. l = L_Push p)"
  by (erule wait_stepE) (auto simp: lost_state_def)

section \<open>Properties\<close>

text \<open>
  Claim C10. A push is never lost on a waiting consumer: whenever the consumer is blocked and the queue is
  not empty, the producer is about to notify it.
\<close>

theorem push_not_lost:
  assumes "trace wait_step (wait_init cfg) ls s" "ws_consumer s = Waiting_Cv" "rb_queue (ws_ring s) \<noteq> []"
  shows "ws_producer s = At_Notify"
  using wts.trace_inv [OF assms(1)] assms(2,3) by (simp add: wait_inv_def)

definition pushed_state :: wait_state where
  "pushed_state = \<lparr> ws_ring = fst (rb_push (sample_packet 1) (new_ring \<lparr> max_capacity = 1 \<rparr>)),
     ws_consumer = Waiting_Cv, ws_producer = At_Notify, ws_stopper = Not_Called \<rparr>"

lemma pushed_state_reachable:
  "trace wait_step (wait_init \<lparr> max_capacity = 1 \<rparr>) [L_Check, L_Block, L_Push (sample_packet 1)] pushed_state"
proof -
  let ?cfg = "\<lparr> max_capacity = 1 \<rparr>"
  let ?s1 = "(wait_init ?cfg)\<lparr> ws_consumer := Predicate_False \<rparr>"
  let ?s2 = "?s1\<lparr> ws_consumer := Waiting_Cv \<rparr>"
  let ?s3 = "?s2\<lparr> ws_ring := fst (rb_push (sample_packet 1) (new_ring ?cfg)), ws_producer := At_Notify \<rparr>"
  have "path wait_step (wait_init ?cfg) [(L_Check, ?s1), (L_Block, ?s2), (L_Push (sample_packet 1), ?s3)]"
    unfolding path.simps
    by (intro conjI not_ready [of _ "new_ring ?cfg"] block push_accept TrueI)
      (simp_all add: wait_init_def rb_pop_def rb_ready_def new_ring_def rb_push_def)
  from path_trace [OF this] show ?thesis by (simp add: pushed_state_def wait_init_def)
qed

lemma push_not_lost_witness: "ws_producer pushed_state = At_Notify"
  by (rule push_not_lost [OF pushed_state_reachable])
    (simp_all add: pushed_state_def rb_push_def new_ring_def)

text \<open>
  A shutdown can be lost: there is a reachable state in which \<open>shutdown\<close> has returned and the
  consumer is blocked, and only a spurious wake-up or another packet leads out of it. The flag is
  stored without the mutex, between the consumer's check and its wait.
\<close>

theorem shutdown_can_be_lost:
  "\<exists>ls s. trace wait_step (wait_init cfg) ls s \<and> ws_stopper s = Returned \<and> rb_shut (ws_ring s) \<and> ws_consumer s = Waiting_Cv \<and>
     {l. \<exists>s'. wait_step l s s'} \<subseteq> insert L_Spurious (range L_Push)"
proof -
  obtain ls where "trace wait_step (wait_init cfg) ls (lost_state cfg)" using lost_state_reachable by blast
  then show ?thesis using lost_state_steps [of _ cfg]
    by (intro exI [of _ ls] exI [of _ "lost_state cfg"]) (auto simp: lost_state_def rb_shutdown_op_def)
qed

end
