(* ===== verification/Timestamp.thy ===== *)
theory Timestamp
  imports Delivery
begin

text \<open>
  \<open>ThreatAlert::make_iso8601_now\<close>: the wall clock as an ISO 8601 text in UTC, which the alerts, the
  database and the dashboard show. The reading of \<open>system_clock\<close> is an argument, in nanoseconds since
  1970; \<open>gmtime\<close> is the broken-down time the C library computes from it, and the conversion
  specifications of \<open>strftime\<close> are written out.
\<close>

section \<open>The calendar\<close>

definition leap_year :: "nat \<Rightarrow> bool" where
  "leap_year y \<longleftrightarrow> y mod 4 = 0 \<and> (y mod 100 \<noteq> 0 \<or> y mod 400 = 0)"

definition year_days :: "nat \<Rightarrow> nat" where
  "year_days y = (if leap_year y then 366 else 365)"

definition month_days :: "nat \<Rightarrow> nat list" where
  "month_days y = [31, if leap_year y then 29 else 28, 31, 30, 31, 30, 31, 31, 30, 31, 30, 31]"

text \<open>The year and the day in it, counting on from the first day of a year.\<close>

function year_of :: "nat \<Rightarrow> nat \<Rightarrow> nat \<times> nat" where
  "year_of y d = (if d < year_days y then (y, d) else year_of (y + 1) (d - year_days y))"
  by pat_completeness auto
termination
  by (relation "measure snd") (auto simp: year_days_def split: if_splits)

declare year_of.simps [simp del]

fun month_of :: "nat list \<Rightarrow> nat \<Rightarrow> nat \<times> nat" where
  "month_of [] d = (0, d)"
| "month_of (l # ls) d = (if d < l then (0, d) else let (m, r) = month_of ls (d - l) in (Suc m, r))"

record utc_time =
  tm_year :: nat
  tm_mon :: nat
  tm_mday :: nat
  tm_hour :: nat
  tm_min :: nat
  tm_sec :: nat

definition gmtime :: "nat \<Rightarrow> utc_time" where
  "gmtime t =
     (let (y, yday) = year_of 1970 (t div 86400); (m, d) = month_of (month_days y) yday; s = t mod 86400
      in \<lparr> tm_year = y, tm_mon = m + 1, tm_mday = d + 1, tm_hour = s div 3600, tm_min = s div 60 mod 60,
           tm_sec = s mod 60 \<rparr>)"

section \<open>The text\<close>

definition two_digits :: "nat \<Rightarrow> string" where
  "two_digits n = [digit_char (n div 10), digit_char (n mod 10)]"

definition iso8601 :: "utc_time \<Rightarrow> string" where
  "iso8601 tm = dec_string (tm_year tm) @ ''-'' @ two_digits (tm_mon tm) @ ''-'' @ two_digits (tm_mday tm) @ ''T'' @
     two_digits (tm_hour tm) @ '':'' @ two_digits (tm_min tm) @ '':'' @ two_digits (tm_sec tm) @ ''Z''"

definition make_iso8601_now :: "ns \<Rightarrow> string" where
  "make_iso8601_now clk = iso8601 (gmtime (nat (clk div 1000000000)))"

section \<open>Reading it back\<close>

text \<open>
  The seconds since the Epoch as POSIX defines them: the years from 1970 with their leap days, the
  day in the year and the time of day.
\<close>

definition leap_days :: "nat \<Rightarrow> nat" where
  "leap_days n = n div 4 + n div 400 - n div 100"

definition days_before_year :: "nat \<Rightarrow> nat" where
  "days_before_year y = 365 * (y - 1970) + leap_days (y - 1) - leap_days 1969"

definition epoch_seconds :: "nat \<Rightarrow> nat \<Rightarrow> nat \<Rightarrow> nat \<Rightarrow> nat \<Rightarrow> nat \<Rightarrow> nat" where
  "epoch_seconds y mo d h mi s =
     (let yday = sum_list (take (mo - 1) (month_days y)) + (d - 1)
      in s + 60 * mi + 3600 * h + 86400 * yday + 86400 * days_before_year y)"

definition number_at :: "string \<Rightarrow> nat \<Rightarrow> nat \<Rightarrow> nat" where
  "number_at s i n = digits_value (take n (drop i s))"

definition stamp_seconds :: "string \<Rightarrow> nat" where
  "stamp_seconds s = epoch_seconds (number_at s 0 4) (number_at s 5 2) (number_at s 8 2) (number_at s 11 2)
     (number_at s 14 2) (number_at s 17 2)"

definition clock_seconds :: "string \<Rightarrow> nat" where
  "clock_seconds s = 3600 * number_at s 0 2 + 60 * number_at s 3 2 + number_at s 6 2"

section \<open>Lemmas\<close>

lemma div_next: "0 < k \<Longrightarrow> Suc n div k = n div k + (if k dvd Suc n then 1 else 0)" for n k :: nat
  by (auto simp: div_Suc dvd_eq_mod_eq_0)

lemma leap_count:
  "p \<longrightarrow> q \<Longrightarrow> q \<longrightarrow> r \<Longrightarrow> c \<le> a \<Longrightarrow>
   a + (if r then 1 else 0) + (b + (if p then 1 else 0)) - (c + (if q then 1 else 0)) =
   a + b - c + (if r \<and> (\<not> q \<or> p) then 1 else 0)" for a b c :: nat
  by (cases p; cases q; cases r) simp_all

lemma leap_days_next: "leap_days (Suc n) = leap_days n + (if leap_year (Suc n) then 1 else 0)"
proof -
  have p: "400 dvd Suc n \<longrightarrow> 100 dvd Suc n" using dvd_trans [of 100 400 "Suc n"] by simp
  have q: "100 dvd Suc n \<longrightarrow> 4 dvd Suc n" using dvd_trans [of 4 100 "Suc n"] by simp
  have le: "n div 100 \<le> n div 4" by (rule div_le_mono2) simp_all
  have "Suc n div 4 = n div 4 + (if 4 dvd Suc n then 1 else 0)"
    "Suc n div 100 = n div 100 + (if 100 dvd Suc n then 1 else 0)"
    "Suc n div 400 = n div 400 + (if 400 dvd Suc n then 1 else 0)"
    by (rule div_next; simp)+
  then have "leap_days (Suc n) = n div 4 + (if 4 dvd Suc n then 1 else 0) +
      (n div 400 + (if 400 dvd Suc n then 1 else 0)) - (n div 100 + (if 100 dvd Suc n then 1 else 0))"
    by (simp only: leap_days_def)
  also have "\<dots> = n div 4 + n div 400 - n div 100 +
      (if 4 dvd Suc n \<and> (\<not> 100 dvd Suc n \<or> 400 dvd Suc n) then 1 else 0)"
    by (rule leap_count [OF p q le])
  finally show ?thesis by (simp only: leap_days_def leap_year_def mod_eq_0_iff_dvd)
qed

lemma leap_days_mono: "m \<le> n \<Longrightarrow> leap_days m \<le> leap_days n"
  by (induction n rule: dec_induct) (simp_all add: leap_days_next)

lemma days_before_next:
  assumes "1970 \<le> y"
  shows "days_before_year (y + 1) = days_before_year y + year_days y"
proof -
  obtain k where "y = 1970 + k" using assms by (metis le_Suc_ex)
  then have y: "y = Suc (1969 + k)" by simp
  have "leap_days 1969 \<le> leap_days (1969 + k)" by (rule leap_days_mono) simp
  then show ?thesis using leap_days_next [of "1969 + k"]
    by (cases "leap_year (Suc (1969 + k))") (simp_all add: days_before_year_def year_days_def y)
qed

lemma days_before_mono: "y \<le> z \<Longrightarrow> 1970 \<le> y \<Longrightarrow> days_before_year y \<le> days_before_year z"
proof (induction z rule: dec_induct)
  case (step n)
  then show ?case using days_before_next [of n] by simp
qed simp

lemma year_of_correct:
  "year_of y d = (y', d') \<Longrightarrow> 1970 \<le> y \<Longrightarrow>
   d' < year_days y' \<and> y \<le> y' \<and> days_before_year y' + d' = days_before_year y + d"
proof (induction y d rule: year_of.induct)
  case (1 y d)
  show ?case
  proof (cases "d < year_days y")
    case True
    then show ?thesis using 1(2) by (simp add: year_of.simps)
  next
    case False
    then have "year_of (y + 1) (d - year_days y) = (y', d')" using 1(2) by (subst (asm) year_of.simps) simp
    with 1(1) [OF False] 1(3) False show ?thesis using days_before_next [OF 1(3)] by simp
  qed
qed

lemma month_of_correct:
  "month_of ls d = (m, r) \<Longrightarrow> d < sum_list ls \<Longrightarrow>
   m < length ls \<and> r < ls ! m \<and> sum_list (take m ls) + r = d"
proof (induction ls d arbitrary: m r rule: month_of.induct)
  case (2 l ls d)
  show ?case
  proof (cases "d < l")
    case False
    obtain m' r' where "month_of ls (d - l) = (m', r')" by fastforce
    with 2 False show ?thesis by fastforce
  qed (use 2(2) in simp)
qed simp

lemma sum_month_days: "sum_list (month_days y) = year_days y"
  by (simp add: month_days_def year_days_def)

lemma month_days_le: "m < 12 \<Longrightarrow> month_days y ! m \<le> 31"
  by (simp add: month_days_def nth_Cons' numeral_nat)

lemma gmtime_correct:
  assumes "t < 253402300800"
  shows "epoch_seconds (tm_year (gmtime t)) (tm_mon (gmtime t)) (tm_mday (gmtime t)) (tm_hour (gmtime t))
      (tm_min (gmtime t)) (tm_sec (gmtime t)) = t"
    and "1970 \<le> tm_year (gmtime t)" "tm_year (gmtime t) < 10000" "tm_mon (gmtime t) \<le> 12" "tm_mday (gmtime t) \<le> 31"
    and "tm_hour (gmtime t) < 24" "tm_min (gmtime t) < 60" "tm_sec (gmtime t) < 60"
    and "3600 * tm_hour (gmtime t) + 60 * tm_min (gmtime t) + tm_sec (gmtime t) = t mod 86400"
proof -
  obtain y yd where y: "year_of 1970 (t div 86400) = (y, yd)" by fastforce
  obtain m d where m: "month_of (month_days y) yd = (m, d)" by fastforce
  have Y: "yd < year_days y" "1970 \<le> y" "days_before_year y + yd = t div 86400"
    using year_of_correct [OF y] by (simp_all add: days_before_year_def)
  have M: "m < 12" "d < month_days y ! m" "sum_list (take m (month_days y)) + d = yd"
    using month_of_correct [OF m] Y(1) by (simp_all add: sum_month_days) (simp add: month_days_def)
  have sec: "s mod 60 + 60 * (s div 60 mod 60) + 3600 * (s div 3600) = s" for s :: nat
  proof -
    have "s div 3600 = s div 60 div 60" by (simp add: div_mult2_eq [symmetric])
    moreover have "60 * (s div 60) + s mod 60 = s" "60 * (s div 60 div 60) + s div 60 mod 60 = s div 60" by simp_all
    ultimately show ?thesis by linarith
  qed
  let ?s = "t mod 86400"
  show clock: "3600 * tm_hour (gmtime t) + 60 * tm_min (gmtime t) + tm_sec (gmtime t) = ?s"
    using sec [of ?s] by (simp add: gmtime_def y m Let_def)
  have "epoch_seconds (tm_year (gmtime t)) (tm_mon (gmtime t)) (tm_mday (gmtime t)) (tm_hour (gmtime t))
      (tm_min (gmtime t)) (tm_sec (gmtime t)) = ?s + 86400 * (days_before_year y + yd)"
    using sec [of ?s] M(3) by (simp add: epoch_seconds_def gmtime_def y m Let_def algebra_simps)
  then show "epoch_seconds (tm_year (gmtime t)) (tm_mon (gmtime t)) (tm_mday (gmtime t)) (tm_hour (gmtime t))
      (tm_min (gmtime t)) (tm_sec (gmtime t)) = t"
    by (simp add: Y(3))
  have "days_before_year y < days_before_year 10000" using Y(3) assms by (simp add: days_before_year_def [of 10000] leap_days_def [of 9999] leap_days_def [of 1969])
  then show "tm_year (gmtime t) < 10000" using days_before_mono [of 10000 y]
    by (simp add: gmtime_def y m Let_def) (meson le_less_linear not_le)
  show "1970 \<le> tm_year (gmtime t)" "tm_mon (gmtime t) \<le> 12" "tm_mday (gmtime t) \<le> 31"
    using Y(2) M(1,2) month_days_le [OF M(1), of y] by (simp_all add: gmtime_def y m Let_def)
  show "tm_hour (gmtime t) < 24" "tm_min (gmtime t) < 60" "tm_sec (gmtime t) < 60"
    by (simp_all add: gmtime_def y m Let_def less_mult_imp_div_less)
qed

lemma digits_two: "n < 100 \<Longrightarrow> digits_value (two_digits n) = n"
  by (simp add: two_digits_def digits_value_def of_char_digit)

lemma year_four: "1000 \<le> y \<Longrightarrow> y < 10000 \<Longrightarrow> length (dec_string y) = 4"
  unfolding dec_string_def
  by (subst radix_string.simps, subst radix_string.simps, subst radix_string.simps, subst radix_string.simps) auto

lemma iso8601_fields:
  assumes "length ys = 4" and "stamp = ys @ ''-'' @ two_digits mo @ ''-'' @ two_digits d @ ''T'' @
    two_digits h @ '':'' @ two_digits mi @ '':'' @ two_digits s @ ''Z''"
  shows "take 4 stamp = ys" "take 2 (drop 5 stamp) = two_digits mo" "take 2 (drop 8 stamp) = two_digits d"
    "take 2 (drop 11 stamp) = two_digits h" "take 2 (drop 14 stamp) = two_digits mi"
    "take 2 (drop 17 stamp) = two_digits s" "length stamp = 20"
    "short_time stamp = two_digits h @ '':'' @ two_digits mi @ '':'' @ two_digits s"
proof -
  obtain a b c e where "ys = [a, b, c, e]" using assms(1) by (auto simp: numeral_eq_Suc length_Suc_conv)
  then show "take 4 stamp = ys" "take 2 (drop 5 stamp) = two_digits mo" "take 2 (drop 8 stamp) = two_digits d"
    "take 2 (drop 11 stamp) = two_digits h" "take 2 (drop 14 stamp) = two_digits mi"
    "take 2 (drop 17 stamp) = two_digits s" "length stamp = 20"
    "short_time stamp = two_digits h @ '':'' @ two_digits mi @ '':'' @ two_digits s"
    by (simp_all add: assms(2) two_digits_def short_time_def)
qed

section \<open>Properties\<close>

text \<open>
  Claim C36. The time stamps are exact: for every reading of the wall clock up to the end of the year 9999
  the text has 20 characters, its fields are a date and a time that POSIX converts back to the
  seconds of the reading, and what the dashboard cuts out of it is the time of day in UTC.
\<close>

theorem timestamp_roundtrip:
  assumes "0 \<le> clk" "clk < 253402300800 * 1000000000"
  shows "int (stamp_seconds (make_iso8601_now clk)) = clk div 1000000000 \<and> length (make_iso8601_now clk) = 20 \<and>
    int (clock_seconds (short_time (make_iso8601_now clk))) = clk div 1000000000 mod 86400"
proof -
  define t where "t = nat (clk div 1000000000)"
  have "t < 253402300800" using assms by (simp add: t_def nat_less_iff)
  note g = gmtime_correct [OF this]
  have len: "length (dec_string (tm_year (gmtime t))) = 4" using g(2,3) by (intro year_four) simp_all
  note f = iso8601_fields [OF len iso8601_def]
  have "int t = clk div 1000000000" using assms(1) by (simp add: t_def)
  moreover have "stamp_seconds (iso8601 (gmtime t)) = t"
    using g by (simp add: stamp_seconds_def number_at_def f digits_two)
  moreover have "clock_seconds (short_time (iso8601 (gmtime t))) = t mod 86400"
    using g(6-9) unfolding f(8)
    by (simp add: clock_seconds_def number_at_def digits_two [unfolded two_digits_def] two_digits_def)
  ultimately show ?thesis using f(7) by (simp add: make_iso8601_now_def t_def [symmetric] zmod_int)
qed

lemma timestamp_roundtrip_witness: "int (stamp_seconds (make_iso8601_now 1700000000123456789)) = 1700000000"
  using timestamp_roundtrip [of 1700000000123456789] by simp

end
