(* ===== verification/WriterWait.thy ===== *)
theory WriterWait
  imports Delivery Traces
begin

text \<open>
  The writer thread of \<open>DeliveryLayer\<close> against \<open>enqueue_alert\<close> and \<open>stop\<close>, at the granularity of the
  synchronisation. The writer tests \<open>running_\<close>, locks the queue, tests the predicate of the wait,
  and either takes an alert or blocks, releasing the mutex in the same step; it persists, prints
  and shows the alert without the mutex. \<open>enqueue_alert\<close> pushes under the mutex and notifies
  afterwards. \<open>stop\<close> stores \<open>running_\<close> without the mutex, notifies, and joins the writer. The last
  loop of the writer holds the mutex from its first step to its end.

  \<open>wl_abs\<close> maps a state of this system to one of the atomic model of \<open>Delivery\<close>; every step is a
  stutter or one of its operations (\<open>wl_step_refines\<close>), so a run of the threads is a run of
  \<open>enqueue_alert\<close>, \<open>writer_turn\<close> and \<open>dl_stop\<close>. Whether an INSERT succeeds is the parameter \<open>ok\<close>.
\<close>

section \<open>The threads\<close>

datatype writer_pc = W_Top | W_Locked | W_Predicate_False | W_Blocked
  | W_Taken threat_alert | W_Persisted threat_alert | W_Shown threat_alert | W_Drain | W_Exited

datatype enqueuer_pc = E_Idle | E_Notify

datatype stop_pc = S_Not_Called | S_Stored | S_Joining | S_Returned

record writer_state =
  wl_layer :: delivery_layer
  wl_writer :: writer_pc
  wl_enqueuer :: enqueuer_pc
  wl_stop :: stop_pc

datatype writer_label = WL_Test | WL_Leave | WL_Take | WL_Empty | WL_Retry | WL_Block | WL_Persist | WL_Print
  | WL_Show | WL_Drain_One | WL_Drain_End | WL_Enqueue threat_alert | WL_Notify_One | WL_Store | WL_Notify_All
  | WL_Join | WL_Spurious

definition wake_writer :: "writer_pc \<Rightarrow> writer_pc" where
  "wake_writer c = (if c = W_Blocked then W_Locked else c)"

definition print_alert :: "threat_alert \<Rightarrow> delivery_layer \<Rightarrow> delivery_layer" where
  "print_alert a d = (if \<not> dl_ncurses d then d\<lparr> dl_printed := dl_printed d @ [a] \<rparr> else d)"

definition show_alert :: "threat_alert \<Rightarrow> delivery_layer \<Rightarrow> delivery_layer" where
  "show_alert a d = d\<lparr> dl_display := push_display a (dl_display d) \<rparr>"

definition close_layer :: "delivery_layer \<Rightarrow> delivery_layer" where
  "close_layer d = d\<lparr> dl_ncurses := False, dl_db_open := False, dl_stmt_ready := False \<rparr>"

definition queue_locked :: "writer_pc \<Rightarrow> bool" where
  "queue_locked c \<longleftrightarrow> c = W_Predicate_False \<or> c = W_Drain"

inductive wl_step :: "(db_row \<Rightarrow> bool) \<Rightarrow> writer_label \<Rightarrow> writer_state \<Rightarrow> writer_state \<Rightarrow> bool" for ok where
  test: "wl_writer s = W_Top \<Longrightarrow> dl_running (wl_layer s) \<Longrightarrow>
    wl_step ok WL_Test s (s\<lparr> wl_writer := W_Locked \<rparr>)"
| leave: "wl_writer s = W_Top \<Longrightarrow> \<not> dl_running (wl_layer s) \<Longrightarrow>
    wl_step ok WL_Leave s (s\<lparr> wl_writer := W_Drain \<rparr>)"
| take: "wl_writer s = W_Locked \<Longrightarrow> dl_queue (wl_layer s) = a # rest \<Longrightarrow>
    wl_step ok WL_Take s (s\<lparr> wl_writer := W_Taken a, wl_layer := (wl_layer s)\<lparr> dl_queue := rest \<rparr> \<rparr>)"
| empty: "wl_writer s = W_Locked \<Longrightarrow> dl_queue (wl_layer s) = [] \<Longrightarrow> dl_running (wl_layer s) \<Longrightarrow>
    wl_step ok WL_Empty s (s\<lparr> wl_writer := W_Predicate_False \<rparr>)"
| retry: "wl_writer s = W_Locked \<Longrightarrow> dl_queue (wl_layer s) = [] \<Longrightarrow> \<not> dl_running (wl_layer s) \<Longrightarrow>
    wl_step ok WL_Retry s (s\<lparr> wl_writer := W_Top \<rparr>)"
| block: "wl_writer s = W_Predicate_False \<Longrightarrow> wl_step ok WL_Block s (s\<lparr> wl_writer := W_Blocked \<rparr>)"
| persist: "wl_writer s = W_Taken a \<Longrightarrow>
    wl_step ok WL_Persist s (s\<lparr> wl_writer := W_Persisted a, wl_layer := persist_alert ok a (wl_layer s) \<rparr>)"
| print_out: "wl_writer s = W_Persisted a \<Longrightarrow>
    wl_step ok WL_Print s (s\<lparr> wl_writer := W_Shown a, wl_layer := print_alert a (wl_layer s) \<rparr>)"
| display: "wl_writer s = W_Shown a \<Longrightarrow>
    wl_step ok WL_Show s (s\<lparr> wl_writer := W_Top, wl_layer := show_alert a (wl_layer s) \<rparr>)"
| drain_one: "wl_writer s = W_Drain \<Longrightarrow> dl_queue (wl_layer s) = a # rest \<Longrightarrow>
    wl_step ok WL_Drain_One s (s\<lparr> wl_layer := (persist_alert ok a (wl_layer s))\<lparr> dl_queue := rest \<rparr> \<rparr>)"
| drain_end: "wl_writer s = W_Drain \<Longrightarrow> dl_queue (wl_layer s) = [] \<Longrightarrow>
    wl_step ok WL_Drain_End s (s\<lparr> wl_writer := W_Exited \<rparr>)"
| enqueue: "wl_enqueuer s = E_Idle \<Longrightarrow> \<not> queue_locked (wl_writer s) \<Longrightarrow>
    wl_step ok (WL_Enqueue a) s (s\<lparr> wl_layer := enqueue_alert a (wl_layer s), wl_enqueuer := E_Notify \<rparr>)"
| notify_one: "wl_enqueuer s = E_Notify \<Longrightarrow>
    wl_step ok WL_Notify_One s (s\<lparr> wl_enqueuer := E_Idle, wl_writer := wake_writer (wl_writer s) \<rparr>)"
| store: "wl_stop s = S_Not_Called \<Longrightarrow>
    wl_step ok WL_Store s (s\<lparr> wl_layer := (wl_layer s)\<lparr> dl_running := False \<rparr>, wl_stop := S_Stored \<rparr>)"
| notify_all: "wl_stop s = S_Stored \<Longrightarrow>
    wl_step ok WL_Notify_All s (s\<lparr> wl_stop := S_Joining, wl_writer := wake_writer (wl_writer s) \<rparr>)"
| join: "wl_stop s = S_Joining \<Longrightarrow> wl_writer s = W_Exited \<Longrightarrow>
    wl_step ok WL_Join s (s\<lparr> wl_layer := close_layer (wl_layer s), wl_stop := S_Returned \<rparr>)"
| spurious: "wl_writer s = W_Blocked \<Longrightarrow> wl_step ok WL_Spurious s (s\<lparr> wl_writer := W_Locked \<rparr>)"

inductive_cases wl_stepE: "wl_step ok l s s'"

definition wl_init :: "delivery_layer \<Rightarrow> writer_state" where
  "wl_init d = \<lparr> wl_layer = d\<lparr> dl_running := True \<rparr>, wl_writer = W_Top, wl_enqueuer = E_Idle, wl_stop = S_Not_Called \<rparr>"

section \<open>The invariant\<close>

definition wl_inv :: "writer_state \<Rightarrow> bool" where
  "wl_inv s \<longleftrightarrow>
     (wl_stop s = S_Not_Called \<longleftrightarrow> dl_running (wl_layer s)) \<and>
     (wl_writer s = W_Drain \<or> wl_writer s = W_Exited \<longrightarrow> \<not> dl_running (wl_layer s)) \<and>
     (wl_writer s = W_Predicate_False \<longrightarrow> dl_queue (wl_layer s) = []) \<and>
     (wl_writer s = W_Blocked \<and> dl_queue (wl_layer s) \<noteq> [] \<longrightarrow> wl_enqueuer s = E_Notify) \<and>
     (wl_stop s = S_Returned \<longrightarrow> wl_writer s = W_Exited)"

lemma layer_frame [simp]:
  "dl_queue (print_alert a d) = dl_queue d" "dl_running (print_alert a d) = dl_running d"
  "dl_queue (show_alert a d) = dl_queue d" "dl_running (show_alert a d) = dl_running d"
  "dl_queue (close_layer d) = dl_queue d" "dl_running (close_layer d) = dl_running d"
  "dl_queue (enqueue_alert a d) = dl_queue d @ [a]" "dl_running (enqueue_alert a d) = dl_running d"
  by (simp_all add: print_alert_def show_alert_def close_layer_def enqueue_alert_def)

lemma wl_inv_step: "wl_step ok l s s' \<Longrightarrow> wl_inv s \<Longrightarrow> wl_inv s'"
  by (erule wl_stepE) (auto simp: wl_inv_def wake_writer_def queue_locked_def)

lemma wl_inv_init: "wl_inv (wl_init d)"
  by (simp add: wl_inv_def wl_init_def)

section \<open>Refinement of the atomic layer\<close>

text \<open>
  What the writer still owes to the alert it has taken is done at once; the layer counts as running
  until the writer has left its loop, and as stopped and drained from then on.
\<close>

definition wl_abs :: "(db_row \<Rightarrow> bool) \<Rightarrow> writer_state \<Rightarrow> delivery_layer" where
  "wl_abs ok s =
     (case wl_writer s of
        W_Taken a \<Rightarrow> show_alert a (print_alert a (persist_alert ok a ((wl_layer s)\<lparr> dl_running := True \<rparr>)))
      | W_Persisted a \<Rightarrow> show_alert a (print_alert a ((wl_layer s)\<lparr> dl_running := True \<rparr>))
      | W_Shown a \<Rightarrow> show_alert a ((wl_layer s)\<lparr> dl_running := True \<rparr>)
      | W_Drain \<Rightarrow> close_layer (writer_drain ok (wl_layer s))
      | W_Exited \<Rightarrow> close_layer (wl_layer s)
      | _ \<Rightarrow> (wl_layer s)\<lparr> dl_running := True \<rparr>)"

fun wl_event :: "(db_row \<Rightarrow> bool) \<Rightarrow> writer_label \<Rightarrow> dl_event list" where
  "wl_event ok WL_Take = [Dl_Turn ok]"
| "wl_event ok WL_Leave = [Dl_Stop ok]"
| "wl_event ok (WL_Enqueue a) = [Dl_Enqueue a]"
| "wl_event ok _ = []"

lemma persist_running: "persist_alert ok a (d\<lparr>dl_running := b\<rparr>) = (persist_alert ok a d)\<lparr>dl_running := b\<rparr>"
  by (simp add: persist_alert_def Let_def)

lemma print_running: "print_alert a (d\<lparr>dl_running := b\<rparr>) = (print_alert a d)\<lparr>dl_running := b\<rparr>"
  by (simp add: print_alert_def)

lemma enqueue_commutes:
  "persist_alert ok a (enqueue_alert b d) = enqueue_alert b (persist_alert ok a d)"
  "print_alert a (enqueue_alert b d) = enqueue_alert b (print_alert a d)"
  "show_alert a (enqueue_alert b d) = enqueue_alert b (show_alert a d)"
  "close_layer (enqueue_alert b d) = enqueue_alert b (close_layer d)"
  "(enqueue_alert b d)\<lparr>dl_running := r\<rparr> = enqueue_alert b (d\<lparr>dl_running := r\<rparr>)"
  by (simp_all add: enqueue_alert_def persist_alert_def print_alert_def show_alert_def close_layer_def Let_def)

lemma turn_parts:
  "dl_running d \<Longrightarrow> dl_queue d = a # rest \<Longrightarrow>
   writer_turn ok d = show_alert a (print_alert a (persist_alert ok a (d\<lparr>dl_queue := rest\<rparr>)))"
  by (simp add: writer_turn_def show_alert_def print_alert_def Let_def)

lemma stop_parts: "dl_running d \<Longrightarrow> dl_stop ok d = close_layer (writer_drain ok (d\<lparr>dl_running := False\<rparr>))"
  by (simp add: dl_stop_def close_layer_def)

lemma drain_empty: "dl_queue d = [] \<Longrightarrow> writer_drain ok d = d"
  by (subst writer_drain.simps) simp

lemma drain_cons: "dl_queue d = a # rest \<Longrightarrow> writer_drain ok d = writer_drain ok ((persist_alert ok a d)\<lparr>dl_queue := rest\<rparr>)"
  by (subst writer_drain.simps) simp

lemma update_swap: "d\<lparr>dl_queue := q, dl_running := b\<rparr> = d\<lparr>dl_running := b, dl_queue := q\<rparr>"
  by simp

lemma running_again: "\<not> dl_running d \<Longrightarrow> d\<lparr>dl_running := False\<rparr> = d"
  by simp

lemma close_twice [simp]: "close_layer (close_layer d) = close_layer d"
  by (simp add: close_layer_def)

lemma wl_step_refines:
  assumes "wl_step ok l s s'" "wl_inv s"
  shows "wl_abs ok s' = fold dl_step (wl_event ok l) (wl_abs ok s)"
  using assms(1)
proof cases
  case leave
  then show ?thesis using stop_parts [of "(wl_layer s)\<lparr>dl_running := True\<rparr>" ok]
    by (simp add: wl_abs_def running_again)
next
  case (take a rest)
  then show ?thesis using turn_parts [of "(wl_layer s)\<lparr>dl_running := True\<rparr>" a rest ok]
    by (simp add: wl_abs_def update_swap)
next
  case (drain_one a rest)
  then show ?thesis using drain_cons [of "wl_layer s" a rest ok] by (simp add: wl_abs_def)
next
  case (enqueue a)
  then show ?thesis
    by (simp add: wl_abs_def queue_locked_def enqueue_commutes split: writer_pc.splits)
next
  case store
  with assms(2) show ?thesis
    by (auto simp: wl_abs_def wl_inv_def split: writer_pc.splits)
next
  case (persist a)
  then show ?thesis by (simp add: wl_abs_def persist_running)
next
  case (print_out a)
  then show ?thesis by (simp add: wl_abs_def print_running)
qed (use assms(2) in \<open>simp_all add: wl_abs_def wake_writer_def drain_empty show_alert_def wl_inv_def
  split: writer_pc.splits\<close>)

interpretation wls: simulation "wl_step ok" "wl_init d" wl_inv dl_step "wl_event ok" "wl_abs ok"
  by unfold_locales (simp_all add: wl_inv_init wl_inv_step wl_step_refines)

lemma wl_abs_init [simp]: "wl_abs ok (wl_init d) = d\<lparr>dl_running := True\<rparr>"
  by (simp add: wl_abs_def wl_init_def)

section \<open>What is left behind\<close>

text \<open>The alerts enqueued in a trace, and the part of it behind the end of the writer's loop.\<close>

fun wl_alerts :: "writer_label list \<Rightarrow> threat_alert list" where
  "wl_alerts [] = []"
| "wl_alerts (WL_Enqueue a # ls) = a # wl_alerts ls"
| "wl_alerts (l # ls) = wl_alerts ls"

definition after_leave :: "writer_label list \<Rightarrow> writer_label list" where
  "after_leave ls = tl (dropWhile (\<lambda>l. l \<noteq> WL_Leave) ls)"

lemma wl_alerts_snoc: "wl_alerts (ls @ [l]) = wl_alerts ls @ (case l of WL_Enqueue a \<Rightarrow> [a] | _ \<Rightarrow> [])"
  by (induction ls rule: wl_alerts.induct) (simp_all split: writer_label.split)

lemma wl_alerts_enqueued: "enqueued (concat (map (wl_event ok) ls)) = wl_alerts ls"
  by (induction ls rule: wl_alerts.induct) simp_all

lemma after_leave_snoc:
  "after_leave (ls @ [l]) = (if WL_Leave \<in> set ls then after_leave ls @ [l] else [])"
proof (cases "WL_Leave \<in> set ls")
  case True
  then have "dropWhile (\<lambda>l. l \<noteq> WL_Leave) ls \<noteq> []" by (simp add: dropWhile_eq_Nil_conv)
  with True show ?thesis by (simp add: after_leave_def)
next
  case False
  then have "dropWhile (\<lambda>l. l \<noteq> WL_Leave) ls = []" by (auto simp: dropWhile_eq_Nil_conv)
  with False show ?thesis by (auto simp: after_leave_def dropWhile_append)
qed

definition left_inv :: "writer_label list \<Rightarrow> writer_state \<Rightarrow> bool" where
  "left_inv ls s \<longleftrightarrow> (WL_Leave \<in> set ls \<longleftrightarrow> wl_writer s = W_Drain \<or> wl_writer s = W_Exited) \<and>
     (wl_writer s = W_Drain \<longrightarrow> wl_alerts (after_leave ls) = []) \<and>
     (wl_writer s = W_Exited \<longrightarrow> dl_queue (wl_layer s) = wl_alerts (after_leave ls))"

lemma left_inv_step: "wl_step ok l s s' \<Longrightarrow> left_inv ls s \<Longrightarrow> left_inv (ls @ [l]) s'"
  by (erule wl_stepE)
    (auto simp: left_inv_def after_leave_snoc wl_alerts_snoc wake_writer_def queue_locked_def)

lemma wl_trace_left: "trace (wl_step ok) (wl_init d) ls s \<Longrightarrow> left_inv ls s"
  by (induction rule: trace.induct)
    (simp add: left_inv_def wl_init_def, erule (1) left_inv_step)

section \<open>The work left to a stopped writer\<close>

definition writer_rank :: "writer_pc \<Rightarrow> nat" where
  "writer_rank c = (case c of W_Exited \<Rightarrow> 0 | W_Drain \<Rightarrow> 1 | W_Top \<Rightarrow> 2 | W_Locked \<Rightarrow> 3 | W_Shown _ \<Rightarrow> 3
     | W_Persisted _ \<Rightarrow> 4 | W_Taken _ \<Rightarrow> 5 | W_Predicate_False \<Rightarrow> 5 | W_Blocked \<Rightarrow> 4)"

definition writer_work :: "writer_state \<Rightarrow> nat" where
  "writer_work s = 6 * length (dl_queue (wl_layer s)) + writer_rank (wl_writer s)"

definition of_writer :: "writer_label \<Rightarrow> bool" where
  "of_writer l \<longleftrightarrow> l \<in> {WL_Test, WL_Leave, WL_Take, WL_Empty, WL_Retry, WL_Block, WL_Persist, WL_Print,
     WL_Show, WL_Drain_One, WL_Drain_End}"

text \<open>Blocked in the wait, or about to block.\<close>

definition queue_waits :: "writer_pc \<Rightarrow> bool" where
  "queue_waits c \<longleftrightarrow> c = W_Blocked \<or> c = W_Predicate_False"

lemma writer_step_decreases:
  "wl_step ok l s s' \<Longrightarrow> of_writer l \<Longrightarrow> \<not> dl_running (wl_layer s) \<Longrightarrow>
   writer_work s' < writer_work s \<and> \<not> dl_running (wl_layer s')"
  by (erule wl_stepE) (auto simp: writer_work_def writer_rank_def of_writer_def)

lemma writer_step_enabled:
  assumes "\<not> dl_running (wl_layer s)" "\<not> queue_waits (wl_writer s)" "wl_writer s \<noteq> W_Exited"
  shows "\<exists>l s'. of_writer l \<and> wl_step ok l s s' \<and> \<not> queue_waits (wl_writer s')"
proof (cases "wl_writer s")
  case W_Top
  show ?thesis by (rule enabledI, rule leave) (use assms W_Top in \<open>simp_all add: of_writer_def queue_waits_def\<close>)
next
  case W_Locked
  show ?thesis
  proof (cases "dl_queue (wl_layer s)")
    case Nil
    show ?thesis by (rule enabledI, rule retry) (use assms W_Locked Nil in \<open>simp_all add: of_writer_def queue_waits_def\<close>)
  next
    case (Cons a rest)
    show ?thesis by (rule enabledI, rule take) (use assms W_Locked Cons in \<open>simp_all add: of_writer_def queue_waits_def\<close>)
  qed
next
  case W_Drain
  show ?thesis
  proof (cases "dl_queue (wl_layer s)")
    case Nil
    show ?thesis by (rule enabledI, rule drain_end) (use assms W_Drain Nil in \<open>simp_all add: of_writer_def queue_waits_def\<close>)
  next
    case (Cons a rest)
    show ?thesis by (rule enabledI, rule drain_one) (use assms W_Drain Cons in \<open>simp_all add: of_writer_def queue_waits_def\<close>)
  qed
next
  case (W_Taken a)
  show ?thesis by (rule enabledI, rule persist) (use assms W_Taken in \<open>simp_all add: of_writer_def queue_waits_def\<close>)
next
  case (W_Persisted a)
  show ?thesis by (rule enabledI, rule print_out) (use assms W_Persisted in \<open>simp_all add: of_writer_def queue_waits_def\<close>)
next
  case (W_Shown a)
  show ?thesis by (rule enabledI, rule display) (use assms W_Shown in \<open>simp_all add: of_writer_def queue_waits_def\<close>)
qed (use assms in \<open>simp_all add: queue_waits_def\<close>)

interpretation wle: ending of_writer "wl_step ok" "\<lambda>s. \<not> dl_running (wl_layer s)" writer_work
    "\<lambda>s. \<not> queue_waits (wl_writer s)" "\<lambda>s. wl_writer s = W_Exited"
  by unfold_locales (rule writer_step_decreases, assumption+, rule writer_step_enabled)

text \<open>The schedule that loses the notification of \<open>stop\<close>: test, store, notify, block.\<close>

definition hung_state :: "delivery_layer \<Rightarrow> writer_state" where
  "hung_state d = \<lparr> wl_layer = d\<lparr> dl_running := False \<rparr>, wl_writer = W_Blocked, wl_enqueuer = E_Idle,
     wl_stop = S_Joining \<rparr>"

lemma hung_state_reachable:
  assumes "dl_queue d = []"
  shows "trace (wl_step ok) (wl_init d) [WL_Test, WL_Empty, WL_Store, WL_Notify_All, WL_Block] (hung_state d)"
proof -
  let ?s1 = "(wl_init d)\<lparr> wl_writer := W_Locked \<rparr>"
  let ?s2 = "?s1\<lparr> wl_writer := W_Predicate_False \<rparr>"
  let ?s3 = "?s2\<lparr> wl_layer := (wl_layer ?s2)\<lparr> dl_running := False \<rparr>, wl_stop := S_Stored \<rparr>"
  let ?s4 = "?s3\<lparr> wl_stop := S_Joining, wl_writer := wake_writer (wl_writer ?s3) \<rparr>"
  let ?s5 = "?s4\<lparr> wl_writer := W_Blocked \<rparr>"
  have "path (wl_step ok) (wl_init d)
      [(WL_Test, ?s1), (WL_Empty, ?s2), (WL_Store, ?s3), (WL_Notify_All, ?s4), (WL_Block, ?s5)]"
    unfolding path.simps
    by (intro conjI test empty store notify_all block TrueI) (simp_all add: wl_init_def wake_writer_def assms)
  from path_trace [OF this] show ?thesis by (simp add: hung_state_def wl_init_def)
qed

lemma hung_state_steps: "wl_step ok l (hung_state d) s' \<Longrightarrow> l = WL_Spurious \<or> (\<exists>a. l = WL_Enqueue a)"
  by (erule wl_stepE) (auto simp: hung_state_def)

section \<open>Properties\<close>

text \<open>
  Claim C9. The writer, the callers of \<open>enqueue_alert\<close> and \<open>stop\<close> are linearizable: whatever the interleaving
  of their steps, the layer is, up to what the writer still owes to the alert in its hands, in the
  state reached by the atomic operations in the order in which the alerts were taken and enqueued and
  the loop was left.
\<close>

theorem writer_linearizable:
  assumes "trace (wl_step ok) (wl_init d) ls s"
  shows "wl_abs ok s = fold dl_step (concat (map (wl_event ok) ls)) (d\<lparr>dl_running := True\<rparr>)"
  using wls.trace_refines [OF assms] by simp

lemma writer_linearizable_witness:
  "wl_abs (\<lambda>_. True) (hung_state new_delivery_layer) = new_delivery_layer\<lparr>dl_running := True\<rparr>"
  using writer_linearizable [OF hung_state_reachable [of new_delivery_layer "\<lambda>_. True"]]
  by (simp add: new_delivery_layer_def)

text \<open>
  Claim C24. When the writer thread has ended, the alerts it handled are those that were queued at the start
  and those enqueued since, in order; only alerts enqueued after it had left its loop are missing, and
  those are what the queue holds.
\<close>

theorem writer_leaves_none_behind:
  assumes "trace (wl_step ok) (wl_init d) ls s" "wl_writer s = W_Exited"
  shows "dl_handled (wl_layer s) @ dl_queue (wl_layer s) = dl_handled d @ dl_queue d @ wl_alerts ls \<and>
    dl_queue (wl_layer s) = wl_alerts (after_leave ls)"
proof -
  have queue: "dl_queue (wl_layer s) = wl_alerts (after_leave ls)"
    using wl_trace_left [OF assms(1)] assms(2) by (simp add: left_inv_def)
  have "dl_handled (wl_abs ok s) @ dl_queue (wl_abs ok s) = dl_handled d @ dl_queue d @ wl_alerts ls"
    unfolding wls.trace_refines [OF assms(1)] dl_run_fifo wl_alerts_enqueued by simp
  moreover have "dl_handled (wl_abs ok s) = dl_handled (wl_layer s)" "dl_queue (wl_abs ok s) = dl_queue (wl_layer s)"
    using assms(2) by (simp_all add: wl_abs_def close_layer_def)
  ultimately show ?thesis using queue by simp
qed

definition ended_state :: writer_state where
  "ended_state = \<lparr> wl_layer = (persist_alert (\<lambda>_. True) sample_alert new_delivery_layer)\<lparr> dl_queue := [sample_alert] \<rparr>,
     wl_writer = W_Exited, wl_enqueuer = E_Notify, wl_stop = S_Stored \<rparr>"

text \<open>One alert in front of the end of the loop, and one that comes too late.\<close>

lemma ended_state_reachable:
  "trace (wl_step (\<lambda>_. True)) (wl_init new_delivery_layer)
     [WL_Enqueue sample_alert, WL_Notify_One, WL_Store, WL_Leave, WL_Drain_One, WL_Drain_End, WL_Enqueue sample_alert]
     ended_state"
proof -
  let ?ok = "\<lambda>_. True" and ?a = sample_alert
  let ?s0 = "wl_init new_delivery_layer"
  let ?s1 = "?s0\<lparr> wl_layer := enqueue_alert ?a (wl_layer ?s0), wl_enqueuer := E_Notify \<rparr>"
  let ?s2 = "?s1\<lparr> wl_enqueuer := E_Idle, wl_writer := wake_writer (wl_writer ?s1) \<rparr>"
  let ?s3 = "?s2\<lparr> wl_layer := (wl_layer ?s2)\<lparr> dl_running := False \<rparr>, wl_stop := S_Stored \<rparr>"
  let ?s4 = "?s3\<lparr> wl_writer := W_Drain \<rparr>"
  let ?s5 = "?s4\<lparr> wl_layer := (persist_alert ?ok ?a (wl_layer ?s4))\<lparr> dl_queue := [] \<rparr> \<rparr>"
  let ?s6 = "?s5\<lparr> wl_writer := W_Exited \<rparr>"
  let ?s7 = "?s6\<lparr> wl_layer := enqueue_alert ?a (wl_layer ?s6), wl_enqueuer := E_Notify \<rparr>"
  have "path (wl_step ?ok) ?s0 [(WL_Enqueue ?a, ?s1), (WL_Notify_One, ?s2), (WL_Store, ?s3), (WL_Leave, ?s4),
      (WL_Drain_One, ?s5), (WL_Drain_End, ?s6), (WL_Enqueue ?a, ?s7)]"
    unfolding path.simps
    by (intro conjI enqueue notify_one store leave drain_one drain_end TrueI)
      (simp_all add: wl_init_def queue_locked_def new_delivery_layer_def wake_writer_def)
  from path_trace [OF this] show ?thesis
    by (simp add: ended_state_def wl_init_def new_delivery_layer_def persist_alert_def enqueue_alert_def wake_writer_def)
qed

lemma writer_leaves_none_behind_witness:
  "dl_handled (wl_layer ended_state) = [sample_alert] \<and> dl_queue (wl_layer ended_state) = [sample_alert]"
  using writer_leaves_none_behind [OF ended_state_reachable]
  by (simp add: ended_state_def after_leave_def new_delivery_layer_def)

text \<open>
  Claim C25. Once \<open>running_\<close> is false, a writer that is not waiting on the queue ends: its own steps, in
  whatever order they are taken, are at most six for every queued alert and five more, and some of
  them lead to its exit.
\<close>

theorem stopped_writer_ends:
  assumes "\<not> dl_running (wl_layer s)" "\<not> queue_waits (wl_writer s)"
  shows "(\<forall>n s'. own_steps of_writer (wl_step ok) n s s' \<longrightarrow> n \<le> 6 * length (dl_queue (wl_layer s)) + 5) \<and>
    (\<exists>n s'. own_steps of_writer (wl_step ok) n s s' \<and> wl_writer s' = W_Exited)"
  by (rule wle.stops)
    (use assms in \<open>simp_all add: writer_work_def writer_rank_def split: writer_pc.split\<close>)

lemma stopped_writer_ends_witness:
  "\<exists>n s'. own_steps of_writer (wl_step (\<lambda>_. True)) n
     \<lparr> wl_layer = enqueue_alert sample_alert new_delivery_layer, wl_writer = W_Locked, wl_enqueuer = E_Idle,
       wl_stop = S_Joining \<rparr> s' \<and> wl_writer s' = W_Exited"
  using stopped_writer_ends [of "\<lparr> wl_layer = enqueue_alert sample_alert new_delivery_layer, wl_writer = W_Locked,
      wl_enqueuer = E_Idle, wl_stop = S_Joining \<rparr>" "\<lambda>_. True"]
  by (simp add: new_delivery_layer_def queue_waits_def)

text \<open>
  Claim C39. A stop can hang: from a layer with an empty queue a state is reachable in which \<open>stop\<close> has stored
  its flag, notified and waits for the writer, which is blocked; only a spurious wake-up or another
  alert leads out of it. The flag is stored without the queue's mutex.
\<close>

theorem stop_can_hang:
  "\<exists>ls s. trace (wl_step ok) (wl_init new_delivery_layer) ls s \<and> wl_stop s = S_Joining \<and> \<not> dl_running (wl_layer s) \<and>
     wl_writer s = W_Blocked \<and> {l. \<exists>s'. wl_step ok l s s'} \<subseteq> insert WL_Spurious (range WL_Enqueue)"
  using hung_state_reachable [of new_delivery_layer ok] hung_state_steps [of ok _ new_delivery_layer]
  by (intro exI) (auto simp: hung_state_def new_delivery_layer_def)

end
