(* ===== verification/Dashboard.thy ===== *)
theory Dashboard
  imports Pipeline
begin

text \<open>
  What \<open>DeliveryLayer\<close> shows: the box and the statistics line it prints when standard output is not
  a terminal, the layout of the ncurses windows, and a redraw of the dashboard as the list of the
  drawing calls it makes. The terminal's size, whether it has colours, and the time are arguments;
  ncurses draws what it is told.

  Non-ASCII characters of the source are their UTF-8 bytes. \<open>std::setw\<close> with \<open>std::left\<close> and the
  \<open>%-ns\<close> conversions are \<open>pad_right\<close>: they fill up, and never cut off.
\<close>

section \<open>Standard output\<close>

definition pad_right :: "nat \<Rightarrow> string \<Rightarrow> string" where
  "pad_right n s = s @ replicate (n - length s) (CHR '' '')"

lemma length_pad_right: "length (pad_right n s) = max n (length s)"
  by (simp add: pad_right_def)

definition newline :: string where "newline = [CHR 0x0A]"
definition box_bar :: string where "box_bar = [CHR 0xE2] @ [CHR 0x95] @ [CHR 0x91]"
definition box_line :: string where "box_line = concat (replicate 46 ([CHR 0xE2] @ [CHR 0x95] @ [CHR 0x90]))"

definition box_field :: "string \<Rightarrow> string \<Rightarrow> string" where
  "box_field name value = box_bar @ name @ pad_right 38 value @ box_bar @ newline"

definition print_alert_to_stdout :: "threat_alert \<Rightarrow> string" where
  "print_alert_to_stdout a =
     newline @ [CHR 0xE2] @ [CHR 0x95] @ [CHR 0x94] @ box_line @ [CHR 0xE2] @ [CHR 0x95] @ [CHR 0x97] @ newline @
     box_field '' ALERT: '' (attack_type_to_string (al_attack_type a)) @
     box_field '' Sev:   '' (severity_to_string (al_severity a)) @
     box_field '' Time:  '' (al_timestamp_iso a) @
     box_field '' Src:   '' (al_src_ip a @ '':'' @ dec_string (unat (al_src_port a))) @
     box_field '' Dst:   '' (al_dst_ip a @ '':'' @ dec_string (unat (al_dst_port a))) @
     box_field '' Info:  '' (take 37 (al_evidence_summary a)) @
     [CHR 0xE2] @ [CHR 0x95] @ [CHR 0x9A] @ box_line @ [CHR 0xE2] @ [CHR 0x95] @ [CHR 0x9D] @ newline"

text \<open>\<open>None\<close> is a layer without a statistics provider.\<close>

definition print_stats_to_stdout :: "engine_stats option \<Rightarrow> string" where
  "print_stats_to_stdout st =
     (case st of None \<Rightarrow> []
      | Some s \<Rightarrow> ''[STATS] cap='' @ dec_string (unat (es_packets_captured s)) @ '' pps='' @
          fixed_string 0 (es_capture_pps s) @ '' flows='' @ dec_string (unat (es_active_flows s)) @
          '' alerts='' @ dec_string (unat (es_total_alerts s)) @ '' drop='' @
          fixed_string 3 (es_drop_rate_pct s) @ ''%'' @ newline)"

section \<open>The windows\<close>

datatype window = Win_Header | Win_Stats | Win_Alerts | Win_Footer

record geometry =
  g_lines :: int
  g_cols :: int
  g_y :: int
  g_x :: int

definition window_layout :: "int \<Rightarrow> int \<Rightarrow> window \<Rightarrow> geometry" where
  "window_layout rows cols w =
     (let hr = 3; sr = 6; fr = 2; ar = max (rows - hr - sr - fr) 4
      in case w of
           Win_Header \<Rightarrow> \<lparr> g_lines = hr, g_cols = cols, g_y = 0, g_x = 0 \<rparr>
         | Win_Stats \<Rightarrow> \<lparr> g_lines = sr, g_cols = cols, g_y = hr, g_x = 0 \<rparr>
         | Win_Alerts \<Rightarrow> \<lparr> g_lines = ar, g_cols = cols, g_y = hr + sr, g_x = 0 \<rparr>
         | Win_Footer \<Rightarrow> \<lparr> g_lines = fr, g_cols = cols, g_y = rows - fr, g_x = 0 \<rparr>)"

abbreviation (input) NC_NORMAL :: int where "NC_NORMAL \<equiv> 1"
abbreviation (input) NC_HEADER :: int where "NC_HEADER \<equiv> 2"
abbreviation (input) NC_MEDIUM :: int where "NC_MEDIUM \<equiv> 4"
abbreviation (input) NC_HIGH :: int where "NC_HIGH \<equiv> 5"
abbreviation (input) NC_STAT_VAL :: int where "NC_STAT_VAL \<equiv> 7"

datatype nc_color = Black | Red | Green | Yellow | Magenta | Cyan | White

definition color_pairs :: "(int \<times> nc_color \<times> nc_color) list" where
  "color_pairs = [(1, White, Black), (2, Cyan, Black), (3, Green, Black), (4, Yellow, Black),
     (5, Red, Black), (6, Magenta, Black), (7, White, Black)]"

text \<open>\<open>init_ncurses\<close>: nothing without a terminal; else the colour pairs and the windows.\<close>

record ncurses_state =
  nc_active :: bool
  nc_pairs :: "(int \<times> nc_color \<times> nc_color) list"
  nc_windows :: "(window \<times> geometry) list"

definition init_ncurses :: "bool \<Rightarrow> bool \<Rightarrow> int \<Rightarrow> int \<Rightarrow> ncurses_state \<Rightarrow> ncurses_state" where
  "init_ncurses is_tty has_colors rows cols nc =
     (if \<not> is_tty then nc\<lparr> nc_active := False \<rparr>
      else \<lparr> nc_active = True, nc_pairs = (if has_colors then color_pairs else nc_pairs nc),
             nc_windows = map (\<lambda>w. (w, window_layout rows cols w)) [Win_Header, Win_Stats, Win_Alerts, Win_Footer] \<rparr>)"

definition teardown_ncurses :: "ncurses_state \<Rightarrow> ncurses_state" where
  "teardown_ncurses nc =
     (if \<not> nc_active nc then nc else nc\<lparr> nc_active := False, nc_windows := [] \<rparr>)"

section \<open>A redraw\<close>

datatype attr = Attr_Pair int | Attr_Bold int | Attr_Underline int

datatype draw_op = Erase window | Background window int | Attr_On window attr | Attr_Off window attr
  | Print_At window int int string | Print window string | Hline window int int int | Refresh window | Do_Update

definition draw_header :: "int \<Rightarrow> string \<Rightarrow> draw_op list" where
  "draw_header cols stamp =
     [Erase Win_Header, Background Win_Header NC_HEADER, Attr_On Win_Header (Attr_Bold NC_HEADER),
      Print_At Win_Header 0 0 (''  Network Threat Engine v2.0.0 '' @ [CHR 0xE2] @ [CHR 0x80] @ [CHR 0x94] @ '' NIDS Dashboard''),
      Hline Win_Header 1 0 cols, Print_At Win_Header 2 0 (''  '' @ c_str stamp),
      Attr_Off Win_Header (Attr_Bold NC_HEADER), Refresh Win_Header]"

text \<open>The lambda \<open>sl\<close>: a label in a column of 22, and its value.\<close>

definition stat_line :: "int \<Rightarrow> int \<Rightarrow> string \<Rightarrow> string \<Rightarrow> int \<Rightarrow> draw_op list" where
  "stat_line r c lbl val pair =
     [Attr_On Win_Stats (Attr_Pair NC_NORMAL), Print_At Win_Stats r c (pad_right 22 lbl),
      Attr_Off Win_Stats (Attr_Pair NC_NORMAL), Attr_On Win_Stats (Attr_Bold pair), Print Win_Stats val,
      Attr_Off Win_Stats (Attr_Bold pair)]"

definition draw_stats :: "int \<Rightarrow> engine_stats \<Rightarrow> draw_op list" where
  "draw_stats cols st =
     (let h = cols div 2
      in [Erase Win_Stats, Attr_On Win_Stats (Attr_Bold NC_HEADER), Print_At Win_Stats 0 2 ''[ Engine Statistics ]'',
          Attr_Off Win_Stats (Attr_Bold NC_HEADER)] @
         stat_line 1 2 ''Packets Captured:'' (dec_string (unat (es_packets_captured st))) NC_STAT_VAL @
         stat_line 1 h ''Active Flows:'' (dec_string (unat (es_active_flows st))) NC_STAT_VAL @
         stat_line 2 2 ''Capture PPS:'' (format_double (es_capture_pps st) 0) NC_STAT_VAL @
         stat_line 2 h ''Queue Depth:'' (dec_string (es_ring_queue_depth st)) NC_STAT_VAL @
         stat_line 3 2 ''Ring Drops:'' (dec_string (unat (es_packets_dropped_ring st))) NC_HIGH @
         stat_line 4 2 ''Total Alerts:'' (dec_string (unat (es_total_alerts st)))
           (if es_total_alerts st > 0 then NC_MEDIUM else NC_STAT_VAL) @
         stat_line 4 h ''Drop Rate:'' (format_double (es_drop_rate_pct st) 4 @ ''%'') NC_STAT_VAL @
         [Hline Win_Stats 5 0 cols, Refresh Win_Stats])"

text \<open>The format \<open>%-20s %-18s %-18s %-8u %-14s %s\<close> of a row.\<close>

definition row_text :: "dashboard_row \<Rightarrow> string" where
  "row_text r = pad_right 20 (c_str (dr_time r)) @ '' '' @ pad_right 18 (c_str (dr_src r)) @ '' '' @
     pad_right 18 (c_str (dr_dst r)) @ '' '' @ pad_right 8 (dec_string (dr_port r)) @ '' '' @
     pad_right 14 (c_str (dr_type r)) @ '' '' @ dr_severity r"

definition column_titles :: string where
  "column_titles = pad_right 20 ''TIMESTAMP'' @ '' '' @ pad_right 18 ''SRC_IP'' @ '' '' @
     pad_right 18 ''DST_IP'' @ '' '' @ pad_right 8 ''DPORT'' @ '' '' @ pad_right 14 ''TYPE'' @ '' '' @ ''SEVERITY''"

fun draw_rows :: "int \<Rightarrow> dashboard_row list \<Rightarrow> draw_op list" where
  "draw_rows row [] = []"
| "draw_rows row (r # rs) =
     [Attr_On Win_Alerts (Attr_Pair (dr_color r)), Print_At Win_Alerts row 2 (row_text r),
      Attr_Off Win_Alerts (Attr_Pair (dr_color r))] @ draw_rows (row + 1) rs"

definition draw_alerts :: "int \<Rightarrow> delivery_layer \<Rightarrow> draw_op list" where
  "draw_alerts wr d =
     [Erase Win_Alerts, Attr_On Win_Alerts (Attr_Bold NC_HEADER), Print_At Win_Alerts 0 2 ''[ Recent Alerts ]'',
      Attr_Off Win_Alerts (Attr_Bold NC_HEADER), Attr_On Win_Alerts (Attr_Underline NC_NORMAL),
      Print_At Win_Alerts 1 2 column_titles, Attr_Off Win_Alerts (Attr_Underline NC_NORMAL)] @
     draw_rows 2 (dashboard_rows wr d) @ [Refresh Win_Alerts]"

definition draw_footer :: "int \<Rightarrow> string \<Rightarrow> delivery_layer \<Rightarrow> draw_op list" where
  "draw_footer cols db d =
     [Erase Win_Footer, Hline Win_Footer 0 0 cols,
      Print_At Win_Footer 1 2 (''Ctrl-C to stop | DB: '' @ c_str db @ '' | Persisted: '' @
        dec_string (unat (dl_persisted d))),
      Refresh Win_Footer, Do_Update]"

definition no_stats :: engine_stats where
  "no_stats = \<lparr> es_packets_captured = 0, es_packets_dropped_ring = 0, es_packets_dropped_kernel = 0,
     es_ring_queue_depth = 0, es_active_flows = 0, es_total_alerts = 0, es_capture_pps = 0,
     es_drop_rate_pct = 0 \<rparr>"

definition redraw_dashboard ::
  "delivery_config \<Rightarrow> int \<Rightarrow> int \<Rightarrow> string \<Rightarrow> engine_stats option \<Rightarrow> delivery_layer \<Rightarrow> draw_op list" where
  "redraw_dashboard cfg wr cols stamp stats d =
     (if \<not> dl_ncurses d then []
      else draw_header cols stamp @ draw_stats cols (case stats of None \<Rightarrow> no_stats | Some s \<Rightarrow> s) @
           draw_alerts wr d @ draw_footer cols (db_path cfg) d)"

section \<open>The dashboard thread\<close>

text \<open>
  \<open>dashboard_loop\<close>: for every turn, \<open>running_\<close> at the head of the loop, \<open>running_\<close> behind the sleep, and
  what a redraw or a statistics line would give then. The length of the
  sleep is \<open>dashboard_sleep_ms\<close>.
\<close>

fun dashboard_turns :: "(bool \<times> bool \<times> 'a) list \<Rightarrow> 'a list" where
  "dashboard_turns [] = []"
| "dashboard_turns ((head, after_sleep, x) # ts) =
     (if head \<and> after_sleep then x # dashboard_turns ts else [])"

definition dashboard_thread ::
  "bool \<Rightarrow> (bool \<times> bool \<times> draw_op list \<times> string) list \<Rightarrow> draw_op list list + string list" where
  "dashboard_thread ncurses ts =
     (if \<not> ncurses then Inr (dashboard_turns (map (\<lambda>(h, s, ops, line). (h, s, line)) ts))
      else Inl (dashboard_turns (map (\<lambda>(h, s, ops, line). (h, s, ops)) ts)))"

section \<open>Lemmas\<close>

lemma radix_string_length: "n < 10 ^ Suc k \<Longrightarrow> length (radix_string 10 n) \<le> Suc k"
proof (induction k arbitrary: n)
  case 0
  then show ?case by (subst radix_string.simps) simp
next
  case (Suc k)
  then have "n div 10 < 10 ^ Suc k" by (simp add: less_mult_imp_div_less mult.commute)
  then show ?case using Suc.IH [of "n div 10"] by (subst radix_string.simps) simp
qed

lemma port_width: "length (dec_string (unat (p :: u16))) \<le> 8"
proof -
  have "unat p < 2 ^ LENGTH(16)" by (rule unsigned_less)
  then show ?thesis using radix_string_length [of "unat p" 7] by (simp add: dec_string_def)
qed

lemma c_str_length: "length (c_str s) \<le> length s"
  by (simp add: c_str_def length_takeWhile_le)

lemma truncate_width: "2 \<le> n \<Longrightarrow> length (truncate_text s n) \<le> n"
  by (auto simp: truncate_text_def)

lemma short_time_width: "length (short_time ts) \<le> 20"
  by (simp add: short_time_def)

lemma dashboard_loop_in: "r \<in> set (dashboard_loop as row wr) \<Longrightarrow> \<exists>a \<in> set as. r = dashboard_row_of a"
  by (induction as row wr rule: dashboard_loop.induct) (auto split: if_splits)

lemma row_text_width: "length (row_text (dashboard_row_of a)) = 83 + length (severity_to_string (al_severity a))"
proof -
  have "length (c_str (truncate_text s 17)) \<le> 18" for s
    using c_str_length [of "truncate_text s 17"] truncate_width [of 17 s] by simp
  moreover have "length (c_str (truncate_text s 13)) \<le> 14" for s
    using c_str_length [of "truncate_text s 13"] truncate_width [of 13 s] by simp
  moreover have "length (c_str (short_time s)) \<le> 20" for s
    using c_str_length [of "short_time s"] short_time_width [of s] by simp
  ultimately show ?thesis
    using port_width [of "al_dst_port a"]
    by (simp add: row_text_def dashboard_row_of_def length_pad_right max_absorb1)
qed

lemma dashboard_loop_length:
  "int (length (dashboard_loop as row wr)) = min (int (length as)) (max 0 (wr - 1 - row))"
  by (induction as row wr rule: dashboard_loop.induct) auto

text \<open>The lines of the alert window that a redraw writes to.\<close>

fun alert_lines :: "draw_op list \<Rightarrow> int list" where
  "alert_lines [] = []"
| "alert_lines (Print_At Win_Alerts y x s # ops) = y # alert_lines ops"
| "alert_lines (op # ops) = alert_lines ops"

lemma alert_lines_append: "alert_lines (xs @ ys) = alert_lines xs @ alert_lines ys"
  by (induction xs rule: alert_lines.induct) simp_all

lemma alert_lines_rows: "alert_lines (draw_rows row rs) = map (\<lambda>i. row + int i) [0..<length rs]"
proof (induction row rs rule: draw_rows.induct)
  case (2 row r rs)
  then show ?case by (simp add: upt_conv_Cons map_Suc_upt [symmetric] del: upt_Suc)
qed simp

section \<open>Properties\<close>

text \<open>
  The columns of the alert list are aligned: whatever an alert holds, its row is 83 characters and
  the severity, so every column starts where its title does.
\<close>

theorem alert_row_aligned:
  "length (row_text (dashboard_row_of a)) = length column_titles - length ''SEVERITY'' + length (severity_to_string (al_severity a))"
  by (simp add: row_text_width column_titles_def length_pad_right)

definition lines_of :: "geometry \<Rightarrow> int set" where
  "lines_of g = {g_y g ..< g_y g + g_lines g}"

definition windows_disjoint :: "(window \<Rightarrow> geometry) \<Rightarrow> bool" where
  "windows_disjoint l \<longleftrightarrow> lines_of (l Win_Header) \<inter> lines_of (l Win_Stats) = {} \<and>
     lines_of (l Win_Header) \<inter> lines_of (l Win_Alerts) = {} \<and> lines_of (l Win_Header) \<inter> lines_of (l Win_Footer) = {} \<and>
     lines_of (l Win_Stats) \<inter> lines_of (l Win_Alerts) = {} \<and> lines_of (l Win_Stats) \<inter> lines_of (l Win_Footer) = {} \<and>
     lines_of (l Win_Alerts) \<inter> lines_of (l Win_Footer) = {}"

lemma lines_disjoint:
  "0 < g_lines g \<Longrightarrow> 0 < g_lines h \<Longrightarrow>
   lines_of g \<inter> lines_of h = {} \<longleftrightarrow> g_y g + g_lines g \<le> g_y h \<or> g_y h + g_lines h \<le> g_y g"
proof
  assume pos: "0 < g_lines g" "0 < g_lines h" and e: "lines_of g \<inter> lines_of h = {}"
  show "g_y g + g_lines g \<le> g_y h \<or> g_y h + g_lines h \<le> g_y g"
  proof (rule ccontr)
    assume "\<not> ?thesis"
    then have "max (g_y g) (g_y h) \<in> lines_of g \<inter> lines_of h" using pos by (auto simp: lines_of_def)
    with e show False by simp
  qed
qed (auto simp: lines_of_def)

text \<open>
  The four windows do not overlap on a terminal of eleven rows or more exactly when it has at least
  15: below that the alert window, never less than four lines high, runs into the footer.
\<close>

theorem layout_disjoint_iff:
  assumes "11 \<le> rows"
  shows "windows_disjoint (window_layout rows cols) \<longleftrightarrow> 15 \<le> rows"
  using assms by (auto simp: windows_disjoint_def lines_disjoint window_layout_def Let_def)

lemma layout_disjoint_iff_witness: "\<not> windows_disjoint (window_layout 14 80)"
  using layout_disjoint_iff [of 14 80] by simp

lemma alert_lines_other [simp]:
  "alert_lines (draw_header cols stamp) = []" "alert_lines (draw_stats cols st) = []"
  "alert_lines (draw_footer cols db d) = []"
  by (simp_all add: draw_header_def draw_stats_def draw_footer_def stat_line_def Let_def)

lemma alert_rows_count: "length (dashboard_rows wr d) = min (length (dl_display d)) (nat (wr - 3))"
  using dashboard_loop_length [of "rev (dl_display d)" 2 wr] by (auto simp: dashboard_rows_def)

text \<open>
  A redraw writes to the lines of the alert window from the top without a gap: the caption, the
  titles, and one line for each of the recent alerts as far as the window's height less one allows;
  without ncurses it writes nothing.
\<close>

theorem redraw_alert_lines:
  "alert_lines (redraw_dashboard cfg wr cols stamp stats d) =
     (if dl_ncurses d then map int [0..<2 + min (length (dl_display d)) (nat (wr - 3))] else [])"
proof -
  have "map int [0..<2 + n] = 0 # 1 # map (\<lambda>i. 2 + int i) [0..<n]" for n
    by (rule nth_equalityI) (auto simp: nth_Cons simp del: upt_Suc split: nat.split)
  then show ?thesis
    by (simp add: redraw_dashboard_def draw_alerts_def alert_lines_append alert_lines_rows alert_rows_count)
qed

text \<open>A refresh interval that \<open>-R\<close> accepts can overflow the sleep of the plain loop.\<close>

lemma refresh_overflows:
  "parse_args (\<lambda>_. None) (\<lambda>_. Some 214748365) [(CHR ''R'', ''214748365'')] = Parsed cfg \<Longrightarrow>
   dashboard_sleep_ms False (delivery cfg) = None"
  by (auto simp: parse_args_def parse_opt_def dashboard_sleep_ms_def int_max_def)

end
