(* ===== verification/Session.thy ===== *)
theory Session
  imports Dashboard CaptureRun
begin

text \<open>
  The rest of \<open>src/main.cpp\<close>: the banner, the usage text, the lines that report the configuration, the
  session summary, and the program from its arguments to its exit status. \<open>getopt\<close>, \<open>std::stod\<close> and
  \<open>std::stoi\<close> are parameters, as in \<open>Config\<close>.

  A double is printed by \<open>operator<<\<close> in its default format, \<open>%g\<close> with six significant digits
  (\<open>general_string\<close>), or with \<open>std::fixed\<close> (\<open>fixed_string\<close>); inside the summary the two manipulators
  stay in force for the lines behind them.
\<close>

section \<open>The default format of a double\<close>

definition decade :: "real \<Rightarrow> int" where
  "decade x = (if 1 \<le> x then int (length (dec_string (nat \<lfloor>x\<rfloor>))) - 1
     else - int (length (dec_string (nat (\<lceil>1 / x\<rceil> - 1)))))"

definition strip_zeros :: "string \<Rightarrow> string" where
  "strip_zeros s = rev (dropWhile (\<lambda>c. c = CHR ''0'') (rev s))"

text \<open>The six digits and the decimal exponent of a positive number, after rounding.\<close>

definition six_digits :: "real \<Rightarrow> nat \<times> int" where
  "six_digits x =
     (let e = decade x; m = nat (rne (x * 10 powi (5 - e)))
      in if m = 1000000 then (100000, e + 1) else (m, e))"

definition with_point :: "string \<Rightarrow> string \<Rightarrow> string" where
  "with_point whole decimals = (let f = strip_zeros decimals in if f = [] then whole else whole @ ''.'' @ f)"

definition general_string :: "real \<Rightarrow> string" where
  "general_string x =
     (if x = 0 then ''0''
      else
        (let (m, e) = six_digits \<bar>x\<bar>; ds = dec_string m; sign = (if x < 0 then ''-'' else [])
         in sign @
            (if 0 \<le> e \<and> e < 6 then with_point (take (nat e + 1) ds) (drop (nat e + 1) ds)
             else if - 4 \<le> e \<and> e < 0 then with_point ''0'' (replicate (nat (- e) - 1) (CHR ''0'') @ ds)
             else with_point (take 1 ds) (drop 1 ds) @ ''e'' @ (if e < 0 then ''-'' else ''+'') @
                  (let n = dec_string (nat \<bar>e\<bar>) in if length n < 2 then ''0'' @ n else n))))"

section \<open>Texts\<close>

text \<open>\<open>Config::version()\<close>: the argument is what the build defines as \<open>NTE_VERSION_*\<close>, if it does.\<close>

definition config_version :: "(nat \<times> nat \<times> nat) option \<Rightarrow> string" where
  "config_version macros =
     (case macros of None \<Rightarrow> ''0.0.0''
      | Some (major, minor, patch) \<Rightarrow> dec_string major @ ''.'' @ dec_string minor @ ''.'' @ dec_string patch)"

definition double_bar :: string where "double_bar = concat (replicate 62 ([CHR 0xE2] @ [CHR 0x95] @ [CHR 0x90]))"

definition banner :: "(nat \<times> nat \<times> nat) option \<Rightarrow> string" where
  "banner macros = newline @ [CHR 0xE2] @ [CHR 0x95] @ [CHR 0x94] @ double_bar @ [CHR 0xE2] @ [CHR 0x95] @ [CHR 0x97] @ newline @
     box_bar @ ''       Network Threat Engine  v'' @ config_version macros @ ''                          '' @ box_bar @ newline @
     box_bar @ ''       Real-Time NIDS '' @ [CHR 0xE2] @ [CHR 0x80] @ [CHR 0x94] @ '' 5-Layer Detection Pipeline           '' @ box_bar @ newline @
     [CHR 0xE2] @ [CHR 0x95] @ [CHR 0x9A] @ double_bar @ [CHR 0xE2] @ [CHR 0x95] @ [CHR 0x9D] @ newline @ newline"

definition print_usage :: "string \<Rightarrow> string" where
  "print_usage argv0 =
     newline @ ''Usage: '' @ argv0 @ '' [OPTIONS]'' @ newline @ newline @
     ''Options:'' @ newline @
     ''  -i <iface>   Network interface (default: auto-discover)'' @ newline @
     ''  -d <path>    SQLite3 alert DB path (default: alerts.db)'' @ newline @
     ''  -s <sec>     Alert suppression interval (default: 5.0)'' @ newline @
     ''  -w <sec>     Port scan window seconds (default: 10.0)'' @ newline @
     ''  -p <count>   Port scan port threshold (default: 20)'' @ newline @
     ''  -r <pps>     SYN flood rate threshold (default: 50.0)'' @ newline @
     ''  -e <alpha>   EWMA smoothing factor 0-1 (default: 0.125)'' @ newline @
     ''  -b <MB>      Kernel ring buffer MB (default: 20)'' @ newline @
     ''  -R <ms>      Dashboard refresh ms (default: 500)'' @ newline @
     ''  -h           Print this help'' @ newline @ newline @
     ''Requires root or: sudo setcap cap_net_raw+ep '' @ argv0 @ newline @ newline"

definition config_lines :: "config \<Rightarrow> string" where
  "config_lines cfg =
     ''[main] Interface    : '' @ (if cap_interface (capture cfg) = [] then ''(auto)'' else cap_interface (capture cfg)) @ newline @
     ''[main] Alert DB     : '' @ db_path (delivery cfg) @ newline @
     ''[main] EWMA alpha   : '' @ general_string (alpha (ewma cfg)) @ newline @
     ''[main] Scan window  : '' @ general_string (scan_window_sec (port_scan cfg)) @ ''s'' @ newline @
     ''[main] Scan thresh  : '' @ dec_string (unat (distinct_port_threshold (port_scan cfg))) @ '' ports'' @ newline @
     ''[main] SYN thresh   : '' @ general_string (syn_rate_pps (syn_flood cfg)) @ '' pps'' @ newline @ newline"

text \<open>The statistics are taken behind the uptime, at a second reading of the clock.\<close>

definition print_session_summary ::
  "ring option \<Rightarrow> flow_table option \<Rightarrow> delivery_layer option \<Rightarrow> u64 \<Rightarrow> ns \<Rightarrow> ns \<Rightarrow> ns \<Rightarrow> string" where
  "print_session_summary ring flows deliv processed start now1 now2 =
     (let st = collect_stats ring flows deliv start now2
      in newline @ double_bar @ newline @ ''  Network Threat Engine '' @ [CHR 0xE2] @ [CHR 0x80] @ [CHR 0x94] @ '' Session Summary'' @ newline @ double_bar @ newline @
         ''  Uptime              : '' @ fixed_string 1 (seconds (now1 - start)) @ '' s'' @ newline @
         ''  Packets captured    : '' @ dec_string (unat (es_packets_captured st)) @ newline @
         ''  Packets processed   : '' @ dec_string (unat processed) @ newline @
         ''  Ring buffer drops   : '' @ dec_string (unat (es_packets_dropped_ring st)) @ newline @
         ''  Drop rate           : '' @ fixed_string 4 (es_drop_rate_pct st) @ ''%'' @ newline @
         ''  Active flows        : '' @ dec_string (unat (es_active_flows st)) @ newline @
         (case flows of None \<Rightarrow> []
          | Some ft \<Rightarrow>
              ''  Total flows created : '' @ dec_string (unat (ft_created ft)) @ newline @
              ''  Total flows evicted : '' @ dec_string (unat (ft_evicted ft)) @ newline) @
         ''  Alerts fired        : '' @ dec_string (unat (es_total_alerts st)) @ newline @
         double_bar @ newline @ newline)"

section \<open>The program\<close>

text \<open>
  \<open>None\<close> is undefined behaviour: the signed overflow of \<open>-b\<close> in \<open>parse_args\<close>, or the one of the dashboard
  thread's sleep, which a large \<open>-R\<close> causes. The text is what standard output holds before the layers
  are built.
\<close>

definition main_program ::
  "(nat \<times> nat \<times> nat) option \<Rightarrow> (string \<Rightarrow> real option) \<Rightarrow> (string \<Rightarrow> int option) \<Rightarrow> string \<Rightarrow> (char \<times> string) list \<Rightarrow> scenario \<Rightarrow>
   (string \<times> exit_status) option" where
  "main_program macros stod stoi argv0 args sc =
     (case parse_args stod stoi args of
        Usage_exit success \<Rightarrow> Some (banner macros @ print_usage argv0, if success then Exit_Success else Exit_Failure)
      | Conversion_throws \<Rightarrow> Some (banner macros @ print_usage argv0, Exit_Failure)
      | Signed_overflow \<Rightarrow> None
      | Parsed cfg \<Rightarrow> map_option (\<lambda>status. (banner macros @ config_lines cfg, status)) (main_run cfg sc))"

section \<open>Lemmas\<close>

lemma opts_append:
  "parse_opts stod stoi (xs @ ys) c =
     (case parse_opts stod stoi xs c of Parsed c' \<Rightarrow> parse_opts stod stoi ys c' | other \<Rightarrow> other)"
  by (induction stod stoi xs c rule: parse_opts.induct) (simp_all split: cli_outcome.split)

lemma parse_opt_stops:
  "parse_opt stod stoi opt optarg c = Parsed c' \<Longrightarrow> opt \<in> set ''idswpreBbR''"
  by (auto simp: parse_opt_def split: if_splits)

text \<open>The overflow is in reach only of \<open>-b\<close> with 2048 MiB or more.\<close>

lemma parse_opt_overflow:
  "parse_opt stod stoi opt optarg c = Signed_overflow \<longleftrightarrow>
     opt = CHR ''b'' \<and> (\<exists>v. stoi optarg = Some v \<and> 2048 \<le> v)"
  by (auto simp: parse_opt_def with_double_def int_max_def split: option.splits if_splits)

lemma parse_opts_overflow:
  "parse_opts stod stoi args c = Signed_overflow \<Longrightarrow>
     \<exists>s v. (CHR ''b'', s) \<in> set args \<and> stoi s = Some v \<and> 2048 \<le> v"
proof (induction stod stoi args c rule: parse_opts.induct)
  case (2 stod stoi opt optarg rest c)
  show ?case
  proof (cases "parse_opt stod stoi opt optarg c")
    case (Parsed c')
    with 2 show ?thesis by fastforce
  next
    case Signed_overflow
    then show ?thesis using parse_opt_overflow [of stod stoi opt optarg c] by auto
  qed (use 2 in simp_all)
qed simp

text \<open>The refresh interval is the default one or an argument of \<open>-R\<close>.\<close>

lemma parse_opt_refresh:
  "parse_opt stod stoi opt optarg c = Parsed c' \<Longrightarrow>
   dashboard_refresh_ms (delivery c') = dashboard_refresh_ms (delivery c) \<or>
   opt = CHR ''R'' \<and> stoi optarg = Some (dashboard_refresh_ms (delivery c'))"
  by (auto simp: parse_opt_def with_double_def split: option.splits if_splits)

lemma parse_opts_refresh:
  "parse_opts stod stoi args c = Parsed c' \<Longrightarrow>
   dashboard_refresh_ms (delivery c') = dashboard_refresh_ms (delivery c) \<or>
   (\<exists>s. (CHR ''R'', s) \<in> set args \<and> stoi s = Some (dashboard_refresh_ms (delivery c')))"
proof (induction stod stoi args c rule: parse_opts.induct)
  case (2 stod stoi opt optarg rest c)
  then obtain c1 where c1: "parse_opt stod stoi opt optarg c = Parsed c1" "parse_opts stod stoi rest c1 = Parsed c'"
    by (auto split: cli_outcome.splits)
  from 2(1) [OF c1] parse_opt_refresh [OF c1(1)] show ?case by auto
qed simp

lemma sleep_defined:
  assumes "parse_args stod stoi args = Parsed cfg"
    and "tty \<or> (\<forall>(opt, s) \<in> set args. opt = CHR ''R'' \<longrightarrow> (\<forall>v. stoi s = Some v \<longrightarrow> v \<le> 214748364))"
  shows "dashboard_sleep_ms tty (delivery cfg) \<noteq> None"
  using assms(2) parse_opts_refresh [OF assms(1) [unfolded parse_args_def]]
  by (fastforce simp: dashboard_sleep_ms_def int_max_def default_config_defs)

text \<open>The defaults, as the program prints them.\<close>

lemma digit_chars:
  "digit_char 0 = CHR ''0''" "digit_char 1 = CHR ''1''" "digit_char (Suc 0) = CHR ''1''" "digit_char 2 = CHR ''2''"
  "digit_char 5 = CHR ''5''" "digit_char 7 = CHR ''7''"
  by code_simp+

lemma dec_digits:
  "dec_string 125000 = ''125000''" "dec_string 100000 = ''100000''" "dec_string 500000 = ''500000''"
  "dec_string 10 = ''10''" "dec_string 50 = ''50''" "dec_string 7 = ''7''"
  by (simp_all add: dec_string_def radix_string.simps digit_chars)

lemma general_string_defaults:
  "general_string (1 / 8) = ''0.125''" "general_string 10 = ''10''" "general_string 50 = ''50''"
  by (simp_all add: general_string_def six_digits_def decade_def Let_def dec_digits with_point_def strip_zeros_def
      rne_def power_int_def)

section \<open>Properties\<close>

text \<open>
  Claim C38. How the program ends: unless \<open>-b\<close> is given 2048 or more, or standard output is no terminal and
  \<open>-R\<close> is given more than 214748364, every command line has a defined exit
  status: success for \<open>-h\<close>, failure for a wrong option or number and for a database that does not open.
  A capture handle that does not open terminates the program, because the exception destroys the
  joinable consumer thread; and a run that is stopped ends normally only if the capture thread is
  still in its loop when \<open>stop\<close> is called. (The joins are taken to return: the notifications that
  can be lost are the subject of \<open>WriterWait\<close> and \<open>RingWait\<close>.)
\<close>

theorem program_exit:
  assumes "\<forall>(opt, s) \<in> set args. opt = CHR ''b'' \<longrightarrow> (\<forall>v. stoi s = Some v \<longrightarrow> v < 2048)"
    and "sc_tty sc \<or> (\<forall>(opt, s) \<in> set args. opt = CHR ''R'' \<longrightarrow> (\<forall>v. stoi s = Some v \<longrightarrow> v \<le> 214748364))"
  shows "\<exists>out status. main_program macros stod stoi argv0 args sc = Some (out, status) \<and>
    status = (case parse_args stod stoi args of
        Usage_exit success \<Rightarrow> if success then Exit_Success else Exit_Failure
      | Parsed cfg \<Rightarrow>
          if \<not> db_opens sc then Exit_Failure
          else if \<not> capture_opens cfg sc \<or> sc_producer_first sc then Std_Terminate
          else Exit_Success
      | _ \<Rightarrow> Exit_Failure)"
proof (cases "parse_args stod stoi args")
  case (Parsed cfg)
  with sleep_defined [OF Parsed assms(2)] show ?thesis by (auto simp: main_program_def main_exit)
next
  case Signed_overflow
  then have "\<exists>s v. (CHR ''b'', s) \<in> set args \<and> stoi s = Some v \<and> 2048 \<le> v"
    unfolding parse_args_def by (rule parse_opts_overflow)
  with assms(1) show ?thesis by fastforce
qed (auto simp: main_program_def)

definition sample_scenario :: scenario where
  "sample_scenario = \<lparr> sc_db = \<lparr> open_ok = True, open_handle = True, ddl_ok = True, prepare_ok = True \<rparr>, sc_tty = False,
     sc_devices = None, sc_handle_opens = True, sc_producer_first = False, sc_insert_ok = (\<lambda>_. True) \<rparr>"

lemma program_exit_witness:
  "\<exists>out. main_program None (\<lambda>_. None) (\<lambda>_. Some 1000) ''nte'' [(CHR ''R'', ''1000''), (CHR ''i'', ''eth0'')] sample_scenario =
     Some (out, Exit_Success)"
  using program_exit [of "[(CHR ''R'', ''1000''), (CHR ''i'', ''eth0'')]" "\<lambda>_. Some 1000" sample_scenario None "\<lambda>_. None" "''nte''"]
  by (simp add: parse_args_def parse_opt_def sample_scenario_def db_opens_def capture_opens_def)

end
