(* ===== verification/Tunneling.thy ===== *)
theory Tunneling
  imports Pipeline FrameSpec AppLayerSpec
begin

text \<open>
  The path of a suspicious DNS query through the program, from the bytes on the wire to the delivery
  queue: what \<open>max_label_loop\<close> of \<open>ThreatDetector.cpp\<close> computes on the name that \<open>extract_dns\<close> of
  \<open>ProtocolDissector.cpp\<close> assembles, that the rules which run before the DNS rule leave its suppression
  entry alone, and that the alert is handed to the delivery layer.
\<close>

section \<open>The longest label\<close>

lemma max_label_loop_label:
  "CHR ''.'' \<notin> set l \<Longrightarrow> max_label_loop (l @ rest) i ls m = max_label_loop rest (i + length l) ls m"
  by (induction l arbitrary: i) auto

lemma Max_insert_max: "finite A \<Longrightarrow> Max (insert (max m a) A) = Max (insert m (insert (a :: nat) A))"
  by (cases "A = {}") (simp_all add: max.assoc)

lemma max_label_loop_dotted:
  assumes "ls \<noteq> []" "list_all (\<lambda>l. CHR ''.'' \<notin> set l) ls"
  shows "max_label_loop (dotted ls) i i m = Max (insert m (length ` set ls))"
  using assms
proof (induction ls arbitrary: i m rule: dotted.induct)
  case (2 l)
  then show ?case using max_label_loop_label [of l "[]" i i m] by (simp add: max.commute)
next
  case (3 l l' ls)
  have "max_label_loop (dotted (l # l' # ls)) i i m =
      max_label_loop (dotted (l' # ls)) (i + length l + 1) (i + length l + 1) (max m (length l))"
    using 3(3) max_label_loop_label [of l "''.'' @ dotted (l' # ls)" i i m] by simp
  also have "\<dots> = Max (insert (max m (length l)) (length ` set (l' # ls)))"
    by (rule 3(1)) (use 3(3) in simp_all)
  also have "\<dots> = Max (insert m (length ` set (l # l' # ls)))"
    unfolding list.set image_insert by (rule Max_insert_max) simp
  finally show ?case .
qed simp

lemma max_label_dotted:
  assumes "list_all (\<lambda>l. CHR ''.'' \<notin> set l) ls" "l \<in> set ls"
  shows "length l \<le> max_label (dotted ls)"
proof -
  have "ls \<noteq> []" using assms(2) by auto
  from max_label_loop_dotted [OF this assms(1), of 0 0] show ?thesis
    using assms(2) by (simp add: max_label_def)
qed

section \<open>The DNS rule inside inspect\<close>

lemma not_suppressed_cong:
  assumes "last_fired d' src type = last_fired d src type" "td_config d' = td_config d"
  shows "is_suppressed d' src type now = is_suppressed d src type now"
  using assms by (simp add: is_suppressed_iff suppression_sec_def)

lemma run_dns_fires:
  assumes "dns info = Some q" "dns_name_suspicious (td_config d) (query_name q)"
    and "\<not> is_suppressed d (src_ip info) DNS_TUNNELING now"
  shows "\<exists>a. td_fired (run_dns ck info now d) = td_fired d @ [(now, a)] \<and>
     al_attack_type a = DNS_TUNNELING \<and> al_src_ip a = src_ip info"
  using assms by (simp add: run_dns_def check_dns_tunneling_def fire_def Let_def record_suppression_def)

lemma before_dns:
  fixes ck info now d
  defines "d4 \<equiv> run_brute_force ck info now (run_port_scan ck info now (run_syn_flood ck info now
      (run_ewma ck info now d)))"
  shows "last_fired d4 src DNS_TUNNELING = last_fired d src DNS_TUNNELING" "td_config d4 = td_config d"
    and "\<exists>new. td_fired d4 = td_fired d @ new"
proof -
  define d1 where "d1 = run_ewma ck info now d"
  define d2 where "d2 = run_syn_flood ck info now d1"
  define d3 where "d3 = run_port_scan ck info now d2"
  have d4: "d4 = run_brute_force ck info now d3" by (simp add: d4_def d3_def d2_def d1_def)
  show "last_fired d4 src DNS_TUNNELING = last_fired d src DNS_TUNNELING"
    unfolding d4 d3_def d2_def d1_def
    by (simp add: brute_rule.other_kinds scan_rule.other_kinds syn_rule.other_kinds ewma_rule.other_kinds)
  show "td_config d4 = td_config d"
    unfolding d4 d3_def d2_def d1_def
    by (simp add: brute_rule.config scan_rule.config syn_rule.config ewma_rule.config)
  have "\<exists>n. td_fired d1 = td_fired d @ n" using ewma_rule.log_cases unfolding d1_def by blast
  moreover have "\<exists>n. td_fired d2 = td_fired d1 @ n" using syn_rule.log_cases unfolding d2_def by blast
  moreover have "\<exists>n. td_fired d3 = td_fired d2 @ n" using scan_rule.log_cases unfolding d3_def by blast
  moreover have "\<exists>n. td_fired d4 = td_fired d3 @ n" using brute_rule.log_cases unfolding d4 by blast
  ultimately show "\<exists>new. td_fired d4 = td_fired d @ new" by fastforce
qed

lemma inspect_dns_fires:
  assumes "valid info" "src_ip info \<noteq> []" "dns info = Some q"
    and "dns_name_suspicious (td_config d) (query_name q)"
    and "\<not> is_suppressed d (src_ip info) DNS_TUNNELING now"
  shows "\<exists>a \<in> set (fired_since d (inspect ck info now d)).
     al_attack_type a = DNS_TUNNELING \<and> al_src_ip a = src_ip info"
proof -
  define d4 where "d4 = run_brute_force ck info now (run_port_scan ck info now (run_syn_flood ck info now
      (run_ewma ck info now d)))"
  note b = before_dns [of ck info now d, folded d4_def]
  have "\<not> is_suppressed d4 (src_ip info) DNS_TUNNELING now"
    using not_suppressed_cong [OF b(1,2)] assms(5) by simp
  from run_dns_fires [OF assms(3) _ this] b(2) assms(4)
  obtain a where a: "td_fired (run_dns ck info now d4) = td_fired d4 @ [(now, a)]"
    "al_attack_type a = DNS_TUNNELING" "al_src_ip a = src_ip info" by auto
  obtain n4 where n4: "td_fired d4 = td_fired d @ n4" using b(3) by blast
  moreover obtain n6 where n6:
    "td_fired (run_exfil ck info now (run_dns ck info now d4)) = td_fired (run_dns ck info now d4) @ n6"
    using exfil_rule.log_cases [of ck info now "run_dns ck info now d4"] by blast
  ultimately have "fired_since d (inspect ck info now d) = map snd (n4 @ [(now, a)] @ n6)"
    using assms(1,2) a(1) by (simp add: inspect_def fired_since_def d4_def)
  then show ?thesis using a by auto
qed

lemma consume_alerts:
  assumes "dissect_packet pkt = Some info" "valid info"
  shows "\<exists>pl'. consume inet_pton tc pkt pl = Some pl' \<and>
     dl_queue (pl_delivery pl') = dl_queue (pl_delivery pl) @
       fired_since (pl_detector pl) (inspect (tc_detector tc) info (tc_now tc) (pl_detector pl))"
  using assms by (simp add: consume_def detect_def Let_def fold_enqueue)

end
