(* ===== verification/Spec2Isabelle.thy ===== *)
theory Spec2Isabelle
  imports Prelude Traces Doubles Text Alerts Config Packet Ewma EwmaSpec PortScan SynFlood Detector AlertRules
    Isolation RuleLogs LabelSpec AddrFormat AppLayer AppLayerSpec HttpSpec Dissector FrameSpec
    Frame6Spec VlanSpec FlowKeys FlowRecords FlowTracker FlowTypes ReaperWait RingBuffer RingWait Delivery
    Timestamp WriterWait Dashboard Capture CaptureRun LiveRun Pipeline Session Tunneling
begin

text \<open>
  A verification library for NetworkThreatEngine, a network intrusion detection system in C++17
  (\<open>include/\<close> and \<open>src/\<close> of the repository).

  \<^bold>\<open>The program.\<close> A capture thread copies frames from libpcap into a bounded ring buffer; a
  consumer thread pops them, dissects each frame into a \<open>PacketInfo\<close>, accounts it to a flow, and runs
  six detection rules on it (volume anomaly, SYN flood, port scan, brute force, DNS tunnelling, data
  exfiltration). An alert that is not suppressed goes into the queue of the delivery layer, whose
  writer thread stores it in SQLite and keeps the ring of recent alerts for the dashboard. A reaper
  thread evicts idle flows. \<open>main\<close> starts the layers, waits for the consumer, and stops them.

  \<^bold>\<open>Theories, and the code they model.\<close>
  \<^item> \<open>Prelude\<close>: machine types, hash maps (locale \<open>table\<close>), runs that keep an invariant (locale
    \<open>preserving\<close>), reads of a buffer that fail outside it. \<open>Doubles\<close>: IEEE doubles (locale
    \<open>rounding\<close>). \<open>Traces\<close>: runs of threads, their invariants and refinements (locales \<open>guarded\<close>,
    \<open>simulation\<close>) and the end of a thread (locale \<open>ending\<close>). \<open>Text\<close>: number formatting and scanning of the C and C++ library.
  \<^item> \<open>Config\<close>: \<open>Config.hpp\<close> and \<open>parse_args\<close> of \<open>main.cpp\<close>. \<open>Alerts\<close>, \<open>Timestamp\<close>: \<open>ThreatAlert.hpp\<close>.
    \<open>Packet\<close>: \<open>PacketInfo.hpp\<close>.
  \<^item> \<open>AddrFormat\<close>, \<open>AppLayer\<close>, \<open>Dissector\<close>: \<open>ProtocolDissector.cpp\<close>. \<open>dissect_packet\<close> and the extractors
    return \<open>None\<close> exactly when the code would read outside the frame. \<open>AppLayerSpec\<close>, \<open>HttpSpec\<close>,
    \<open>FrameSpec\<close> and \<open>Frame6Spec\<close> hold encoders of the wire formats and the round trips through the dissector;
    \<open>VlanSpec\<close> shows that one 802.1Q tag changes nothing but the offsets counted from the frame's start,
    and that a second one is not followed.
  \<^item> \<open>FlowKeys\<close>, \<open>FlowRecords\<close>, \<open>FlowTracker\<close>: \<open>FlowKey.hpp\<close>, \<open>FlowRecord.hpp\<close>, \<open>Flowtracker.hpp\<close> and
    \<open>FlowTracker.cpp\<close>. \<open>FlowTypes\<close>: how the TCP fields of a record agree with each other and with its
    key, over runs of the whole program. \<open>ReaperWait\<close>: \<open>update\<close>, the reaper thread and its stop as an
    interleaving of their steps.
  \<^item> \<open>Ewma\<close>, \<open>PortScan\<close>, \<open>SynFlood\<close>: the three rate detectors; \<open>EwmaSpec\<close>: the first against
    the log of its packets. \<open>Detector\<close>: \<open>Threatdetector.hpp\<close> and
    \<open>ThreatDetector.cpp\<close>. \<open>AlertRules\<close>: the contract of a rule (locale \<open>alert_rule\<close>, interpreted by
    all six) and what follows for runs of the detector. \<open>Isolation\<close>: the rules read and write the
    state of one source only (locale \<open>source_local\<close>, interpreted by all six). \<open>RuleLogs\<close>: the rules
    that meter a rate (locale \<open>rate_meter\<close>, interpreted by brute force, exfiltration and DNS TXT)
    against the log of their events. \<open>LabelSpec\<close>: the DNS label scan against splitting the name.
  \<^item> \<open>RingBuffer\<close>, \<open>RingWait\<close>: \<open>PacketRingBuffer.hpp\<close>, first with atomic methods (locale
    \<open>bounded_fifo\<close>), then as an interleaving of the steps of \<open>pop\<close>, \<open>push\<close> and \<open>shutdown\<close>.
  \<^item> \<open>Delivery\<close>: \<open>Deliverylayer.hpp\<close> and \<open>DeliveryLayer.cpp\<close>; \<open>WriterWait\<close>: \<open>enqueue_alert\<close>, the writer
    thread and \<open>stop\<close> as an interleaving of their steps; \<open>Dashboard\<close>: the boxes on standard output,
    the ncurses windows, what one redraw writes to them, and the timing of the dashboard thread.
  \<^item> \<open>Capture\<close>, \<open>CaptureRun\<close>: \<open>Capturelayer.hpp\<close> and \<open>CaptureLayer.cpp\<close>, the second with the pcap
    handle (opening, \<open>start\<close> and \<open>stop\<close>). \<open>Pipeline\<close>: the consumer, the
    statistics, the signal handler and the order of \<open>main\<close>. \<open>LiveRun\<close>: the running program, with
    \<open>producer_loop\<close>, the consumer, the writer, the reaper and a signal interleaved. \<open>Session\<close>: \<open>main\<close> with its output, from the
    command line to the session summary. \<open>Tunneling\<close>: lemmas for the end-to-end property below.

  \<^bold>\<open>How code is modelled.\<close> A class is a record of its members and a method a function on it; a name of
  the source keeps its name, with a prefix of the record where two classes share it (\<open>rb_push\<close>,
  \<open>ft_update\<close>). Counters of 8 to 64 bits are words and wrap. A \<open>double\<close> is the real it denotes and every
  operation is the exact one followed by one rounding; overflow to infinity, NaN and contraction to
  fused operations are not modelled. A time point is a number of nanoseconds and every reading of a
  clock is an argument. An \<open>unordered_map\<close> is an association list, in the order of its iteration, on
  which nothing depends. Methods that run under one lock are one step. Exceptions are values of a sum
  or an outcome type; \<open>std::terminate\<close> is the outcome \<open>Terminated\<close> or \<open>Std_Terminate\<close>. Library
  functions outside the repository are arguments: \<open>inet_pton\<close>, \<open>std::stod\<close>, \<open>std::stoi\<close>, the pairs that
  \<open>getopt\<close> returns, the results of SQLite and of libpcap. Output is the list of its lines, or of the
  calls that draw it. The three classes with a condition variable (\<open>RingWait\<close>, \<open>WriterWait\<close>,
  \<open>ReaperWait\<close>) have an inductive step relation, as have the threads of the running program (\<open>LiveRun\<close>): a step is what a thread does between two points where
  another may run (acquiring the mutex, waiting, the stores made without it), \<open>wait\<close> blocks until a
  notification or a spurious wake-up, and \<open>wait_for\<close> may also time out at any moment.

  \<^bold>\<open>What is shown.\<close>
  \<^item> Safety of the dissector on arbitrary bytes, and exactness on well-formed frames.
  \<^item> The flow table's invariant over all sequences of packets and evictions; keys identify flows; only
    TCP flows ever carry TCP state.
  \<^item> The rate detectors against a log of the packets of a source: \<open>scan_abs\<close>, \<open>syn_abs\<close> and \<open>ewma_abs\<close> are
    the abstraction functions, \<open>scan_refines\<close>, \<open>syn_refines\<close> and \<open>ewma_refines\<close> the simulations; the three metered rules
    through the laws of \<open>rate_meter\<close>.
  \<^item> Suppression and accounting of the alerts over runs of the detector, and the independence of the
    sources: what the detector says of one source is what it would say had it seen that source alone.
  \<^item> Order and completeness of the ring and of the delivery queue; every interleaving of the threads of
    the ring, the queue and the flow table is a sequence of their atomic operations (interpretations
    of \<open>simulation\<close>); which threads end, and the
    lost wake-ups of \<open>PacketRingBuffer::shutdown\<close> and \<open>DeliveryLayer::stop\<close>.
  \<^item> The consumer's loop on every input; what every interleaving of the running threads does to the
    frames between capture and detection; the balance of pcap handles; the
    ways in which \<open>main\<close> ends, with the exit status and the cases of undefined behaviour.
  \<^item> What the state of a TCP flow says of the segments seen on it.
  \<^item> The geometry of the dashboard's windows and the lines one redraw writes.

  \<^bold>\<open>Loops and bounds.\<close> No definition takes fuel: loops are structural recursions or \<open>function\<close>s with a
  measure. \<open>consumer_loop\<close> is driven by the list of turns it is given, so it describes every finite
  part of a run, and says whether the thread has then left the loop or waits for a packet;
  \<open>dashboard_turns\<close> is driven in the same way, and the runs of \<open>live_step\<close> are its finite traces. The limit of 128 labels in
  \<open>dns_labels\<close> is the code's own; a name has at most 127. The properties of \<open>PortScan\<close>, \<open>SynFlood\<close>, \<open>EwmaSpec\<close>
  and \<open>RuleLogs\<close> on logs bound the number of packets (or of bytes), so that the counters have not wrapped.

  \<^bold>\<open>Not modelled.\<close> What happens inside ncurses, SQLite and libpcap, readings of the
  clock before 1970 or behind 9999, the log lines on standard error, \<open>sigaction\<close> (the handler is an
  event of the run), and the memory model beyond interleavings: atomics are read and written in one
  step each; time stamps beyond the range of \<open>int64_t\<close>. The scheduling of the threads is the choice of the steps; where an order between threads
  decides a result outside the four models of threads it is an argument (\<open>sc_producer_first\<close>), and the
  joins of \<open>main\<close> are taken to return (\<open>stop_can_hang\<close> shows when they do not).
\<close>

section \<open>Properties that span components\<close>

text \<open>
  Claim C8. A DNS tunnel is seen from the wire to the delivery queue: a query over UDP port 53 with a label at least
  as long as the limit, whatever its headers, other labels and the state of the pipeline, makes the
  consumer queue a DNS-tunnelling alert for the sender, unless one was fired for it within the
  suppression window. (Labels holding a '.' byte are excluded: the rule would split them.)
\<close>

theorem tunnel_query_alerts:
  assumes mac: "length dst = 6" "length src = 6"
    and h: "options_ok (ih_options h)" "ih_proto h = IPPROTO_UDP_NUM"
    and ports: "sp = PORT_DNS \<or> dp = PORT_DNS"
    and hdr: "length hdr = 12" "be16_of (hdr ! 4) (hdr ! 5) \<noteq> 0"
    and ls: "ls \<noteq> []" "length ls < DNS_MAX_LABEL_HOPS" "\<forall>l \<in> set ls. dns_label_ok l"
    and msg: "msg = hdr @ dns_name_bytes ls @ [q1, q2] @ rest"
    and fits: "length (udp_frame dst src h sp dp ulen ck msg) < 2 ^ 32"
    and nodot: "list_all (\<lambda>l. CHR ''.'' \<notin> set (chars_of l)) ls"
    and long: "l \<in> set ls" "max_label_length (dns_tunneling (td_config (pl_detector pl))) \<le> length l"
    and quiet: "\<not> is_suppressed (pl_detector pl) (format_ipv4 (ih_src h)) DNS_TUNNELING (tc_now tc)"
  shows "\<exists>pl' a. consume inet_pton tc (frame_of (udp_frame dst src h sp dp ulen ck msg) orig ts) pl = Some pl' \<and>
     a \<in> set (dl_queue (pl_delivery pl')) \<and> al_attack_type a = DNS_TUNNELING \<and>
     al_src_ip a = format_ipv4 (ih_src h)"
proof -
  obtain info where i: "dissect_packet (frame_of (udp_frame dst src h sp dp ulen ck msg) orig ts) = Some info"
    "valid info" "src_ip info = format_ipv4 (ih_src h)"
    "dns info = Some \<lparr> query_name = dotted (map chars_of ls), query_type = be16_of q1 q2,
        is_response = (and (hdr ! 2) 0x80 \<noteq> 0) \<rparr>"
    using dns_frame_result [OF mac h ports hdr ls msg fits, of orig ts] by blast
  have "length (chars_of l) \<le> max_label (dotted (map chars_of ls))"
    by (rule max_label_dotted) (use nodot long(1) in \<open>auto simp: list_all_iff\<close>)
  then have "dns_name_suspicious (td_config (pl_detector pl)) (dotted (map chars_of ls))"
    using long(2) by (simp add: dns_name_suspicious_def)
  then obtain a where a: "a \<in> set (fired_since (pl_detector pl)
       (inspect (tc_detector tc) info (tc_now tc) (pl_detector pl)))"
    "al_attack_type a = DNS_TUNNELING" "al_src_ip a = src_ip info"
    using inspect_dns_fires [OF i(2) _ i(4)] quiet i(3) format_ipv4_nonempty by fastforce
  then show ?thesis using consume_alerts [OF i(1,2), of inet_pton tc pl] i(3) by auto
qed

definition tunnel_labels :: "u8 list list" where
  "tunnel_labels = [replicate 40 97, [99, 111, 109]]"

definition tunnel_header :: "u8 list" where
  "tunnel_header = [0, 9, 1, 0, 0, 1, 0, 0, 0, 0, 0, 0]"

definition tunnel_query :: "u8 list" where
  "tunnel_query = tunnel_header @ dns_name_bytes tunnel_labels @ [0, 1] @ [0, 1]"

lemma length_tunnel_query: "length tunnel_query = 62"
  by (simp add: tunnel_query_def tunnel_header_def tunnel_labels_def dns_name_bytes_def vec8_def)

lemma tunnel_query_alerts_witness:
  "\<exists>pl' a. consume (\<lambda>_. None) sample_turn (frame_of (udp_frame [1, 2, 3, 4, 5, 6] [7, 8, 9, 10, 11, 12]
       (sample_ipv4 17) 5353 53 70 0 tunnel_query) 104 0) (new_pipeline default_config new_delivery_layer) = Some pl' \<and>
     a \<in> set (dl_queue (pl_delivery pl')) \<and> al_attack_type a = DNS_TUNNELING"
proof -
  have fits: "length (udp_frame [1, 2, 3, 4, 5, 6] [7, 8, 9, 10, 11, 12] (sample_ipv4 17) 5353 53 70 0
      tunnel_query) < 2 ^ 32"
    by (simp add: udp_frame_def ethernet_bytes_def sample_ipv4_def length_tunnel_query)
  have labels: "\<forall>l \<in> set tunnel_labels. dns_label_ok l"
    "list_all (\<lambda>l. CHR ''.'' \<notin> set (chars_of l)) tunnel_labels"
    "tunnel_labels \<noteq> []" "length tunnel_labels < DNS_MAX_LABEL_HOPS" "replicate 40 97 \<in> set tunnel_labels"
    by (auto simp: tunnel_labels_def dns_label_ok_def chars_of_def char_of_def)
  have hdr: "length tunnel_header = 12" "be16_of (tunnel_header ! 4) (tunnel_header ! 5) \<noteq> 0"
    by (simp_all add: tunnel_header_def be16_of_def)
  let ?pl = "new_pipeline default_config new_delivery_layer"
  have quiet: "\<not> is_suppressed (pl_detector ?pl) (format_ipv4 (ih_src (sample_ipv4 17))) DNS_TUNNELING (tc_now sample_turn)"
    by (simp add: is_suppressed_def new_pipeline_def new_detector_def)
  have long: "max_label_length (dns_tunneling (td_config (pl_detector ?pl))) \<le> length (replicate 40 (97 :: u8))"
    by (simp add: new_pipeline_def new_detector_def default_config_defs)
  have "length [1, 2, 3, 4, 5, 6 :: u8] = 6" "length [7, 8, 9, 10, 11, 12 :: u8] = 6"
    "options_ok (ih_options (sample_ipv4 17))" "ih_proto (sample_ipv4 17) = IPPROTO_UDP_NUM"
    "(5353 :: u16) = PORT_DNS \<or> (53 :: u16) = PORT_DNS"
    by (simp_all add: sample_ipv4_def options_ok_def)
  from tunnel_query_alerts [OF this hdr labels(3,4,1) tunnel_query_def fits labels(2,5) long quiet]
  show ?thesis by blast
qed

end
